(* ===== verification/Prelude.thy ===== *)
theory Prelude
  imports Main "HOL-Library.Word" "HOL-Library.Monad_Syntax"
begin

text \<open>
  The vocabulary shared by the whole development: machine words, byte buffers, pointers and
  undefined behaviour, the bounds-checked forms of \<open>memcpy\<close> and \<open>memset\<close>, lists cut into
  blocks, and the big-endian encodings that the specifications use.

  A C function that may read or write outside an object returns \<open>'a ub\<close>: \<open>None\<close> is the
  undefined behaviour of the C standard (an access out of bounds, a null dereference), and
  \<open>Some\<close> is a normal return. A pointer to an object is \<open>'a ptr\<close>: \<open>None\<close> is \<open>NULL\<close>.
\<close>

unbundle bit_operations_syntax

subsection \<open>Types\<close>

type_synonym u8 = "8 word"
type_synonym u32 = "32 word"
type_synonym u64 = "64 word"
type_synonym i32 = "32 word"
type_synonym bytes = "u8 list"
type_synonym 'a ptr = "'a option"
type_synonym 'a ub = "'a option"

named_theorems mem_simps "bounds-checked memory operations, unfolded"
named_theorems be_simps "big-endian reads and writes, unfolded"

subsection \<open>Array accesses\<close>

definition rd :: "'a list \<Rightarrow> nat \<Rightarrow> 'a ub" where
  "rd a i = (if i < length a then Some (a ! i) else None)"

definition wr :: "'a list \<Rightarrow> nat \<Rightarrow> 'a \<Rightarrow> 'a list ub" where
  "wr a i v = (if i < length a then Some (a[i := v]) else None)"

text \<open>\<open>memcpy (dst + off, src, n)\<close> and \<open>memset (dst + off, v, n)\<close>.\<close>

definition memcpy_at :: "'a list \<Rightarrow> nat \<Rightarrow> 'a list \<Rightarrow> nat \<Rightarrow> 'a list ub" where
  "memcpy_at dst off src n =
     (if off + n \<le> length dst \<and> n \<le> length src
      then Some (take off dst @ take n src @ drop (off + n) dst) else None)"

definition memset_at :: "'a list \<Rightarrow> nat \<Rightarrow> 'a \<Rightarrow> nat \<Rightarrow> 'a list ub" where
  "memset_at dst off v n =
     (if off + n \<le> length dst
      then Some (take off dst @ replicate n v @ drop (off + n) dst) else None)"

lemma rd_Some [mem_simps]: "i < length a \<Longrightarrow> rd a i = Some (a ! i)"
  by (simp add: rd_def)

lemma wr_Some [mem_simps]: "i < length a \<Longrightarrow> wr a i v = Some (a[i := v])"
  by (simp add: wr_def)

lemma memcpy_at_Some [mem_simps]:
  "off + n \<le> length dst \<Longrightarrow> n \<le> length src \<Longrightarrow>
     memcpy_at dst off src n = Some (take off dst @ take n src @ drop (off + n) dst)"
  by (simp add: memcpy_at_def)

lemma memset_at_Some [mem_simps]:
  "off + n \<le> length dst \<Longrightarrow>
     memset_at dst off v n = Some (take off dst @ replicate n v @ drop (off + n) dst)"
  by (simp add: memset_at_def)

lemma length_memcpy_at: "memcpy_at dst off src n = Some r \<Longrightarrow> length r = length dst"
  by (auto simp: memcpy_at_def split: if_splits)

lemma length_memset_at: "memset_at dst off v n = Some r \<Longrightarrow> length r = length dst"
  by (auto simp: memset_at_def split: if_splits)

lemma wr_eq_Some: "wr a i v = Some r \<longleftrightarrow> i < length a \<and> r = a[i := v]"
  by (auto simp: wr_def)

lemma rd_eq_Some: "rd a i = Some r \<longleftrightarrow> i < length a \<and> r = a ! i"
  by (auto simp: rd_def)

subsection \<open>Words\<close>

lemma unat_and_mask_u32: "unat (x AND (mask k :: u32)) = unat x mod 2 ^ k"
  by (simp only: take_bit_eq_mask [symmetric] unsigned_take_bit_eq) (simp add: take_bit_eq_mod)

lemma unat_and_63: "unat ((x :: u32) AND 63) = unat x mod 64"
  using unat_and_mask_u32 [of x 6] by (simp add: mask_eq_exp_minus_1)

lemma unat_and_127: "unat ((x :: u32) AND 127) = unat x mod 128"
  using unat_and_mask_u32 [of x 7] by (simp add: mask_eq_exp_minus_1)

lemma unat_u32_lt: "unat (x :: u32) < 4294967296"
  using unsigned_less [of x] by simp

lemma unat_add_u32: "unat (x + y :: u32) = (unat x + unat y) mod 4294967296"
  by (simp add: unat_word_ariths)

lemma unat_sub_u32: "y \<le> x \<Longrightarrow> unat (x - y :: u32) = unat x - unat y"
  by (rule unat_sub)

lemma and_all_ones_u32: "(x :: u32) AND 4294967295 = x"
proof -
  have "(4294967295 :: u32) = - 1" by simp
  then show ?thesis by (metis and.right_neutral)
qed

text \<open>Rotations written with two shifts.\<close>

lemma shifts_rotr:
  fixes x :: "'a::len word"
  assumes "n < LENGTH('a)"
  shows "drop_bit n x OR push_bit (LENGTH('a) - n) x = word_rotr n x"
proof (rule bit_word_eqI)
  fix m assume m: "m < LENGTH('a)"
  show "bit (drop_bit n x OR push_bit (LENGTH('a) - n) x) m = bit (word_rotr n x) m"
  proof (cases "m + n < LENGTH('a)")
    case True
    then show ?thesis using m by (auto simp: bit_simps add.commute)
  next
    case False
    then have "(m + n) mod LENGTH('a) = m - (LENGTH('a) - n)"
      using m assms by (simp add: le_mod_geq)
    then show ?thesis using False m assms
      by (auto simp: bit_simps add.commute not_less dest: bit_imp_le_length)
  qed
qed

lemma shifts_rotl:
  fixes x :: "'a::len word"
  assumes "0 < n" "n < LENGTH('a)"
  shows "push_bit n x OR drop_bit (LENGTH('a) - n) x = word_rotl n x"
  using shifts_rotr [of "LENGTH('a) - n" x] assms
  by (simp add: word_rotl_eq_word_rotr or.commute)

text \<open>The choice and majority functions, as code writes them and as the standards do.\<close>

lemma choice_eq: "z XOR (x AND (y XOR z)) = (x AND y) XOR (NOT x AND (z :: 'a::len word))"
  by (rule bit_word_eqI) (auto simp: bit_simps)

lemma majority_eq:
  "(x AND y) OR (z AND (x OR y)) = (x AND y) XOR (x AND z) XOR (y AND (z :: 'a::len word))"
  by (rule bit_word_eqI) (auto simp: bit_simps)

lemma tuple8_cases:
  obtains a b c d e f g h where "(s :: 'a \<times> 'b \<times> 'c \<times> 'd \<times> 'e \<times> 'f \<times> 'g \<times> 'h) = (a, b, c, d, e, f, g, h)"
proof -
  obtain a b c d e f r where "s = (a, b, c, d, e, f, r)" by (cases s)
  then show thesis using that by (cases r) blast
qed

subsection \<open>Blocks of a list\<close>

function chunks :: "nat \<Rightarrow> 'a list \<Rightarrow> 'a list list" where
  "chunks n xs = (if n = 0 \<or> length xs < n then [] else take n xs # chunks n (drop n xs))"
  by pat_completeness auto
termination
  by (relation "measure (\<lambda>(n, xs). length xs)") auto

declare chunks.simps [simp del]

lemma chunks_short: "length xs < n \<Longrightarrow> chunks n xs = []"
  by (subst chunks.simps) simp

lemma chunks_step:
  "0 < n \<Longrightarrow> n \<le> length xs \<Longrightarrow> chunks n xs = take n xs # chunks n (drop n xs)"
  by (subst chunks.simps) simp

lemma chunks_block: "0 < n \<Longrightarrow> length xs = n \<Longrightarrow> chunks n (xs @ ys) = xs # chunks n ys"
  by (subst chunks_step) simp_all

lemma chunks_append:
  assumes "0 < n" and "length xs = n * k"
  shows "chunks n (xs @ ys) = chunks n xs @ chunks n ys"
  using assms(2)
proof (induction k arbitrary: xs)
  case 0
  then show ?case using assms(1) by (simp add: chunks_short)
next
  case (Suc k)
  then have len: "n \<le> length xs" and "length (drop n xs) = n * k" by auto
  then have "chunks n (drop n xs @ ys) = chunks n (drop n xs) @ chunks n ys"
    by (intro Suc.IH)
  then show ?case using len assms(1) by (simp add: chunks_step)
qed

lemma length_chunks: "0 < n \<Longrightarrow> length (chunks n xs) = length xs div n"
proof (induction n xs rule: chunks.induct)
  case (1 n xs)
  then show ?case
    by (cases "length xs < n") (simp_all add: chunks_short chunks_step le_div_geq)
qed

lemma length_chunk: "0 < n \<Longrightarrow> c \<in> set (chunks n xs) \<Longrightarrow> length c = n"
proof (induction n xs rule: chunks.induct)
  case (1 n xs)
  then show ?case
    by (cases "length xs < n") (auto simp: chunks_short chunks_step)
qed

text \<open>The complete blocks of a list do not see the tail that is shorter than a block.\<close>

definition tailpart :: "nat \<Rightarrow> 'a list \<Rightarrow> 'a list" where
  "tailpart n xs = drop (n * (length xs div n)) xs"

lemma length_tailpart: "length (tailpart n xs) = length xs mod n"
  by (simp add: tailpart_def minus_mult_div_eq_mod)

lemma tailpart_split:
  obtains p where "xs = p @ tailpart n xs" and "length p = n * (length xs div n)"
proof
  show "xs = take (n * (length xs div n)) xs @ tailpart n xs"
    by (simp add: tailpart_def)
  show "length (take (n * (length xs div n)) xs) = n * (length xs div n)"
    by simp
qed

lemma tailpart_drop_blocks: "0 < n \<Longrightarrow> length p = n * k \<Longrightarrow> tailpart n (p @ xs) = tailpart n xs"
  by (simp add: tailpart_def algebra_simps)

lemma tailpart_short: "length xs < n \<Longrightarrow> tailpart n xs = xs"
  by (simp add: tailpart_def)

lemma chunks_tailpart:
  assumes "0 < n"
  shows "chunks n (xs @ ys) = chunks n xs @ chunks n (tailpart n xs @ ys)"
proof -
  obtain p where p: "xs = p @ tailpart n xs" and l: "length p = n * (length xs div n)"
    by (rule tailpart_split)
  have s: "length (tailpart n xs) < n" using assms by (simp add: length_tailpart)
  have "chunks n xs = chunks n (p @ tailpart n xs)" using p by simp
  also have "\<dots> = chunks n p" by (simp add: chunks_append [OF assms l] chunks_short [OF s])
  finally have *: "chunks n xs = chunks n p" .
  have "chunks n (xs @ ys) = chunks n ((p @ tailpart n xs) @ ys)" using p by simp
  then show ?thesis by (simp add: * chunks_append [OF assms l])
qed

lemma tailpart_append:
  assumes "0 < n"
  shows "tailpart n (xs @ ys) = tailpart n (tailpart n xs @ ys)"
proof -
  obtain p where p: "xs = p @ tailpart n xs" and l: "length p = n * (length xs div n)"
    by (rule tailpart_split)
  have "xs @ ys = p @ (tailpart n xs @ ys)" by (metis p append_assoc)
  then show ?thesis by (metis tailpart_drop_blocks [OF assms l])
qed

subsection \<open>Big-endian encodings\<close>

text \<open>The \<open>k\<close>-byte big-endian encoding of a number, as the standards write it.\<close>

definition be_bytes :: "nat \<Rightarrow> nat \<Rightarrow> bytes" where
  "be_bytes k n = map (\<lambda>i. of_nat (n div 256 ^ (k - Suc i))) [0..<k]"

lemma length_be_bytes [simp]: "length (be_bytes k n) = k"
  by (simp add: be_bytes_def)

lemma be_bytes_mod: "be_bytes k (n mod 256 ^ k) = be_bytes k n"
proof (rule nth_equalityI)
  fix i assume "i < length (be_bytes k (n mod 256 ^ k))"
  then have i: "i < k" by simp
  let ?e = "k - Suc i"
  have k: "(256 :: nat) ^ k = 256 ^ ?e * 256 ^ Suc i"
    using i by (simp only: power_add [symmetric]) simp
  have "n mod 256 ^ k div 256 ^ ?e = n div 256 ^ ?e mod 256 ^ Suc i"
    unfolding k by (simp only: mod_mult2_eq) simp
  then have "n mod 256 ^ k div 256 ^ ?e mod 256 = n div 256 ^ ?e mod 256"
    by (simp add: mod_mod_cancel)
  then have "(of_nat (n mod 256 ^ k div 256 ^ ?e) :: u8) = of_nat (n div 256 ^ ?e)"
    by (simp add: word_unat_eq_iff unat_of_nat)
  then show "be_bytes k (n mod 256 ^ k) ! i = be_bytes k n ! i"
    using i by (simp add: be_bytes_def)
qed simp

lemma be_bytes_append: "be_bytes (j + k) n = be_bytes j (n div 256 ^ k) @ be_bytes k n"
proof (rule nth_equalityI)
  fix i assume i: "i < length (be_bytes (j + k) n)"
  show "be_bytes (j + k) n ! i = (be_bytes j (n div 256 ^ k) @ be_bytes k n) ! i"
  proof (cases "i < j")
    case True
    then have "j + k - Suc i = k + (j - Suc i)" by simp
    then have "n div 256 ^ (j + k - Suc i) = n div 256 ^ k div 256 ^ (j - Suc i)"
      by (simp only: power_add div_mult2_eq)
    then show ?thesis using True i by (simp add: be_bytes_def nth_append)
  next
    case False
    then have "i - j < k" and "k - Suc (i - j) = j + k - Suc i" using i by simp_all
    then show ?thesis using False i by (simp add: be_bytes_def nth_append)
  qed
qed simp

definition xor_bytes :: "bytes \<Rightarrow> bytes \<Rightarrow> bytes" where
  "xor_bytes xs ys = map2 (XOR) xs ys"

lemma length_xor_bytes [simp]: "length (xor_bytes xs ys) = min (length xs) (length ys)"
  by (simp add: xor_bytes_def)

lemma xor_bytes_cancel: "length xs = length ys \<Longrightarrow> xor_bytes (xor_bytes xs ys) ys = xs"
  by (rule nth_equalityI) (simp_all add: xor_bytes_def xor.assoc)

lemma xor_bytes_commute: "xor_bytes xs ys = xor_bytes ys xs"
  by (rule nth_equalityI) (simp_all add: xor_bytes_def xor.commute)

subsection \<open>Loops over an index range\<close>

lemma fold_upt_step: "i < j \<Longrightarrow> fold f [i..<j] s = fold f [Suc i..<j] (f i s)"
  by (simp add: upt_conv_Cons)

lemma fold_upt_split:
  "i \<le> j \<Longrightarrow> j \<le> k \<Longrightarrow> fold f [j..<k] (fold f [i..<j] s) = fold f [i..<k] s"
  using upt_add_eq_append [of i j "k - j"] by simp

lemma fold_upt_5:
  "fold f [i..<i + 5] s = (f (i + 4) \<circ> f (i + 3) \<circ> f (i + 2) \<circ> f (i + 1) \<circ> f (i + 0)) s"
  by (simp add: fold_upt_step eval_nat_numeral)

lemma fold_upt_8:
  "fold f [i..<i + 8] s = (f (i + 7) \<circ> f (i + 6) \<circ> f (i + 5) \<circ> f (i + 4)
     \<circ> f (i + 3) \<circ> f (i + 2) \<circ> f (i + 1) \<circ> f (i + 0)) s"
  by (simp add: fold_upt_step eval_nat_numeral)

lemma all_less_5: "(\<forall>t < 5. P t) \<longleftrightarrow> P 0 \<and> P 1 \<and> P 2 \<and> P 3 \<and> P (4 :: nat)"
  by (simp add: eval_nat_numeral All_less_Suc2)

lemma all_less_8:
  "(\<forall>t < 8. P t) \<longleftrightarrow> P 0 \<and> P 1 \<and> P 2 \<and> P 3 \<and> P 4 \<and> P 5 \<and> P 6 \<and> P (7 :: nat)"
  by (simp add: eval_nat_numeral All_less_Suc2)

text \<open>The big-endian bytes determine a number that they can hold.\<close>

lemma be_bytes_inj:
  assumes "be_bytes k m = be_bytes k n" and "m < 256 ^ k" "n < 256 ^ k"
  shows "m = n"
  using assms
proof (induction k arbitrary: m n)
  case (Suc k)
  have split: "be_bytes (Suc k) x = be_bytes k (x div 256) @ be_bytes 1 x" for x
    using be_bytes_append [of k 1 x] by simp
  have "be_bytes k (m div 256) = be_bytes k (n div 256)" and last: "be_bytes 1 m = be_bytes 1 n"
    using Suc.prems(1) unfolding split by simp_all
  then have "m div 256 = n div 256"
    using Suc.IH [of "m div 256" "n div 256"] Suc.prems(2,3) by (simp add: div_less_iff_less_mult ac_simps)
  moreover have "(of_nat m :: u8) = of_nat n" using last by (simp add: be_bytes_def)
  then have "unat (of_nat m :: u8) = unat (of_nat n :: u8)" by simp
  then have "m mod 256 = n mod 256" by (simp add: unat_of_nat)
  ultimately show ?case by (metis div_mult_mod_eq)
qed simp

lemma unat_ucast_u64: "unat (ucast (x :: u32) :: u64) = unat x"
  using unat_u32_lt [of x] by (simp add: unsigned_ucast_eq take_bit_nat_eq_self)

lemma drop_bit_eq_0_u32: "unat (x :: u32) < 2 ^ n \<Longrightarrow> drop_bit n x = 0"
proof -
  assume "unat x < 2 ^ n"
  then have "unat (drop_bit n x) = 0" by (simp only: unat_drop_bit_eq) (simp add: drop_bit_eq_div)
  then show ?thesis by (rule unat_eq_zero [THEN iffD1])
qed

end
