(* ===== verification/Mbcrypt.thy ===== *)
theory Mbcrypt
  imports Prelude
begin

text \<open>
  What every part of the library includes: the status codes, the hash types and their digest
  sizes of \<open>includes/mbcrypt.h\<close>, and the byte-order macros of \<open>includes/macros.h\<close>.

  \<open>MBCRYPT_CHECK_VALID_NOT_NULL (p)\<close> is a case distinction on a \<open>ptr\<close> in the functions that
  use it, and \<open>MBCRYPT_CHECK_RES (f (\<dots>))\<close> a test of the status that \<open>f\<close> returns, with the
  jump to \<open>MBCRYPT_FUNCTION_EXIT\<close> as the early result.
\<close>

subsection \<open>Status codes\<close>

datatype mbcrypt_status_e =
    MBCRYPT_STATUS_OK
  | MBCRYPT_STATUS_FAIL
  | MBCRYPT_STATUS_FAIL_NOT_IMPLEMENTED
  | MBCRYPT_STATUS_FAIL_MEMORY_ALLOCATION_ERROR
  | MBCRYPT_STATUS_FAIL_NULL_PTR
  | MBCRYPT_STATUS_FAIL_INCORRECT_FUNCTION_PARAM

fun status_code :: "mbcrypt_status_e \<Rightarrow> u32" where
  "status_code MBCRYPT_STATUS_OK = 0x00000000"
| "status_code MBCRYPT_STATUS_FAIL = 0x00000001"
| "status_code MBCRYPT_STATUS_FAIL_NOT_IMPLEMENTED = 0x00000002"
| "status_code MBCRYPT_STATUS_FAIL_MEMORY_ALLOCATION_ERROR = 0x00000004"
| "status_code MBCRYPT_STATUS_FAIL_NULL_PTR = 0x00000008"
| "status_code MBCRYPT_STATUS_FAIL_INCORRECT_FUNCTION_PARAM = 0x0000000C"

lemma status_code_inject: "status_code s = status_code t \<longleftrightarrow> s = t"
  by (cases s; cases t) simp_all

text \<open>The codes order the statuses: \<open>MBCRYPT_STATUS_OK\<close> is the least.\<close>

instantiation mbcrypt_status_e :: linorder
begin

definition less_eq_mbcrypt_status_e :: "mbcrypt_status_e \<Rightarrow> mbcrypt_status_e \<Rightarrow> bool" where
  "less_eq_mbcrypt_status_e s t \<longleftrightarrow> status_code s \<le> status_code t"

definition less_mbcrypt_status_e :: "mbcrypt_status_e \<Rightarrow> mbcrypt_status_e \<Rightarrow> bool" where
  "less_mbcrypt_status_e s t \<longleftrightarrow> status_code s < status_code t"

instance
  by standard
    (auto simp: less_eq_mbcrypt_status_e_def less_mbcrypt_status_e_def status_code_inject
      order_less_le)

end

text \<open>
  The value that \<open>x != MBCRYPT_STATUS_OK\<close> has in C, read back as a status: the comparison is 0
  or 1, and 1 is \<open>MBCRYPT_STATUS_FAIL\<close>.
\<close>

definition status_ne_ok :: "mbcrypt_status_e \<Rightarrow> mbcrypt_status_e" where
  "status_ne_ok s = (if s \<noteq> MBCRYPT_STATUS_OK then MBCRYPT_STATUS_FAIL else MBCRYPT_STATUS_OK)"

subsection \<open>Hash types\<close>

datatype mbcrypt_hash_type_e =
    MBCRYPT_HASH_TYPE_SHA1
  | MBCRYPT_HASH_TYPE_SHA224
  | MBCRYPT_HASH_TYPE_SHA256
  | MBCRYPT_HASH_TYPE_SHA384
  | MBCRYPT_HASH_TYPE_SHA512
  | MBCRYPT_HASH_TYPE_MD5

fun hash_type_index :: "mbcrypt_hash_type_e \<Rightarrow> nat" where
  "hash_type_index MBCRYPT_HASH_TYPE_SHA1 = 0"
| "hash_type_index MBCRYPT_HASH_TYPE_SHA224 = 1"
| "hash_type_index MBCRYPT_HASH_TYPE_SHA256 = 2"
| "hash_type_index MBCRYPT_HASH_TYPE_SHA384 = 3"
| "hash_type_index MBCRYPT_HASH_TYPE_SHA512 = 4"
| "hash_type_index MBCRYPT_HASH_TYPE_MD5 = 5"

definition hash_size_lookup :: "u32 list" where
  "hash_size_lookup = [20, 28, 32, 48, 64, 16]"

definition GET_HASH_SIZE_BY_HASH_TYPE :: "mbcrypt_hash_type_e \<Rightarrow> u32" where
  "GET_HASH_SIZE_BY_HASH_TYPE hash_type = hash_size_lookup ! hash_type_index hash_type"

lemma hash_size_simps [simp]:
  "GET_HASH_SIZE_BY_HASH_TYPE MBCRYPT_HASH_TYPE_SHA1 = 20"
  "GET_HASH_SIZE_BY_HASH_TYPE MBCRYPT_HASH_TYPE_SHA224 = 28"
  "GET_HASH_SIZE_BY_HASH_TYPE MBCRYPT_HASH_TYPE_SHA256 = 32"
  "GET_HASH_SIZE_BY_HASH_TYPE MBCRYPT_HASH_TYPE_SHA384 = 48"
  "GET_HASH_SIZE_BY_HASH_TYPE MBCRYPT_HASH_TYPE_SHA512 = 64"
  "GET_HASH_SIZE_BY_HASH_TYPE MBCRYPT_HASH_TYPE_MD5 = 16"
  by (simp_all add: GET_HASH_SIZE_BY_HASH_TYPE_def hash_size_lookup_def)

lemma hash_size_bounds:
  "0 < unat (GET_HASH_SIZE_BY_HASH_TYPE t)" "unat (GET_HASH_SIZE_BY_HASH_TYPE t) \<le> 64"
  by (cases t; simp)+

subsection \<open>Big-endian reads and writes\<close>

definition GET_UINT32_BE :: "bytes \<Rightarrow> nat \<Rightarrow> u32" where
  "GET_UINT32_BE b i =
     push_bit 24 (ucast (b ! (i + 0))) OR push_bit 16 (ucast (b ! (i + 1)))
     OR push_bit 8 (ucast (b ! (i + 2))) OR push_bit 0 (ucast (b ! (i + 3)))"

definition PUT_UINT32_BE :: "u32 \<Rightarrow> bytes \<Rightarrow> nat \<Rightarrow> bytes ub" where
  "PUT_UINT32_BE n b i = do {
     b \<leftarrow> wr b (i + 0) (ucast (drop_bit 24 n));
     b \<leftarrow> wr b (i + 1) (ucast (drop_bit 16 n));
     b \<leftarrow> wr b (i + 2) (ucast (drop_bit 8 n));
     wr b (i + 3) (ucast (drop_bit 0 n))
   }"

definition GET_UINT64_BE :: "bytes \<Rightarrow> nat \<Rightarrow> u64" where
  "GET_UINT64_BE b i =
     push_bit 56 (ucast (b ! (i + 0))) OR push_bit 48 (ucast (b ! (i + 1)))
     OR push_bit 40 (ucast (b ! (i + 2))) OR push_bit 32 (ucast (b ! (i + 3)))
     OR push_bit 24 (ucast (b ! (i + 4))) OR push_bit 16 (ucast (b ! (i + 5)))
     OR push_bit 8 (ucast (b ! (i + 6))) OR push_bit 0 (ucast (b ! (i + 7)))"

definition PUT_UINT64_BE :: "u64 \<Rightarrow> bytes \<Rightarrow> nat \<Rightarrow> bytes ub" where
  "PUT_UINT64_BE n b i = do {
     b \<leftarrow> wr b (i + 0) (ucast (drop_bit 56 n));
     b \<leftarrow> wr b (i + 1) (ucast (drop_bit 48 n));
     b \<leftarrow> wr b (i + 2) (ucast (drop_bit 40 n));
     b \<leftarrow> wr b (i + 3) (ucast (drop_bit 32 n));
     b \<leftarrow> wr b (i + 4) (ucast (drop_bit 24 n));
     b \<leftarrow> wr b (i + 5) (ucast (drop_bit 16 n));
     b \<leftarrow> wr b (i + 6) (ucast (drop_bit 8 n));
     wr b (i + 7) (ucast (drop_bit 0 n))
   }"

lemma ucast_drop_bit_eq_of_nat:
  "(ucast (drop_bit k (n :: 'a::len word)) :: u8) = of_nat (unat n div 2 ^ k)"
proof -
  have "(ucast (drop_bit k n) :: u8) = of_nat (unat (drop_bit k n))" by simp
  then show ?thesis by (metis unat_drop_bit_eq drop_bit_eq_div)
qed

lemma be_bytes_4:
  "be_bytes 4 (unat (n :: u32)) =
     [ucast (drop_bit 24 n), ucast (drop_bit 16 n), ucast (drop_bit 8 n), ucast n]"
  using ucast_drop_bit_eq_of_nat [of 0 n]
  by (simp add: be_bytes_def ucast_drop_bit_eq_of_nat upt_rec)

lemma be_bytes_8:
  "be_bytes 8 (unat (n :: u64)) =
     [ucast (drop_bit 56 n), ucast (drop_bit 48 n), ucast (drop_bit 40 n), ucast (drop_bit 32 n),
      ucast (drop_bit 24 n), ucast (drop_bit 16 n), ucast (drop_bit 8 n), ucast n]"
  using ucast_drop_bit_eq_of_nat [of 0 n]
  by (simp add: be_bytes_def ucast_drop_bit_eq_of_nat upt_rec)

lemma list_update_run_4:
  assumes "i + 4 \<le> length b"
  shows "b[i := p, i + 1 := q, i + 2 := r, i + 3 := s] = take i b @ [p, q, r, s] @ drop (i + 4) b"
proof -
  obtain x c where b: "b = x @ c" and x: "length x = i" and "4 \<le> length c"
    using assms that [of "take i b" "drop i b"] by simp
  from this(3) obtain c0 c1 c2 c3 d where "c = c0 # c1 # c2 # c3 # d"
    by (auto simp: numeral_eq_Suc Suc_le_length_iff)
  with b x show ?thesis by (simp add: list_update_append)
qed

lemma list_update_run_8:
  assumes "i + 8 \<le> length b"
  shows "b[i := p, i + 1 := q, i + 2 := r, i + 3 := s, i + 4 := t, i + 5 := u, i + 6 := v, i + 7 := w] =
     take i b @ [p, q, r, s, t, u, v, w] @ drop (i + 8) b"
proof -
  obtain x c where b: "b = x @ c" and x: "length x = i" and "8 \<le> length c"
    using assms that [of "take i b" "drop i b"] by simp
  from this(3) obtain c0 c1 c2 c3 c4 c5 c6 c7 d
    where "c = c0 # c1 # c2 # c3 # c4 # c5 # c6 # c7 # d"
    by (auto simp: numeral_eq_Suc Suc_le_length_iff)
  with b x show ?thesis by (simp add: list_update_append)
qed

lemma PUT_UINT32_BE_eq:
  "i + 4 \<le> length b \<Longrightarrow>
     PUT_UINT32_BE n b i = Some (take i b @ be_bytes 4 (unat n) @ drop (i + 4) b)"
  by (simp add: PUT_UINT32_BE_def mem_simps be_bytes_4 flip: list_update_run_4 [simplified])

lemma PUT_UINT64_BE_eq:
  "i + 8 \<le> length b \<Longrightarrow>
     PUT_UINT64_BE n b i = Some (take i b @ be_bytes 8 (unat n) @ drop (i + 8) b)"
  by (simp add: PUT_UINT64_BE_def mem_simps be_bytes_8 flip: list_update_run_8 [simplified])

text \<open>The value of a big-endian byte string, as the standards define it.\<close>

definition be_word :: "bytes \<Rightarrow> 'a::len word" where
  "be_word bs = foldl (\<lambda>w b. w * 256 + ucast b) 0 bs"

lemma be_word_step: "w * 256 + ucast (b :: u8) = push_bit 8 w OR (ucast b :: 'a::len word)"
proof -
  have "w * 256 = push_bit 8 w" by (simp add: push_bit_eq_mult mult.commute)
  moreover have "push_bit 8 w + (ucast b :: 'a word) = push_bit 8 w OR ucast b"
    by (rule disjunctive_add) (auto simp: bit_simps dest: bit_imp_le_length)
  ultimately show ?thesis by simp
qed

lemma be_word_4: "be_word [a, b, c, d] =
    push_bit 24 (ucast a) OR push_bit 16 (ucast b) OR push_bit 8 (ucast c) OR ucast d"
  by (simp add: be_word_def be_word_step push_bit_or or.assoc)

lemma be_word_8: "be_word [a, b, c, d, e, f, g, h] =
    push_bit 56 (ucast a) OR push_bit 48 (ucast b) OR push_bit 40 (ucast c) OR push_bit 32 (ucast d)
    OR push_bit 24 (ucast e) OR push_bit 16 (ucast f) OR push_bit 8 (ucast g) OR ucast h"
  by (simp add: be_word_def be_word_step push_bit_or or.assoc)

lemma take_drop_4:
  "i + 4 \<le> length b \<Longrightarrow> take 4 (drop i b) = [b ! i, b ! (i + 1), b ! (i + 2), b ! (i + 3)]"
  by (rule nth_equalityI) (auto simp: nth_Cons numeral_eq_Suc less_Suc_eq split: nat.splits)

lemma take_drop_8:
  "i + 8 \<le> length b \<Longrightarrow> take 8 (drop i b) =
     [b ! i, b ! (i + 1), b ! (i + 2), b ! (i + 3), b ! (i + 4), b ! (i + 5), b ! (i + 6), b ! (i + 7)]"
  by (rule nth_equalityI) (auto simp: nth_Cons numeral_eq_Suc less_Suc_eq split: nat.splits)

lemma GET_UINT32_BE_eq: "i + 4 \<le> length b \<Longrightarrow> GET_UINT32_BE b i = be_word (take 4 (drop i b))"
  by (simp only: take_drop_4 be_word_4) (simp add: GET_UINT32_BE_def or.assoc)

lemma GET_UINT64_BE_eq: "i + 8 \<le> length b \<Longrightarrow> GET_UINT64_BE b i = be_word (take 8 (drop i b))"
  by (simp only: take_drop_8 be_word_8) (simp add: GET_UINT64_BE_def or.assoc)

lemma split_low_byte: "drop_bit 8 m * 256 + ucast (ucast m :: u8) = (m :: 'a::len word)"
  unfolding be_word_step by (rule bit_word_eqI) (auto simp: bit_simps)

lemma split_low_byte_at:
  "drop_bit (8 + k) m * 256 + ucast (ucast (drop_bit k m) :: u8) = drop_bit k (m :: 'a::len word)"
  using split_low_byte [of "drop_bit k m"] by simp

lemma ucast_ucast_small: "(\<And>n. bit m n \<Longrightarrow> n < 8) \<Longrightarrow> ucast (ucast m :: u8) = (m :: 'a::len word)"
  by (rule bit_word_eqI) (auto simp: bit_simps)

lemma be_word_be_bytes_4: "be_word (be_bytes 4 (unat n)) = (n :: u32)"
proof -
  have "ucast (ucast (drop_bit 24 n) :: u8) = drop_bit 24 n"
    by (rule ucast_ucast_small) (auto simp: bit_simps dest: bit_imp_le_length)
  then show ?thesis
    using split_low_byte_at [of 16 n] split_low_byte_at [of 8 n] split_low_byte [of n]
    by (simp add: be_word_def be_bytes_4)
qed

lemma be_word_be_bytes_8: "be_word (be_bytes 8 (unat n)) = (n :: u64)"
proof -
  have "ucast (ucast (drop_bit 56 n) :: u8) = drop_bit 56 n"
    by (rule ucast_ucast_small) (auto simp: bit_simps dest: bit_imp_le_length)
  then show ?thesis
    using split_low_byte_at [of 48 n] split_low_byte_at [of 40 n] split_low_byte_at [of 32 n]
      split_low_byte_at [of 24 n] split_low_byte_at [of 16 n] split_low_byte_at [of 8 n]
      split_low_byte [of n]
    by (simp add: be_word_def be_bytes_8)
qed

text \<open>Writing a word and reading it back, at any offset of a buffer that holds it.\<close>

lemma GET_after_PUT_UINT32_BE: "PUT_UINT32_BE n b i = Some b' \<Longrightarrow> GET_UINT32_BE b' i = n"
proof -
  assume put: "PUT_UINT32_BE n b i = Some b'"
  then have le: "i + 4 \<le> length b"
    by (auto simp: PUT_UINT32_BE_def wr_eq_Some bind_eq_Some_conv)
  with put have "b' = take i b @ be_bytes 4 (unat n) @ drop (i + 4) b"
    by (simp add: PUT_UINT32_BE_eq)
  with le show ?thesis by (simp add: GET_UINT32_BE_eq be_word_be_bytes_4)
qed

lemma GET_after_PUT_UINT64_BE: "PUT_UINT64_BE n b i = Some b' \<Longrightarrow> GET_UINT64_BE b' i = n"
proof -
  assume put: "PUT_UINT64_BE n b i = Some b'"
  then have le: "i + 8 \<le> length b"
    by (auto simp: PUT_UINT64_BE_def wr_eq_Some bind_eq_Some_conv)
  with put have "b' = take i b @ be_bytes 8 (unat n) @ drop (i + 8) b"
    by (simp add: PUT_UINT64_BE_eq)
  with le show ?thesis by (simp add: GET_UINT64_BE_eq be_word_be_bytes_8)
qed

subsection \<open>Checking a status\<close>

text \<open>
  The macro \<open>MBCRYPT_CHECK_RES (f (\<dots>))\<close> as a combinator: the state that the call returns goes on
  if the status is \<open>MBCRYPT_STATUS_OK\<close>, and is the result with the status otherwise.
\<close>

definition MBCRYPT_CHECK_RES ::
    "(mbcrypt_status_e \<times> 's) ub \<Rightarrow> ('s \<Rightarrow> (mbcrypt_status_e \<times> 's) ub) \<Rightarrow> (mbcrypt_status_e \<times> 's) ub" where
  "MBCRYPT_CHECK_RES r k = do {
     (st, s) \<leftarrow> r;
     if st \<noteq> MBCRYPT_STATUS_OK then Some (st, s) else k s
   }"

lemma CHECK_RES_simps [simp]:
  "MBCRYPT_CHECK_RES (Some (MBCRYPT_STATUS_OK, s)) k = k s"
  "st \<noteq> MBCRYPT_STATUS_OK \<Longrightarrow> MBCRYPT_CHECK_RES (Some (st, s)) k = Some (st, s)"
  "MBCRYPT_CHECK_RES None k = None"
  by (simp_all add: MBCRYPT_CHECK_RES_def)

end
