(* ===== verification/Hash_Stream.thy ===== *)
theory Hash_Stream
  imports Mbcrypt
begin

text \<open>
  What the three hash implementations \<open>src/sha1.c\<close>, \<open>src/sha256.c\<close> and \<open>src/sha512.c\<close> share:
  the context fields \<open>total[2]\<close> and \<open>buffer\<close> of their structs, the padding of the standard, and
  the contract of the streaming layer (\<open>*_process\<close>, the block loop and \<open>*_update\<close>).

  The chaining values \<open>h0, h1, \<dots>\<close> of a hash are the field \<open>chain\<close>, a record of its own for each
  hash, so that \<open>ctx->h0\<close> is \<open>h0 (chain ctx)\<close>. The locale \<open>hash_stream\<close>
  states what the C code of each hash does step by step; its lemmas show once, for all three,
  that feeding data in any pieces absorbs the concatenation of the pieces.
\<close>

record 'h hash_ctx =
  total0 :: u32
  total1 :: u32
  buffer :: bytes
  chain :: 'h

subsection \<open>Specification: padding and absorbed messages\<close>

text \<open>
  The padded message: a one bit, the least number of zero bits that makes the whole a multiple
  of the block size, and the length field.
\<close>

definition zero_count :: "nat \<Rightarrow> nat \<Rightarrow> nat \<Rightarrow> nat" where
  "zero_count B L n = (2 * B - L - 1 - n mod B) mod B"

definition hash_pad :: "nat \<Rightarrow> bytes \<Rightarrow> bytes \<Rightarrow> bytes" where
  "hash_pad B lenfield m =
     m @ [0x80] @ replicate (zero_count B (length lenfield) (length m)) 0 @ lenfield"

text \<open>
  A context that has taken in the message \<open>m\<close>: its chaining value is that of the complete blocks
  of \<open>m\<close>, its buffer starts with the incomplete one, and \<open>total\<close> is the length of \<open>m\<close> modulo
  \<open>2\<^sup>6\<^sup>4\<close>.
\<close>

definition stream_state ::
    "nat \<Rightarrow> ('h \<Rightarrow> bytes \<Rightarrow> 'h) \<Rightarrow> 'h \<Rightarrow> 'h hash_ctx \<Rightarrow> bytes \<Rightarrow> bool" where
  "stream_state B compress iv c m \<longleftrightarrow>
     chain c = foldl compress iv (chunks B m)
     \<and> length (buffer c) = B
     \<and> take (length m mod B) (buffer c) = tailpart B m"

definition total_state :: "'h hash_ctx \<Rightarrow> nat \<Rightarrow> bool" where
  "total_state c len \<longleftrightarrow>
     total0 c = of_nat len \<and> total1 c = of_nat (len div 4294967296)"

definition absorbed ::
    "nat \<Rightarrow> ('h \<Rightarrow> bytes \<Rightarrow> 'h) \<Rightarrow> 'h \<Rightarrow> 'h hash_ctx \<Rightarrow> bytes \<Rightarrow> bool" where
  "absorbed B compress iv c m \<longleftrightarrow> stream_state B compress iv c m \<and> total_state c (length m)"

text \<open>The zero count is the least solution of the standard's congruence.\<close>

lemma zero_count_congruence:
  assumes "L < B"
  shows "(n + 1 + zero_count B L n + L) mod B = 0"
proof -
  have "n mod B < B" using assms by simp
  then have "n mod B + 1 + (2 * B - L - 1 - n mod B) + L = 2 * B"
    using assms by linarith
  then have "(n mod B + 1 + (2 * B - L - 1 - n mod B) + L) mod B = 0"
    by (simp only: mod_mult_self2_is_0)
  then show ?thesis
    unfolding zero_count_def by (metis (no_types, lifting) mod_add_left_eq mod_add_right_eq add.commute add.left_commute)
qed

lemma zero_count_less: "0 < B \<Longrightarrow> zero_count B L n < B"
  by (simp add: zero_count_def)

lemma length_hash_pad: "length lf < B \<Longrightarrow> length (hash_pad B lf m) mod B = 0"
  using zero_count_congruence [of "length lf" B "length m"] by (simp add: hash_pad_def ac_simps)

lemma carry_div:
  assumes "b < (M :: nat)"
  shows "(a + b) div M = a div M + (if M \<le> a mod M + b then 1 else 0)"
proof -
  have M: "0 < M" using assms by simp
  have "(a + b) div M = a div M + (a mod M + b) div M"
    using div_add1_eq [of a b M] assms by (simp add: mod_less)
  moreover have "(a mod M + b) div M = (if M \<le> a mod M + b then 1 else 0)"
  proof (cases "M \<le> a mod M + b")
    case True
    then have "a mod M + b - M < M" using assms mod_less_divisor [OF M, of a] by linarith
    then show ?thesis using True M by (simp add: le_div_geq)
  qed simp
  ultimately show ?thesis by simp
qed

text \<open>The carry of \<open>total[0]\<close> into \<open>total[1]\<close>.\<close>

lemma total_carry:
  fixes t n :: u32
  assumes "t = of_nat len"
  shows "t + n < n \<longleftrightarrow> 4294967296 \<le> len mod 4294967296 + unat n"
proof -
  have t: "unat t = len mod 4294967296" using assms by (simp add: unat_of_nat)
  have n: "unat n < 4294967296" by (rule unat_u32_lt)
  have "unat (t + n) = (len mod 4294967296 + unat n) mod 4294967296"
    by (simp only: unat_add_u32 t)
  moreover have "len mod 4294967296 < 4294967296" by simp
  ultimately show ?thesis using n
    by (cases "len mod 4294967296 + unat n < 4294967296")
      (simp_all add: word_less_nat_alt le_mod_geq)
qed

text \<open>
  The 64-bit length field that \<open>*_final\<close> builds of the two halves of \<open>total\<close>, shifted by three
  bits to count bits.
\<close>

lemma length_field_64:
  assumes "total_state c len"
  shows "be_bytes 4 (unat (drop_bit 29 (total0 c) OR push_bit 3 (total1 c)))
       @ be_bytes 4 (unat (push_bit 3 (total0 c))) = be_bytes 8 (8 * len)"
proof -
  have t: "total0 c = of_nat len" "total1 c = of_nat (len div 4294967296)"
    using assms by (simp_all add: total_state_def)
  have "drop_bit 29 (total0 c) OR push_bit 3 (total1 c) = of_nat (drop_bit 29 len)"
    unfolding t
    by (rule bit_word_eqI)
      (auto simp: bit_simps drop_bit_eq_div [of 32 len, simplified, symmetric] add.commute)
  then have high: "unat (drop_bit 29 (total0 c) OR push_bit 3 (total1 c)) =
      (8 * len div 256 ^ 4) mod 256 ^ 4"
    by (simp add: unat_of_nat drop_bit_eq_div)
  have "push_bit 3 (total0 c) = of_nat (8 * len)"
    by (simp add: t push_bit_eq_mult)
  then have low: "unat (push_bit 3 (total0 c)) = (8 * len) mod 256 ^ 4"
    by (simp add: unat_of_nat del: of_nat_mult)
  show ?thesis
    unfolding high low be_bytes_mod using be_bytes_append [of 4 4 "8 * len"] by simp
qed

subsection \<open>The streaming contract\<close>

text \<open>Feeding the pieces of a message to an \<open>*_update\<close> function one after the other.\<close>

fun feed :: "('c ptr \<Rightarrow> bytes ptr \<Rightarrow> u32 \<Rightarrow> (mbcrypt_status_e \<times> 'c ptr) ub) \<Rightarrow>
    'c \<Rightarrow> bytes list \<Rightarrow> (mbcrypt_status_e \<times> 'c ptr) ub" where
  "feed update c [] = Some (MBCRYPT_STATUS_OK, Some c)"
| "feed update c (p # ps) =
     (case update (Some c) (Some p) (of_nat (length p)) of
        Some (MBCRYPT_STATUS_OK, Some c') \<Rightarrow> feed update c' ps
      | r \<Rightarrow> r)"

locale hash_stream =
  fixes B :: nat
    and compress :: "'h \<Rightarrow> bytes \<Rightarrow> 'h"
    and iv :: 'h
    and process :: "'h hash_ctx \<Rightarrow> bytes \<Rightarrow> 'h hash_ctx ub"
    and blocks :: "'h hash_ctx \<Rightarrow> bytes \<Rightarrow> u32 \<Rightarrow> ('h hash_ctx \<times> bytes \<times> u32) ub"
    and update :: "'h hash_ctx ptr \<Rightarrow> bytes ptr \<Rightarrow> u32 \<Rightarrow>
      (mbcrypt_status_e \<times> 'h hash_ctx ptr) ub"
  assumes B_cases: "B = 64 \<or> B = 128"
    and process_eq: "B \<le> length d \<Longrightarrow>
      process c d = Some (chain_update (\<lambda>h. compress h (take B d)) c)"
    and blocks_eq: "blocks c d n =
      (if of_nat B \<le> n then do {
         c \<leftarrow> process c d;
         blocks c (drop B d) (n - of_nat B)
       } else Some (c, d, n))"
    and update_zero: "update (Some c) (Some d) 0 = Some (MBCRYPT_STATUS_OK, Some c)"
    and update_eq: "n \<noteq> 0 \<Longrightarrow> update (Some c) (Some d) n =
      (let left = total0 c AND (of_nat B - 1);
           fill = of_nat B - left;
           c = c\<lparr>total0 := total0 c + n\<rparr>;
           c = (if total0 c < n then c\<lparr>total1 := total1 c + 1\<rparr> else c)
       in do {
         (c, d, n, left) \<leftarrow>
           (if left \<noteq> 0 \<and> fill \<le> n then do {
              b \<leftarrow> memcpy_at (buffer c) (unat left) d (unat fill);
              c \<leftarrow> process (c\<lparr>buffer := b\<rparr>) b;
              Some (c, drop (unat fill) d, n - fill, 0)
            } else Some (c, d, n, left));
         (c, d, n) \<leftarrow> blocks c d n;
         if 0 < n then do {
           b \<leftarrow> memcpy_at (buffer c) (unat left) d (unat n);
           Some (MBCRYPT_STATUS_OK, Some (c\<lparr>buffer := b\<rparr>))
         } else Some (MBCRYPT_STATUS_OK, Some c)
       })"
begin

lemma B_pos: "0 < B" and B_bounds: "1 < B" "B \<le> 128" and unat_B: "unat (of_nat B :: u32) = B"
  using B_cases by auto

lemma mod_B: "len mod 4294967296 mod B = len mod B"
  using B_cases by (auto simp: mod_mod_cancel)

lemma unat_left: "total0 c = of_nat len \<Longrightarrow> unat (total0 c AND (of_nat B - 1)) = len mod B"
  using B_cases mod_B [of len] by (auto simp: unat_and_63 unat_and_127 unat_of_nat)

lemma process_whole:
  "length b = B \<Longrightarrow> process c b = Some (chain_update (\<lambda>h. compress h b) c)"
  by (simp add: process_eq)

text \<open>The block loop compresses every whole block and leaves the rest.\<close>

lemma blocks_run:
  assumes "unat n \<le> length d"
  shows "blocks c d n =
    Some (chain_update (\<lambda>h. foldl compress h (chunks B (take (unat n) d))) c,
          drop (B * (unat n div B)) d, of_nat (unat n mod B))"
  using assms
proof (induction "unat n" arbitrary: c d n rule: less_induct)
  case less
  show ?case
  proof (cases "of_nat B \<le> n")
    case False
    then have "unat n < B" by (simp add: word_le_nat_alt unat_B)
    then show ?thesis using False by (simp add: blocks_eq chunks_short)
  next
    case True
    then have ge: "B \<le> unat n" by (simp add: word_le_nat_alt unat_B)
    have un: "unat (n - of_nat B) = unat n - B"
      using True by (simp add: unat_sub_u32 unat_B)
    have step: "blocks c d n =
        blocks (chain_update (\<lambda>h. compress h (take B d)) c) (drop B d) (n - of_nat B)"
      using True ge less.prems by (subst blocks_eq) (simp add: process_eq)
    have "chunks B (take (unat n) d) = take B d # chunks B (take (unat n - B) (drop B d))"
      using ge less.prems B_pos by (simp add: chunks_step drop_take min_absorb1)
    moreover have "B + B * ((unat n - B) div B) = B * (unat n div B)"
      and "(unat n - B) mod B = unat n mod B"
      using ge B_pos by (simp_all add: le_div_geq le_mod_geq)
    ultimately show ?thesis
      using less.hyps [of "n - of_nat B" "drop B d"] less.prems ge B_pos
      by (simp add: step un o_def add.commute)
  qed
qed

text \<open>
  The block loop and the final copy into the buffer, from any context whose pending bytes leave
  room for the data or that has none.
\<close>

lemma blocks_and_copy:
  assumes st: "stream_state B compress iv c m"
    and left: "left = length m mod B" "left = 0 \<or> left + unat n < B"
    and len: "unat n \<le> length d"
  shows "\<exists>c'. (do {
         (c, d, n) \<leftarrow> blocks c d n;
         if 0 < n then do {
           b \<leftarrow> memcpy_at (buffer c) left d (unat n);
           Some (MBCRYPT_STATUS_OK, Some (c\<lparr>buffer := b\<rparr>))
         } else Some (MBCRYPT_STATUS_OK, Some c)
       }) = Some (MBCRYPT_STATUS_OK, Some c')
     \<and> stream_state B compress iv c' (m @ take (unat n) d)
     \<and> total0 c' = total0 c \<and> total1 c' = total1 c"
proof -
  let ?n = "unat n"
  let ?k = "B * (?n div B)"
  let ?r = "?n mod B"
  let ?c = "chain_update (\<lambda>h. foldl compress h (chunks B (take ?n d))) c"
  have k: "?k + ?r = ?n" and r: "?r < B" using B_pos by simp_all
  have rd: "?r \<le> length d - ?k" using len k by linarith
  have r32: "unat (of_nat ?r :: u32) = ?r"
  proof -
    have "?r < 4294967296" using r B_bounds by linarith
    then show ?thesis by (simp add: unat_of_nat)
  qed
  have room: "left + ?r \<le> B" using left B_pos r by auto
  have pend: "left = 0 \<or> ?k = 0" using left by auto
  have tl: "tailpart B (m @ take ?n d) = take left (buffer c) @ take ?r (drop ?k d)"
  proof (cases "left = 0")
    case True
    then have m: "tailpart B m = []" using left length_tailpart [of B m] by simp
    have "tailpart B (m @ take ?n d) = tailpart B (take ?n d)"
      using tailpart_append [OF B_pos, of m "take ?n d"] m by simp
    also have "\<dots> = drop ?k (take ?n d)" using len by (simp add: tailpart_def min_absorb2)
    finally show ?thesis using True by (simp add: drop_take minus_mult_div_eq_mod)
  next
    case False
    then have k0: "?k = 0" and n: "?r = ?n" and lt: "left + ?n < B" using pend left k by auto
    have "tailpart B (m @ take ?n d) = tailpart B (tailpart B m @ take ?n d)"
      by (rule tailpart_append [OF B_pos])
    also have "\<dots> = tailpart B m @ take ?n d"
      using lt len left by (intro tailpart_short) (simp add: length_tailpart)
    finally show ?thesis using st left k0 n B_pos by (auto simp: stream_state_def)
  qed
  have ch: "foldl compress iv (chunks B (m @ take ?n d)) =
      foldl compress (foldl compress iv (chunks B m)) (chunks B (take ?n d))"
  proof (cases "left = 0")
    case True
    then have "tailpart B m = []" using left length_tailpart [of B m] by simp
    then show ?thesis using chunks_tailpart [OF B_pos, of m "take ?n d"] by simp
  next
    case False
    then have lt: "left + ?n < B" using left by simp
    then have "chunks B (tailpart B m @ take ?n d) = []" and "chunks B (take ?n d) = []"
      using left len by (simp_all add: chunks_short length_tailpart)
    then show ?thesis using chunks_tailpart [OF B_pos, of m "take ?n d"] by simp
  qed
  have lm: "length (m @ take ?n d) mod B = left + ?r"
  proof -
    have "length (m @ take ?n d) mod B = length (tailpart B (m @ take ?n d))"
      by (simp add: length_tailpart)
    also have "\<dots> = left + ?r" using tl room st rd by (simp add: stream_state_def)
    finally show ?thesis .
  qed
  have run: "blocks c d n = Some (?c, drop ?k d, of_nat ?r)" by (rule blocks_run [OF len])
  show ?thesis
  proof (cases "?r = 0")
    case True
    then show ?thesis using run st ch lm tl by (simp add: stream_state_def)
  next
    case False
    then have pos: "0 < (of_nat ?r :: u32)" using r32 by (simp add: word_less_nat_alt)
    let ?b = "take left (buffer c) @ take ?r (drop ?k d) @ drop (left + ?r) (buffer c)"
    have cp: "memcpy_at (buffer ?c) left (drop ?k d) ?r = Some ?b"
      using st room rd by (simp add: stream_state_def memcpy_at_Some)
    have "stream_state B compress iv (?c\<lparr>buffer := ?b\<rparr>) (m @ take ?n d)"
      using st ch lm tl room rd by (simp add: stream_state_def min_absorb2)
    then show ?thesis using run pos cp r32 by simp
  qed
qed

text \<open>Counting the new bytes in \<open>total[0]\<close> and carrying into \<open>total[1]\<close>.\<close>

lemma total_step:
  assumes "total_state c len"
  shows "total_state
    (let c = c\<lparr>total0 := total0 c + n\<rparr> in
     if total0 c < n then c\<lparr>total1 := total1 c + 1\<rparr> else c) (len + unat n)"
proof -
  have t0: "total0 c = of_nat len" and t1: "total1 c = of_nat (len div 4294967296)"
    using assms by (simp_all add: total_state_def)
  have "(len + unat n) div 4294967296 =
      len div 4294967296 + (if 4294967296 \<le> len mod 4294967296 + unat n then 1 else 0)"
    by (rule carry_div [OF unat_u32_lt])
  then show ?thesis
    using total_carry [OF t0, of n] by (simp add: total_state_def t0 t1 Let_def)
qed

lemma stream_state_total [simp]:
  "stream_state B compress iv (c\<lparr>total0 := x\<rparr>) m = stream_state B compress iv c m"
  "stream_state B compress iv (c\<lparr>total1 := y\<rparr>) m = stream_state B compress iv c m"
  by (simp_all add: stream_state_def)

lemma filled_block:
  assumes st: "stream_state B compress iv c m"
    and r: "r = length m mod B" "r \<noteq> 0" and len: "B - r \<le> length d"
    and b: "b = take r (buffer c) @ take (B - r) d"
  shows "stream_state B compress iv
      (chain_update (\<lambda>h. compress h b) (c\<lparr>buffer := b\<rparr>)) (m @ take (B - r) d)"
proof -
  have rB: "r < B" using r B_pos by simp
  have lb: "length b = B" using st len rB by (simp add: b stream_state_def)
  have tb: "tailpart B m @ take (B - r) d = b" using st r by (simp add: b stream_state_def)
  have "chunks B (m @ take (B - r) d) = chunks B m @ chunks B (b @ [])"
    using chunks_tailpart [OF B_pos, of m "take (B - r) d"] tb by simp
  then have ch: "chunks B (m @ take (B - r) d) = chunks B m @ [b]"
    by (simp only: chunks_block [OF B_pos lb] chunks_short [of "[]" B, simplified, OF B_pos])
  have "tailpart B (m @ take (B - r) d) = tailpart B b"
    using tailpart_append [OF B_pos, of m "take (B - r) d"] tb by simp
  then have tl: "tailpart B (m @ take (B - r) d) = []" using lb B_pos by (simp add: tailpart_def)
  then have "length (m @ take (B - r) d) mod B = 0" using length_tailpart by (metis list.size(3))
  then show ?thesis using st ch tl lb by (simp add: stream_state_def)
qed

theorem update_absorbs:
  assumes abs: "absorbed B compress iv c m" and len: "unat n \<le> length d"
  shows "\<exists>c'. update (Some c) (Some d) n = Some (MBCRYPT_STATUS_OK, Some c')
    \<and> absorbed B compress iv c' (m @ take (unat n) d)"
proof (cases "n = 0")
  case True
  then show ?thesis using abs by (simp add: update_zero)
next
  case False
  define c1 where "c1 = (let c = c\<lparr>total0 := total0 c + n\<rparr> in
     if total0 c < n then c\<lparr>total1 := total1 c + 1\<rparr> else c)"
  let ?r = "length m mod B"
  let ?left = "total0 c AND (of_nat B - 1)"
  let ?fill = "of_nat B - ?left"
  have st: "stream_state B compress iv c m" and tot: "total_state c (length m)"
    using abs by (simp_all add: absorbed_def)
  have tot': "total_state c1 (length m + unat n)"
    unfolding c1_def by (rule total_step [OF tot])
  have st': "stream_state B compress iv c1 m" using st by (simp add: c1_def Let_def)
  have buf: "buffer c1 = buffer c" by (simp add: c1_def Let_def)
  have upd: "update (Some c) (Some d) n = do {
      (c, d, n, left) \<leftarrow>
        (if ?left \<noteq> 0 \<and> ?fill \<le> n then do {
           b \<leftarrow> memcpy_at (buffer c1) (unat ?left) d (unat ?fill);
           c \<leftarrow> process (c1\<lparr>buffer := b\<rparr>) b;
           Some (c, drop (unat ?fill) d, n - ?fill, 0)
         } else Some (c1, d, n, ?left));
      (c, d, n) \<leftarrow> blocks c d n;
      if 0 < n then do {
        b \<leftarrow> memcpy_at (buffer c) (unat left) d (unat n);
        Some (MBCRYPT_STATUS_OK, Some (c\<lparr>buffer := b\<rparr>))
      } else Some (MBCRYPT_STATUS_OK, Some c)
    }"
    unfolding c1_def update_eq [OF False, of c d] Let_def ..
  have ul: "unat ?left = ?r" using tot by (intro unat_left) (simp add: total_state_def)
  have r: "?r < B" using B_pos by simp
  have uf: "unat ?fill = B - ?r"
    using r ul unat_B by (subst unat_sub_u32) (simp_all add: word_le_nat_alt)
  have l0: "?left = 0 \<longleftrightarrow> ?r = 0" using ul by (metis unat_eq_0)
  have fl: "?fill \<le> n \<longleftrightarrow> B - ?r \<le> unat n" by (simp add: word_le_nat_alt uf)
  have lm: "length (m @ take (unat n) d) = length m + unat n" using len by simp
  show ?thesis
  proof (cases "?r \<noteq> 0 \<and> B - ?r \<le> unat n")
    case True
    let ?b = "take ?r (buffer c) @ take (B - ?r) d"
    let ?c2 = "chain_update (\<lambda>h. compress h ?b) (c1\<lparr>buffer := ?b\<rparr>)"
    let ?m = "m @ take (B - ?r) d"
    have lb: "length ?b = B" using st r len True by (simp add: stream_state_def length_tailpart)
    have cp: "memcpy_at (buffer c1) (unat ?left) d (unat ?fill) = Some ?b"
      using st r len True unfolding ul uf buf by (simp add: memcpy_at_Some stream_state_def)
    have pr: "process (c1\<lparr>buffer := ?b\<rparr>) ?b = Some ?c2"
      by (rule process_whole [OF lb])
    have st2: "stream_state B compress iv ?c2 ?m"
      using filled_block [OF st', of ?r d ?b] True len buf by simp
    have un: "unat (n - ?fill) = unat n - (B - ?r)"
      using fl True by (simp add: unat_sub_u32 uf)
    have "length ?m = length m + (B - ?r)" using True len by simp
    then have "length ?m mod B = (?r + (B - ?r)) mod B" by (simp only: mod_add_left_eq)
    then have ll: "unat (0 :: u32) = length ?m mod B" using r by simp
    have ln: "unat (n - ?fill) \<le> length (drop (B - ?r) d)" using len un by simp
    have tk: "take (B - ?r) d @ take (unat n - (B - ?r)) (drop (B - ?r) d) = take (unat n) d"
      using True by (metis le_add_diff_inverse take_add)
    have t2: "total0 ?c2 = total0 c1" "total1 ?c2 = total1 c1" by simp_all
    show ?thesis
      using blocks_and_copy [OF st2 ll _ ln] True tot' cp pr lm
      unfolding upd total_state_def absorbed_def t2 by (simp add: l0 fl uf un tk)
  next
    case no: False
    then have f: "(?left \<noteq> 0 \<and> ?fill \<le> n) = False" using l0 fl by blast
    have "unat ?left = 0 \<or> unat ?left + unat n < B" using no r ul by auto
    then show ?thesis
      using blocks_and_copy [OF st' ul _ len] tot' lm
      unfolding upd total_state_def absorbed_def f by simp
  qed
qed

text \<open>
  The two updates of every \<open>*_final\<close>, with the padding constant (\<open>0x80\<close> and zeros, one block
  long) and the length field: afterwards the chaining value is that of the padded message.
\<close>

theorem padding_updates:
  assumes abs: "absorbed B compress iv c m"
    and lf: "length lf + 1 < B" "length lf < 4294967296"
    and lastn: "unat lastn = length m mod B"
    and padn: "padn = (if lastn < of_nat (B - length lf) then of_nat (B - length lf) - lastn
                       else of_nat (2 * B - length lf) - lastn)"
    and padding: "padding = 0x80 # replicate (B - 1) 0"
  shows "\<exists>c1 c2. update (Some c) (Some padding) padn = Some (MBCRYPT_STATUS_OK, Some c1)
    \<and> update (Some c1) (Some lf) (of_nat (length lf)) = Some (MBCRYPT_STATUS_OK, Some c2)
    \<and> chain c2 = foldl compress iv (chunks B (hash_pad B lf m))"
proof -
  let ?L = "length lf"
  define r where "r = length m mod B"
  have r: "r < B" using B_pos by (simp add: r_def)
  have lastn: "unat lastn = r" using lastn by (simp add: r_def)
  have zc: "zero_count B ?L (length m) = (2 * B - ?L - 1 - r) mod B"
    by (simp add: zero_count_def r_def)
  define x :: u32 where "x = of_nat (B - ?L)"
  define y :: u32 where "y = of_nat (2 * B - ?L)"
  have x: "unat x = B - ?L" and y: "unat y = 2 * B - ?L"
    unfolding x_def y_def using B_bounds by (simp_all add: unat_of_nat del: of_nat_diff)
  have padn': "padn = (if lastn < x then x - lastn else y - lastn)"
    by (simp only: padn x_def y_def)
  have pn: "unat padn = Suc (zero_count B ?L (length m))"
  proof (cases "r < B - ?L")
    case True
    then have "lastn < x" by (simp add: word_less_nat_alt x lastn)
    then have "unat padn = B - ?L - r"
      by (simp add: padn' unat_sub_u32 x lastn)
    then show ?thesis using True r lf by (simp add: zc le_mod_geq)
  next
    case False
    then have n: "\<not> lastn < x" by (simp add: word_less_nat_alt x lastn)
    have "lastn \<le> y" using r lf by (simp add: word_le_nat_alt y lastn)
    then have "unat padn = 2 * B - ?L - r"
      using n by (simp add: padn' unat_sub_u32 y lastn)
    then show ?thesis using False r lf by (simp add: zc)
  qed
  have zb: "zero_count B ?L (length m) < B" using B_pos by (rule zero_count_less)
  have "unat padn \<le> length padding" using pn zb by (simp add: padding)
  moreover have tp: "take (unat padn) padding =
      0x80 # replicate (zero_count B ?L (length m)) 0"
    using zb by (simp add: pn padding)
  ultimately obtain c1 where u1: "update (Some c) (Some padding) padn = Some (MBCRYPT_STATUS_OK, Some c1)"
    and a1: "absorbed B compress iv c1 (m @ 0x80 # replicate (zero_count B ?L (length m)) 0)"
    using update_absorbs [OF abs, of padn padding] by auto
  have "unat (of_nat ?L :: u32) = ?L" using lf by (simp add: unat_of_nat)
  then obtain c2 where "update (Some c1) (Some lf) (of_nat ?L) = Some (MBCRYPT_STATUS_OK, Some c2)"
    and "absorbed B compress iv c2 (hash_pad B lf m)"
    using update_absorbs [OF a1, of "of_nat ?L" lf] by (auto simp: hash_pad_def)
  then show ?thesis using u1 by (auto simp: absorbed_def stream_state_def)
qed

text \<open>
  The same in the shape in which every \<open>*_final\<close> computes \<open>last\<close> and \<open>padn\<close>: \<open>x\<close> and \<open>y\<close> are
  the literals of the source, 56 and 120 or 112 and 240.
\<close>

theorem final_updates:
  assumes abs: "absorbed B compress iv c m"
    and lf: "length lf = B div 8"
    and x: "x = of_nat (B - B div 8)" and y: "y = of_nat (2 * B - B div 8)"
    and padding: "padding = 0x80 # replicate (B - 1) 0"
    and mk: "mk = of_nat B - 1"
  defines "lst \<equiv> total0 c AND mk"
  shows "\<exists>c1 c2. update (Some c) (Some padding) (if lst < x then x - lst else y - lst) =
      Some (MBCRYPT_STATUS_OK, Some c1)
    \<and> update (Some c1) (Some lf) (of_nat (B div 8)) = Some (MBCRYPT_STATUS_OK, Some c2)
    \<and> chain c2 = foldl compress iv (chunks B (hash_pad B lf m))"
proof -
  have lst: "unat lst = length m mod B"
    using abs unfolding lst_def mk by (intro unat_left) (simp add: absorbed_def total_state_def)
  have l: "length lf + 1 < B" "length lf < 4294967296" using lf B_bounds by simp_all
  show ?thesis
    using padding_updates [OF abs l lst refl padding] unfolding x y lf .
qed

end

end
