(* ===== verification/Hash_Api.thy ===== *)
theory Hash_Api
  imports Hash_Stream
begin

text \<open>
  What a hash promises to its callers: the contract of the three functions that
  \<open>mbcrypt_hash_callbacks_t\<close> (\<open>includes/mbcrypt.h\<close>) carries and that HMAC calls through pointers.
  \<open>holds c m\<close> says that the context \<open>c\<close> has taken in the message \<open>m\<close>, \<open>H\<close> is the hash function
  as a function on byte strings, \<open>hsize\<close> its digest length, and \<open>ok\<close> the message lengths for
  which the implementation promises \<open>H\<close>. SHA-1 and SHA-256 interpret it, each in its own theory;
  SHA-512, whose \<open>final\<close> is undefined, keeps the part \<open>hash_intake\<close> of it.
\<close>

type_synonym 'c init_fn = "'c ptr \<Rightarrow> (mbcrypt_status_e \<times> 'c ptr) ub"
type_synonym 'c update_fn = "'c ptr \<Rightarrow> bytes ptr \<Rightarrow> u32 \<Rightarrow> (mbcrypt_status_e \<times> 'c ptr) ub"
type_synonym 'c final_fn = "'c ptr \<Rightarrow> bytes ptr \<Rightarrow> (mbcrypt_status_e \<times> 'c ptr \<times> bytes ptr) ub"

text \<open>The one-call shape \<open>init; update; final\<close> that every \<open>mbcrypt_sha*\<close> has.\<close>

definition hash_once ::
    "'c init_fn \<Rightarrow> 'c update_fn \<Rightarrow> 'c final_fn \<Rightarrow> 'c \<Rightarrow> bytes ptr \<Rightarrow> u32 \<Rightarrow> bytes ptr \<Rightarrow>
     (mbcrypt_status_e \<times> bytes ptr) ub" where
  "hash_once init update final ctx0 data data_len out = do {
     (st, ctx) \<leftarrow> init (Some ctx0);
     if st \<noteq> MBCRYPT_STATUS_OK then Some (st, out) else do {
       (st, ctx) \<leftarrow> update ctx data data_len;
       if st \<noteq> MBCRYPT_STATUS_OK then Some (st, out) else do {
         (st, ctx, out) \<leftarrow> final ctx out;
         Some (st, out)
       }
     }
   }"

locale hash_intake =
  fixes init :: "'c init_fn"
    and update :: "'c update_fn"
    and holds :: "'c \<Rightarrow> bytes \<Rightarrow> bool"
  assumes init_holds: "\<exists>c'. init (Some c) = Some (MBCRYPT_STATUS_OK, Some c') \<and> holds c' []"
    and update_holds: "holds c m \<Longrightarrow> unat n \<le> length d \<Longrightarrow>
      \<exists>c'. update (Some c) (Some d) n = Some (MBCRYPT_STATUS_OK, Some c')
        \<and> holds c' (m @ take (unat n) d)"
begin

text \<open>However a message is cut into pieces, the context takes in the whole message.\<close>

lemma feed_holds:
  assumes "holds c m" and "\<forall>p \<in> set ps. length p < 4294967296"
  shows "\<exists>c'. feed update c ps = Some (MBCRYPT_STATUS_OK, Some c') \<and> holds c' (m @ concat ps)"
  using assms
proof (induction ps arbitrary: c m)
  case Nil
  then show ?case by simp
next
  case (Cons p ps)
  then have lp: "unat (of_nat (length p) :: u32) = length p" by (simp add: unat_of_nat)
  obtain c' where "update (Some c) (Some p) (of_nat (length p)) = Some (MBCRYPT_STATUS_OK, Some c')"
    and "holds c' (m @ p)"
    using update_holds [OF Cons.prems(1), of "of_nat (length p)" p] lp by auto
  then show ?case using Cons.IH [of c' "m @ p"] Cons.prems(2) by simp
qed

lemma pieces_taken_in:
  assumes "\<forall>p \<in> set ps. length p < 4294967296"
  shows "\<exists>c1 c2. init (Some c) = Some (MBCRYPT_STATUS_OK, Some c1)
    \<and> feed update c1 ps = Some (MBCRYPT_STATUS_OK, Some c2) \<and> holds c2 (concat ps)"
proof -
  obtain c1 where 1: "init (Some c) = Some (MBCRYPT_STATUS_OK, Some c1)" "holds c1 []"
    using init_holds by blast
  then show ?thesis using feed_holds [OF 1(2) assms] by auto
qed

end

locale hash_api = hash_intake init update holds
  for init :: "'c init_fn"
    and update :: "'c update_fn"
    and final :: "'c final_fn"
    and holds :: "'c \<Rightarrow> bytes \<Rightarrow> bool"
    and H :: "bytes \<Rightarrow> bytes"
    and hsize :: nat
    and ok :: "nat \<Rightarrow> bool" +
  assumes final_digest: "holds c m \<Longrightarrow> ok (length m) \<Longrightarrow> hsize \<le> length out \<Longrightarrow>
      \<exists>c'. final (Some c) (Some out) =
        Some (MBCRYPT_STATUS_OK, Some c', Some (H m @ drop hsize out))"
    and length_H: "length (H m) = hsize"
begin

text \<open>The one-call interface returns the digest of the first \<open>data_len\<close> bytes.\<close>

theorem once_digest:
  assumes "unat n \<le> length d" and "ok (unat n)" and "hsize \<le> length out"
  shows "hash_once init update final ctx0 (Some d) n (Some out) =
    Some (MBCRYPT_STATUS_OK, Some (H (take (unat n) d) @ drop hsize out))"
proof -
  obtain c1 where 1: "init (Some ctx0) = Some (MBCRYPT_STATUS_OK, Some c1)" "holds c1 []"
    using init_holds by blast
  obtain c2 where 2: "update (Some c1) (Some d) n = Some (MBCRYPT_STATUS_OK, Some c2)"
      "holds c2 (take (unat n) d)"
    using update_holds [OF 1(2) assms(1)] by auto
  then show ?thesis
    using final_digest [OF 2(2) _ assms(3)] 1 assms
    by (auto simp: hash_once_def min_absorb2)
qed

text \<open>However a message is cut into pieces, the digest is that of the whole message.\<close>

theorem pieces_digest:
  assumes "\<forall>p \<in> set ps. length p < 4294967296" and "ok (length (concat ps))"
    and "hsize \<le> length out"
  shows "\<exists>c1 c2 c3. init (Some c) = Some (MBCRYPT_STATUS_OK, Some c1)
    \<and> feed update c1 ps = Some (MBCRYPT_STATUS_OK, Some c2)
    \<and> final (Some c2) (Some out) =
        Some (MBCRYPT_STATUS_OK, Some c3, Some (H (concat ps) @ drop hsize out))"
  using pieces_taken_in [OF assms(1), of c] final_digest [OF _ assms(2,3)] by blast

end

end
