(* ===== verification/Sha1.thy ===== *)
theory Sha1
  imports Hash_Api
begin

text \<open>
  SHA-1, \<open>src/sha1.c\<close> and \<open>includes/sha1.h\<close>: the standard's algorithm (FIPS 180-4, functions
  \<open>fips1_*\<close>), the macros, both variants of \<open>_sha1_process\<close>, the hash interface and the self
  test. The code keeps only the last 16 words of the message schedule, in an array indexed
  modulo 16. The wiping of locals under \<open>SECURED_SHA1\<close> has no counterpart.
\<close>

subsection \<open>The standard\<close>

type_synonym regs160 = "u32 \<times> u32 \<times> u32 \<times> u32 \<times> u32"

record sha1_chain =
  h0 :: u32
  h1 :: u32
  h2 :: u32
  h3 :: u32
  h4 :: u32

definition fips1_f :: "nat \<Rightarrow> u32 \<Rightarrow> u32 \<Rightarrow> u32 \<Rightarrow> u32" where
  "fips1_f t x y z =
     (if t < 20 then (x AND y) XOR (NOT x AND z)
      else if t < 40 then x XOR y XOR z
      else if t < 60 then (x AND y) XOR (x AND z) XOR (y AND z)
      else x XOR y XOR z)"

definition fips1_K :: "nat \<Rightarrow> u32" where
  "fips1_K t = (if t < 20 then 0x5A827999 else if t < 40 then 0x6ED9EBA1
                else if t < 60 then 0x8F1BBCDC else 0xCA62C1D6)"

fun fips1_W :: "bytes \<Rightarrow> nat \<Rightarrow> u32" where
  "fips1_W blk t =
     (if t < 16 then be_word (take 4 (drop (4 * t) blk))
      else word_rotl 1 (fips1_W blk (t - 3) XOR fips1_W blk (t - 8)
                        XOR fips1_W blk (t - 14) XOR fips1_W blk (t - 16)))"

declare fips1_W.simps [simp del]

definition fips1_round :: "(nat \<Rightarrow> u32) \<Rightarrow> nat \<Rightarrow> regs160 \<Rightarrow> regs160" where
  "fips1_round w t = (\<lambda>(a, b, c, d, e).
     (word_rotl 5 a + fips1_f t b c d + e + fips1_K t + w t, a, word_rotl 30 b, c, d))"

abbreviation fips1_rounds :: "(nat \<Rightarrow> u32) \<Rightarrow> nat \<Rightarrow> nat \<Rightarrow> regs160 \<Rightarrow> regs160" where
  "fips1_rounds w i j \<equiv> fold (fips1_round w) [i..<j]"

definition chain_regs :: "sha1_chain \<Rightarrow> regs160" where
  "chain_regs c = (h0 c, h1 c, h2 c, h3 c, h4 c)"

definition add_regs :: "sha1_chain \<Rightarrow> regs160 \<Rightarrow> sha1_chain" where
  "add_regs c = (\<lambda>(A, B, C, D, E).
     c\<lparr>h0 := h0 c + A, h1 := h1 c + B, h2 := h2 c + C, h3 := h3 c + D, h4 := h4 c + E\<rparr>)"

definition fips1_compress :: "sha1_chain \<Rightarrow> bytes \<Rightarrow> sha1_chain" where
  "fips1_compress c blk = add_regs c (fips1_rounds (fips1_W blk) 0 80 (chain_regs c))"

definition fips1_iv :: sha1_chain where
  "fips1_iv = \<lparr>h0 = 0x67452301, h1 = 0xEFCDAB89, h2 = 0x98BADCFE, h3 = 0x10325476, h4 = 0xC3D2E1F0\<rparr>"

definition fips1_digest :: "sha1_chain \<Rightarrow> bytes" where
  "fips1_digest c = concat (map (\<lambda>h. be_bytes 4 (unat h)) [h0 c, h1 c, h2 c, h3 c, h4 c])"

definition fips_sha1 :: "bytes \<Rightarrow> bytes" where
  "fips_sha1 m = fips1_digest
     (foldl fips1_compress fips1_iv (chunks 64 (hash_pad 64 (be_bytes 8 (8 * length m)) m)))"

lemma length_fips_sha1 [simp]: "length (fips_sha1 m) = 20"
  by (simp add: fips_sha1_def fips1_digest_def)

subsection \<open>The code: macros and \<open>_sha1_process\<close>\<close>

definition sha1_SHIFT_LEFT :: "u32 \<Rightarrow> nat \<Rightarrow> u32" where
  "sha1_SHIFT_LEFT x n = push_bit n x OR drop_bit (32 - n) (x AND 0xFFFFFFFF)"

text \<open>The new values of \<open>e\<close> and \<open>b\<close>, the two variables that \<open>PAD\<close> assigns; \<open>F\<close> and \<open>K\<close> are
  the macros in force at its use.\<close>

definition sha1_PAD :: "(u32 \<Rightarrow> u32 \<Rightarrow> u32 \<Rightarrow> u32) \<Rightarrow> u32 \<Rightarrow>
    u32 \<Rightarrow> u32 \<Rightarrow> u32 \<Rightarrow> u32 \<Rightarrow> u32 \<Rightarrow> u32 \<Rightarrow> u32 \<times> u32" where
  "sha1_PAD F K a b c d e f =
     (e + (sha1_SHIFT_LEFT a 5 + F b c d + K + f), sha1_SHIFT_LEFT b 30)"

text \<open>The array \<open>W\<close> after \<open>ROT (t)\<close>; the value of the expression is then \<open>W[t & 0x0F]\<close>.\<close>

definition sha1_ROT :: "u32 list \<Rightarrow> nat \<Rightarrow> u32 list" where
  "sha1_ROT W t =
     (let temp = W ! ((t - 3) AND 0x0F) XOR W ! ((t - 8) AND 0x0F) XOR
                 W ! ((t - 14) AND 0x0F) XOR W ! (t AND 0x0F)
      in W[t AND 0x0F := sha1_SHIFT_LEFT temp 1])"

definition sha1_F_choose :: "u32 \<Rightarrow> u32 \<Rightarrow> u32 \<Rightarrow> u32" where
  "sha1_F_choose x y z = z XOR (x AND (y XOR z))"

definition sha1_F_parity :: "u32 \<Rightarrow> u32 \<Rightarrow> u32 \<Rightarrow> u32" where
  "sha1_F_parity x y z = x XOR y XOR z"

definition sha1_F_majority :: "u32 \<Rightarrow> u32 \<Rightarrow> u32 \<Rightarrow> u32" where
  "sha1_F_majority x y z = (x AND y) OR (z AND (x OR y))"

text \<open>Five \<open>PAD\<close>s over words that are loaded already.\<close>

definition sha1_pads ::
    "(u32 \<Rightarrow> u32 \<Rightarrow> u32 \<Rightarrow> u32) \<Rightarrow> u32 \<Rightarrow> u32 list \<Rightarrow> nat \<Rightarrow> regs160 \<Rightarrow> regs160" where
  "sha1_pads F K W i = (\<lambda>(A, B, C, D, E).
     let (E, B) = sha1_PAD F K A B C D E (W ! (i + 0));
         (D, A) = sha1_PAD F K E A B C D (W ! (i + 1));
         (C, E) = sha1_PAD F K D E A B C (W ! (i + 2));
         (B, D) = sha1_PAD F K C D E A B (W ! (i + 3));
         (A, C) = sha1_PAD F K B C D E A (W ! (i + 4))
     in (A, B, C, D, E))"

text \<open>Five \<open>PAD\<close>s that first extend the schedule by \<open>ROT\<close>.\<close>

definition sha1_pads_ROT ::
    "(u32 \<Rightarrow> u32 \<Rightarrow> u32 \<Rightarrow> u32) \<Rightarrow> u32 \<Rightarrow> nat \<Rightarrow> regs160 \<times> u32 list \<Rightarrow> regs160 \<times> u32 list" where
  "sha1_pads_ROT F K i = (\<lambda>((A, B, C, D, E), W).
     let W = sha1_ROT W (i + 0);
         (E, B) = sha1_PAD F K A B C D E (W ! ((i + 0) AND 0x0F));
         W = sha1_ROT W (i + 1);
         (D, A) = sha1_PAD F K E A B C D (W ! ((i + 1) AND 0x0F));
         W = sha1_ROT W (i + 2);
         (C, E) = sha1_PAD F K D E A B C (W ! ((i + 2) AND 0x0F));
         W = sha1_ROT W (i + 3);
         (B, D) = sha1_PAD F K C D E A B (W ! ((i + 3) AND 0x0F));
         W = sha1_ROT W (i + 4);
         (A, C) = sha1_PAD F K B C D E A (W ! ((i + 4) AND 0x0F))
     in ((A, B, C, D, E), W))"

text \<open>The group of rounds 15 to 19, whose first word is loaded and the others are extended.\<close>

definition sha1_pads_15 ::
    "(u32 \<Rightarrow> u32 \<Rightarrow> u32 \<Rightarrow> u32) \<Rightarrow> u32 \<Rightarrow> regs160 \<times> u32 list \<Rightarrow> regs160 \<times> u32 list" where
  "sha1_pads_15 F K = (\<lambda>((A, B, C, D, E), W).
     let (E, B) = sha1_PAD F K A B C D E (W ! 15);
         W = sha1_ROT W 16;
         (D, A) = sha1_PAD F K E A B C D (W ! (16 AND 0x0F));
         W = sha1_ROT W 17;
         (C, E) = sha1_PAD F K D E A B C (W ! (17 AND 0x0F));
         W = sha1_ROT W 18;
         (B, D) = sha1_PAD F K C D E A B (W ! (18 AND 0x0F));
         W = sha1_ROT W 19;
         (A, C) = sha1_PAD F K B C D E A (W ! (19 AND 0x0F))
     in ((A, B, C, D, E), W))"

type_synonym sha1_ctx = "sha1_chain hash_ctx"

text \<open>\<open>_sha1_process\<close> with the rounds written out, reading the 64 bytes at \<open>data\<close>.\<close>

definition sha1_process :: "sha1_ctx \<Rightarrow> bytes \<Rightarrow> sha1_ctx ub" where
  "sha1_process ctx data =
     (if length data < 64 then None
      else
        let c = chain ctx;
            s = (h0 c, h1 c, h2 c, h3 c, h4 c);
            W = [GET_UINT32_BE data 0, GET_UINT32_BE data 4, GET_UINT32_BE data 8,
                 GET_UINT32_BE data 12, GET_UINT32_BE data 16, GET_UINT32_BE data 20,
                 GET_UINT32_BE data 24, GET_UINT32_BE data 28, GET_UINT32_BE data 32,
                 GET_UINT32_BE data 36, GET_UINT32_BE data 40, GET_UINT32_BE data 44,
                 GET_UINT32_BE data 48, GET_UINT32_BE data 52, GET_UINT32_BE data 56,
                 GET_UINT32_BE data 60];
            F = sha1_F_choose; K = 0x5A827999;
            s = sha1_pads F K W 0 s;
            s = sha1_pads F K W 5 s;
            s = sha1_pads F K W 10 s;
            r = sha1_pads_15 F K (s, W);
            F = sha1_F_parity; K = 0x6ED9EBA1;
            r = sha1_pads_ROT F K 20 r;
            r = sha1_pads_ROT F K 25 r;
            r = sha1_pads_ROT F K 30 r;
            r = sha1_pads_ROT F K 35 r;
            F = sha1_F_majority; K = 0x8F1BBCDC;
            r = sha1_pads_ROT F K 40 r;
            r = sha1_pads_ROT F K 45 r;
            r = sha1_pads_ROT F K 50 r;
            r = sha1_pads_ROT F K 55 r;
            F = sha1_F_parity; K = 0xCA62C1D6;
            r = sha1_pads_ROT F K 60 r;
            r = sha1_pads_ROT F K 65 r;
            r = sha1_pads_ROT F K 70 r;
            r = sha1_pads_ROT F K 75 r;
            ((A, B, C, D, E), W) = r
        in Some (ctx\<lparr>chain := c\<lparr>h0 := h0 c + A, h1 := h1 c + B, h2 := h2 c + C,
             h3 := h3 c + D, h4 := h4 c + E\<rparr>\<rparr>))"

text \<open>\<open>_sha1_process\<close> under \<open>MBCRYPT_SHA1_MIN_SIZE\<close>: the same groups in loops.\<close>

definition sha1_process_min :: "sha1_ctx \<Rightarrow> bytes \<Rightarrow> sha1_ctx ub" where
  "sha1_process_min ctx data =
     (if length data < 64 then None
      else
        let c = chain ctx;
            s = (h0 c, h1 c, h2 c, h3 c, h4 c);
            W = fold (\<lambda>i W. W[i := GET_UINT32_BE data (4 * i)]) [0..<16] (replicate 16 0);
            F = sha1_F_choose; K = 0x5A827999;
            s = fold (\<lambda>i. sha1_pads F K W i) [0, 5, 10] s;
            r = sha1_pads_15 F K (s, W);
            F = sha1_F_parity; K = 0x6ED9EBA1;
            r = fold (\<lambda>i. sha1_pads_ROT F K i) [20, 25, 30, 35] r;
            F = sha1_F_majority; K = 0x8F1BBCDC;
            r = fold (\<lambda>i. sha1_pads_ROT F K i) [40, 45, 50, 55] r;
            F = sha1_F_parity; K = 0xCA62C1D6;
            r = fold (\<lambda>i. sha1_pads_ROT F K i) [60, 65, 70, 75] r;
            ((A, B, C, D, E), W) = r
        in Some (ctx\<lparr>chain := c\<lparr>h0 := h0 c + A, h1 := h1 c + B, h2 := h2 c + C,
             h3 := h3 c + D, h4 := h4 c + E\<rparr>\<rparr>))"

subsection \<open>The compression function of the code is the standard's\<close>

lemma sha1_SHIFT_LEFT_eq: "0 < n \<Longrightarrow> n < 32 \<Longrightarrow> sha1_SHIFT_LEFT x n = word_rotl n x"
  using shifts_rotl [of n x] by (simp add: sha1_SHIFT_LEFT_def and_all_ones_u32)

lemma and_15: "n AND 15 = n mod (16 :: nat)"
  using take_bit_eq_mask [of 4 n] by (simp add: take_bit_eq_mod mask_eq_exp_minus_1)

text \<open>The functions and constants in force in the rounds from \<open>i\<close> on, before \<open>j\<close>.\<close>

definition sha1_phase :: "(u32 \<Rightarrow> u32 \<Rightarrow> u32 \<Rightarrow> u32) \<Rightarrow> u32 \<Rightarrow> nat \<Rightarrow> nat \<Rightarrow> bool" where
  "sha1_phase F K i j \<longleftrightarrow> (\<forall>t \<in> {i..<j}. fips1_f t = F \<and> fips1_K t = K)"

lemma sha1_phases:
  "j \<le> 20 \<Longrightarrow> sha1_phase sha1_F_choose 0x5A827999 i j"
  "20 \<le> i \<Longrightarrow> j \<le> 40 \<Longrightarrow> sha1_phase sha1_F_parity 0x6ED9EBA1 i j"
  "40 \<le> i \<Longrightarrow> j \<le> 60 \<Longrightarrow> sha1_phase sha1_F_majority 0x8F1BBCDC i j"
  "60 \<le> i \<Longrightarrow> sha1_phase sha1_F_parity 0xCA62C1D6 i j"
  by (auto simp: sha1_phase_def fips1_f_def fips1_K_def fun_eq_iff sha1_F_choose_def
      sha1_F_parity_def sha1_F_majority_def choice_eq majority_eq)

lemma sha1_PAD_round:
  "sha1_PAD F K a b c d e (w t) = (e', b') \<Longrightarrow> fips1_f t = F \<Longrightarrow> fips1_K t = K \<Longrightarrow>
     fips1_round w t (a, b, c, d, e) = (e', a, b', c, d)"
  by (auto simp: sha1_PAD_def fips1_round_def sha1_SHIFT_LEFT_eq)

text \<open>The three kinds of groups differ only in where their five words come from.\<close>

definition five_pads ::
    "(u32 \<Rightarrow> u32 \<Rightarrow> u32 \<Rightarrow> u32) \<Rightarrow> u32 \<Rightarrow> (nat \<Rightarrow> u32) \<Rightarrow> nat \<Rightarrow> regs160 \<Rightarrow> regs160" where
  "five_pads F K w i = (\<lambda>(A, B, C, D, E).
     let (E, B) = sha1_PAD F K A B C D E (w (i + 0));
         (D, A) = sha1_PAD F K E A B C D (w (i + 1));
         (C, E) = sha1_PAD F K D E A B C (w (i + 2));
         (B, D) = sha1_PAD F K C D E A B (w (i + 3));
         (A, C) = sha1_PAD F K B C D E A (w (i + 4))
     in (A, B, C, D, E))"

lemma five_pads_rounds:
  assumes ph: "sha1_phase F K i (i + 5)"
  shows "five_pads F K w i s = fips1_rounds w i (i + 5) s"
proof -
  obtain A B C D E where s: "s = (A, B, C, D, E)" by (metis prod.exhaust)
  obtain E1 B1 where 1: "sha1_PAD F K A B C D E (w (i + 0)) = (E1, B1)" by fastforce
  obtain D1 A1 where 2: "sha1_PAD F K E1 A B1 C D (w (i + 1)) = (D1, A1)" by fastforce
  obtain C1 E2 where 3: "sha1_PAD F K D1 E1 A1 B1 C (w (i + 2)) = (C1, E2)" by fastforce
  obtain B2 D2 where 4: "sha1_PAD F K C1 D1 E2 A1 B1 (w (i + 3)) = (B2, D2)" by fastforce
  obtain A2 C2 where 5: "sha1_PAD F K B2 C1 D2 E2 A1 (w (i + 4)) = (A2, C2)" by fastforce
  note steps = 1 2 3 4 5
  have ph': "\<forall>t < 5. fips1_f (i + t) = F" "\<forall>t < 5. fips1_K (i + t) = K"
    using ph by (simp_all add: sha1_phase_def)
  have "fips1_rounds w i (i + 5) s = (A2, B2, C2, D2, E2)"
    by (simp only: fold_upt_5 s o_def steps [THEN sha1_PAD_round [where w = w]]
        ph' [unfolded all_less_5])
  moreover have "five_pads F K w i s = (A2, B2, C2, D2, E2)"
    by (simp only: s five_pads_def Let_def prod.case steps)
  ultimately show ?thesis by simp
qed

text \<open>The array holds the last 16 words of the schedule before \<open>n\<close>; \<open>ROT\<close> extends it.\<close>

definition last_words :: "bytes \<Rightarrow> nat \<Rightarrow> u32 list \<Rightarrow> bool" where
  "last_words blk n W \<longleftrightarrow>
     length W = 16 \<and> (\<forall>t < n. n \<le> t + 16 \<longrightarrow> W ! (t AND 15) = fips1_W blk t)"

lemma last_words_ROT:
  assumes "last_words blk n W" and n: "16 \<le> n"
  shows "last_words blk (Suc n) (sha1_ROT W n)" and "sha1_ROT W n ! (n AND 15) = fips1_W blk n"
proof -
  have old: "W ! ((n - k) AND 15) = fips1_W blk (n - k)" if "0 < k" "k \<le> 16" for k
    using assms that by (simp add: last_words_def)
  have "(n - 16) AND 15 = n AND 15" using n by (metis and_15 le_add_diff_inverse2 mod_add_self2)
  then have "sha1_ROT W n = W[n AND 15 := fips1_W blk n]"
    using old [of 3] old [of 8] old [of 14] old [of 16] n
    by (subst fips1_W.simps) (simp add: sha1_ROT_def sha1_SHIFT_LEFT_eq xor.assoc)
  moreover have "n mod 16 \<noteq> t mod 16" if "t < n" "Suc n \<le> t + 16" for t
  proof
    assume "n mod 16 = t mod 16"
    then have "(n - t) mod 16 = 0" using that by (simp add: mod_eq_dvd_iff_nat)
    then show False using that by simp
  qed
  ultimately show "last_words blk (Suc n) (sha1_ROT W n)" "sha1_ROT W n ! (n AND 15) = fips1_W blk n"
    using assms(1) by (auto simp: last_words_def and_15 less_Suc_eq)
qed

lemma last_words_extend:
  assumes "last_words blk n W" and "16 \<le> n"
  shows "last_words blk (n + k) (fold (\<lambda>t W. sha1_ROT W t) [n..<n + k] W)"
proof (induction k)
  case (Suc k)
  then show ?case
    using last_words_ROT(1) [of blk "n + k" "fold (\<lambda>t W. sha1_ROT W t) [n..<n + k] W"] assms(2)
    by simp
qed (simp add: assms(1))

lemma sha1_pads_five: "sha1_pads F K W i s = five_pads F K (\<lambda>t. W ! t) i s"
  by (simp add: sha1_pads_def five_pads_def)

lemma sha1_pads_ROT_five:
  assumes W: "last_words blk i W" and i: "16 \<le> i"
  defines "V \<equiv> \<lambda>j. fold (\<lambda>t W. sha1_ROT W t) [i..<i + j] W"
  shows "sha1_pads_ROT F K i (s, W) = (five_pads F K (fips1_W blk) i s, V 5)"
proof -
  obtain A B C D E where s: "s = (A, B, C, D, E)" by (metis prod.exhaust)
  have V: "sha1_ROT W (i + 0) = V 1" "sha1_ROT (V 1) (i + 1) = V 2" "sha1_ROT (V 2) (i + 2) = V 3"
    "sha1_ROT (V 3) (i + 3) = V 4" "sha1_ROT (V 4) (i + 4) = V 5"
    by (simp_all add: V_def eval_nat_numeral)
  have V0: "V 0 = W" by (simp add: V_def)
  have nth: "sha1_ROT (V j) (i + j) ! ((i + j) AND 15) = fips1_W blk (i + j)" for j
    using last_words_ROT(2) [OF last_words_extend [OF W i]] i unfolding V_def by simp
  note five = nth [of 0, unfolded V0] nth [of 1] nth [of 2] nth [of 3] nth [of 4]
  show ?thesis
    unfolding s
    by (simp only: sha1_pads_ROT_def five_pads_def Let_def prod.case V five [unfolded V])
      (simp split: prod.splits)
qed

lemma sha1_pads_15_five:
  assumes W: "last_words blk 16 W"
  defines "V \<equiv> \<lambda>j. fold (\<lambda>t W. sha1_ROT W t) [16..<16 + j] W"
  shows "sha1_pads_15 F K (s, W) = (five_pads F K (fips1_W blk) 15 s, V 4)"
proof -
  obtain A B C D E where s: "s = (A, B, C, D, E)" by (metis prod.exhaust)
  have V: "sha1_ROT W 16 = V 1" "sha1_ROT (V 1) 17 = V 2" "sha1_ROT (V 2) 18 = V 3"
    "sha1_ROT (V 3) 19 = V 4"
    by (simp_all add: V_def eval_nat_numeral)
  have V0: "V 0 = W" by (simp add: V_def)
  have nth: "sha1_ROT (V j) (16 + j) ! ((16 + j) AND 15) = fips1_W blk (16 + j)" for j
    using last_words_ROT(2) [OF last_words_extend [OF W]] unfolding V_def by simp
  note five = nth [of 0, unfolded V0] nth [of 1] nth [of 2] nth [of 3]
  have "\<forall>t < 16. W ! (t AND 15) = fips1_W blk t" using W by (simp add: last_words_def)
  then have w15: "W ! 15 = fips1_W blk 15" by (auto dest: spec [of _ 15])
  have idx: "15 + 0 = (15 :: nat)" "15 + 1 = (16 :: nat)" "15 + 2 = (17 :: nat)" "15 + 3 = (18 :: nat)"
    "15 + 4 = (19 :: nat)" "16 + 0 = (16 :: nat)" "16 + 1 = (17 :: nat)" "16 + 2 = (18 :: nat)"
    "16 + 3 = (19 :: nat)"
    by simp_all
  show ?thesis
    unfolding s
    by (simp only: sha1_pads_15_def five_pads_def Let_def prod.case V w15 idx
        five [unfolded idx, unfolded V]) (simp split: prod.splits)
qed

text \<open>Each kind of group is five rounds of the standard.\<close>

lemma sha1_pads_rounds:
  assumes "\<forall>t < 16. W ! t = fips1_W blk t" and "i + 5 \<le> 16" and "sha1_phase F K i (i + 5)"
  shows "sha1_pads F K W i s = fips1_rounds (fips1_W blk) i (i + 5) s"
proof -
  have "fold (fips1_round (\<lambda>t. W ! t)) [i..<i + 5] s = fips1_rounds (fips1_W blk) i (i + 5) s"
    using assms(1,2) by (intro fold_cong) (simp_all add: fips1_round_def)
  then show ?thesis using five_pads_rounds [OF assms(3)] by (simp add: sha1_pads_five)
qed

lemma sha1_pads_ROT_rounds:
  assumes "last_words blk i W" and "16 \<le> i" and "sha1_phase F K i (i + 5)"
  shows "\<exists>W'. sha1_pads_ROT F K i (fips1_rounds (fips1_W blk) 0 i s, W) =
      (fips1_rounds (fips1_W blk) 0 (i + 5) s, W') \<and> last_words blk (i + 5) W'"
  using sha1_pads_ROT_five [OF assms(1,2)] five_pads_rounds [OF assms(3)]
    last_words_extend [OF assms(1,2), of 5]
    fold_upt_split [of 0 i "i + 5" "fips1_round (fips1_W blk)" s]
  by simp

text \<open>Four groups in a row, a phase of twenty rounds.\<close>

lemma sha1_phase_rounds:
  assumes W: "last_words blk i W" and i: "16 \<le> i" and ph: "sha1_phase F K i (i + 20)"
  shows "\<exists>W'. sha1_pads_ROT F K (i + 15) (sha1_pads_ROT F K (i + 10) (sha1_pads_ROT F K (i + 5)
        (sha1_pads_ROT F K i (fips1_rounds (fips1_W blk) 0 i s, W)))) =
      (fips1_rounds (fips1_W blk) 0 (i + 20) s, W') \<and> last_words blk (i + 20) W'"
proof -
  have ph': "sha1_phase F K j (j + 5)" if "i \<le> j" "j + 5 \<le> i + 20" for j
    using ph that by (auto simp: sha1_phase_def)
  have step: "\<exists>W'. sha1_pads_ROT F K j (fips1_rounds (fips1_W blk) 0 j s, V) =
      (fips1_rounds (fips1_W blk) 0 (j + 5) s, W') \<and> last_words blk (j + 5) W'"
    if "last_words blk j V" "i \<le> j" "j + 5 \<le> i + 20" for j V
    using sha1_pads_ROT_rounds [OF that(1) _ ph' [OF that(2,3)]] i that(2) by simp
  have add: "i + 5 + 5 = i + 10" "i + 10 + 5 = i + 15" "i + 15 + 5 = i + 20" by simp_all
  obtain W1 where 1: "sha1_pads_ROT F K i (fips1_rounds (fips1_W blk) 0 i s, W) =
      (fips1_rounds (fips1_W blk) 0 (i + 5) s, W1)" "last_words blk (i + 5) W1"
    using step [OF W] by auto
  obtain W2 where 2: "sha1_pads_ROT F K (i + 5) (fips1_rounds (fips1_W blk) 0 (i + 5) s, W1) =
      (fips1_rounds (fips1_W blk) 0 (i + 10) s, W2)" "last_words blk (i + 10) W2"
    using step [OF 1(2)] unfolding add by auto
  obtain W3 where 3: "sha1_pads_ROT F K (i + 10) (fips1_rounds (fips1_W blk) 0 (i + 10) s, W2) =
      (fips1_rounds (fips1_W blk) 0 (i + 15) s, W3)" "last_words blk (i + 15) W3"
    using step [OF 2(2)] unfolding add by auto
  then show ?thesis using 1 2 step [OF 3(2)] unfolding add by auto
qed

lemma sha1_load_eq:
  "[GET_UINT32_BE data 0, GET_UINT32_BE data 4, GET_UINT32_BE data 8,
    GET_UINT32_BE data 12, GET_UINT32_BE data 16, GET_UINT32_BE data 20,
    GET_UINT32_BE data 24, GET_UINT32_BE data 28, GET_UINT32_BE data 32,
    GET_UINT32_BE data 36, GET_UINT32_BE data 40, GET_UINT32_BE data 44,
    GET_UINT32_BE data 48, GET_UINT32_BE data 52, GET_UINT32_BE data 56,
    GET_UINT32_BE data 60] = map (\<lambda>i. GET_UINT32_BE data (4 * i)) [0..<16]"
  by (simp add: upt_rec)

lemma sha1_load:
  assumes "64 \<le> length data"
  defines "W \<equiv> map (\<lambda>i. GET_UINT32_BE data (4 * i)) [0..<16]"
  shows "\<forall>t < 16. W ! t = fips1_W (take 64 data) t" and "last_words (take 64 data) 16 W"
proof -
  show W: "\<forall>t < 16. W ! t = fips1_W (take 64 data) t"
    using assms by (simp add: W_def GET_UINT32_BE_eq fips1_W.simps drop_take min_def)
  then show "last_words (take 64 data) 16 W" by (simp add: last_words_def W_def and_15)
qed

lemma sha1_process_eq:
  "64 \<le> length data \<Longrightarrow>
     sha1_process ctx data = Some (chain_update (\<lambda>c. fips1_compress c (take 64 data)) ctx)"
proof -
  assume len: "64 \<le> length data"
  define W where "W = map (\<lambda>i. GET_UINT32_BE data (4 * i)) [0..<16]"
  define blk where "blk = take 64 data"
  let ?s = "(h0 (chain ctx), h1 (chain ctx), h2 (chain ctx), h3 (chain ctx), h4 (chain ctx))"
  let ?R = "\<lambda>n. fips1_rounds (fips1_W blk) 0 n ?s"
  note ld = sha1_load [OF len, folded W_def blk_def]
  have g: "sha1_pads sha1_F_choose 0x5A827999 W i t = fips1_rounds (fips1_W blk) i (i + 5) t"
    if "i + 5 \<le> 16" for i t
    using sha1_pads_rounds [OF ld(1) that sha1_phases(1)] that by simp
  have R0: "?s = ?R 0" by simp
  have 0: "sha1_pads sha1_F_choose 0x5A827999 W 10 (sha1_pads sha1_F_choose 0x5A827999 W 5
      (sha1_pads sha1_F_choose 0x5A827999 W 0 ?s)) = ?R 15"
    using g [of 0 ?s] g [of 5 "?R 5"] g [of 10 "?R 10"]
      fold_upt_split [of 0 5 10 "fips1_round (fips1_W blk)" ?s]
      fold_upt_split [of 0 10 15 "fips1_round (fips1_W blk)" ?s] by (simp del: upt_rec_numeral)
  obtain W1 where 1: "sha1_pads_15 sha1_F_choose 0x5A827999 (?R 15, W) = (?R 20, W1)"
      "last_words blk 20 W1"
    using sha1_pads_15_five [OF ld(2)] five_pads_rounds [OF sha1_phases(1), of 15]
      last_words_extend [OF ld(2), of 4] fold_upt_split [of 0 15 20 "fips1_round (fips1_W blk)" ?s]
    by (simp del: upt_rec_numeral)
  obtain W2 where 2: "sha1_pads_ROT sha1_F_parity 0x6ED9EBA1 35 (sha1_pads_ROT sha1_F_parity 0x6ED9EBA1 30
      (sha1_pads_ROT sha1_F_parity 0x6ED9EBA1 25 (sha1_pads_ROT sha1_F_parity 0x6ED9EBA1 20
        (?R 20, W1)))) = (?R 40, W2)" "last_words blk 40 W2"
    using sha1_phase_rounds [OF 1(2) _ sha1_phases(2), of ?s] by auto
  obtain W3 where 3: "sha1_pads_ROT sha1_F_majority 0x8F1BBCDC 55 (sha1_pads_ROT sha1_F_majority 0x8F1BBCDC 50
      (sha1_pads_ROT sha1_F_majority 0x8F1BBCDC 45 (sha1_pads_ROT sha1_F_majority 0x8F1BBCDC 40
        (?R 40, W2)))) = (?R 60, W3)" "last_words blk 60 W3"
    using sha1_phase_rounds [OF 2(2) _ sha1_phases(3), of ?s] by auto
  obtain W4 where 4: "sha1_pads_ROT sha1_F_parity 0xCA62C1D6 75 (sha1_pads_ROT sha1_F_parity 0xCA62C1D6 70
      (sha1_pads_ROT sha1_F_parity 0xCA62C1D6 65 (sha1_pads_ROT sha1_F_parity 0xCA62C1D6 60
        (?R 60, W3)))) = (?R 80, W4)"
    using sha1_phase_rounds [OF 3(2) _ sha1_phases(4), of ?s] by auto
  obtain A B C D E where r: "?R 80 = (A, B, C, D, E)" by (metis prod.exhaust)
  have "sha1_process ctx data = Some (ctx\<lparr>chain := add_regs (chain ctx) (?R 80)\<rparr>)"
    using len
    by (simp only: sha1_process_def sha1_load_eq Let_def W_def [symmetric] 0 1 2 3 4 r)
      (simp add: add_regs_def)
  then show ?thesis by (simp add: fips1_compress_def chain_regs_def blk_def)
qed

text \<open>Both variants of the source compute the same.\<close>

theorem sha1_process_variants: "sha1_process_min ctx data = sha1_process ctx data"
proof -
  have "fold (\<lambda>i W. W[i := GET_UINT32_BE data (4 * i)]) [0..<16] (replicate 16 (0 :: u32)) =
      map (\<lambda>i. GET_UINT32_BE data (4 * i)) [0..<16]"
    by (simp add: upt_rec numeral_eq_Suc)
  then show ?thesis
    by (simp only: sha1_process_min_def sha1_process_def sha1_load_eq fold_simps Let_def)
qed

subsection \<open>The code: the hash interface\<close>

definition sha1_padding :: bytes where
  "sha1_padding = 0x80 # replicate 63 0"

definition mbcrypt_sha1_init :: "sha1_ctx ptr \<Rightarrow> (mbcrypt_status_e \<times> sha1_ctx ptr) ub" where
  "mbcrypt_sha1_init ctx =
     (case ctx of
        None \<Rightarrow> Some (MBCRYPT_STATUS_FAIL_NULL_PTR, None)
      | Some _ \<Rightarrow> Some (MBCRYPT_STATUS_OK, Some \<lparr>
          total0 = 0, total1 = 0, buffer = replicate 64 0,
          chain = \<lparr>h0 = 0x67452301, h1 = 0xEFCDAB89, h2 = 0x98BADCFE, h3 = 0x10325476,
                   h4 = 0xC3D2E1F0\<rparr>\<rparr>))"

text \<open>The loop \<open>while (data_len >= MBCRYPT_SHA1_BUFFER_SIZE)\<close> of the update.\<close>

function sha1_blocks :: "sha1_ctx \<Rightarrow> bytes \<Rightarrow> u32 \<Rightarrow> (sha1_ctx \<times> bytes \<times> u32) ub" where
  "sha1_blocks ctx data data_len =
     (if 64 \<le> data_len then do {
        ctx \<leftarrow> sha1_process ctx data;
        sha1_blocks ctx (drop 64 data) (data_len - 64)
      } else Some (ctx, data, data_len))"
  by pat_completeness auto
termination
  by (relation "measure (\<lambda>(ctx, data, n). unat n)")
    (auto simp: unat_sub_u32 word_le_nat_alt)

declare sha1_blocks.simps [simp del]

definition mbcrypt_sha1_update ::
    "sha1_ctx ptr \<Rightarrow> bytes ptr \<Rightarrow> u32 \<Rightarrow> (mbcrypt_status_e \<times> sha1_ctx ptr) ub" where
  "mbcrypt_sha1_update ctx data data_len =
     (case ctx of
        None \<Rightarrow> Some (MBCRYPT_STATUS_FAIL_NULL_PTR, None)
      | Some ctx \<Rightarrow>
        (case data of
           None \<Rightarrow> Some (MBCRYPT_STATUS_FAIL_NULL_PTR, Some ctx)
         | Some data \<Rightarrow>
           if data_len = 0 then Some (MBCRYPT_STATUS_OK, Some ctx)
           else
             let left = total0 ctx AND 0x3F;
                 fill = 64 - left;
                 ctx = ctx\<lparr>total0 := total0 ctx + data_len\<rparr>;
                 ctx = ctx\<lparr>total0 := total0 ctx AND 0xFFFFFFFF\<rparr>;
                 ctx = (if total0 ctx < data_len then ctx\<lparr>total1 := total1 ctx + 1\<rparr> else ctx)
             in do {
               (ctx, data, data_len, left) \<leftarrow>
                 (if left \<noteq> 0 \<and> fill \<le> data_len then do {
                    b \<leftarrow> memcpy_at (buffer ctx) (unat left) data (unat fill);
                    ctx \<leftarrow> sha1_process (ctx\<lparr>buffer := b\<rparr>) b;
                    Some (ctx, drop (unat fill) data, data_len - fill, 0)
                  } else Some (ctx, data, data_len, left));
               (ctx, data, data_len) \<leftarrow> sha1_blocks ctx data data_len;
               if 0 < data_len then do {
                 b \<leftarrow> memcpy_at (buffer ctx) (unat left) data (unat data_len);
                 Some (MBCRYPT_STATUS_OK, Some (ctx\<lparr>buffer := b\<rparr>))
               } else Some (MBCRYPT_STATUS_OK, Some ctx)
             }))"

text \<open>The digest written to \<open>out\<close>: five \<open>PUT_UINT32_BE\<close>.\<close>

definition sha1_put_digest :: "sha1_chain \<Rightarrow> bytes \<Rightarrow> bytes ub" where
  "sha1_put_digest c out = do {
     out \<leftarrow> PUT_UINT32_BE (h0 c) out 0;
     out \<leftarrow> PUT_UINT32_BE (h1 c) out 4;
     out \<leftarrow> PUT_UINT32_BE (h2 c) out 8;
     out \<leftarrow> PUT_UINT32_BE (h3 c) out 12;
     PUT_UINT32_BE (h4 c) out 16
   }"

definition mbcrypt_sha1_final ::
    "sha1_ctx ptr \<Rightarrow> bytes ptr \<Rightarrow> (mbcrypt_status_e \<times> sha1_ctx ptr \<times> bytes ptr) ub" where
  "mbcrypt_sha1_final ctx out =
     (case ctx of
        None \<Rightarrow> Some (MBCRYPT_STATUS_FAIL_NULL_PTR, None, out)
      | Some ctx \<Rightarrow>
        (case out of
           None \<Rightarrow> Some (MBCRYPT_STATUS_FAIL_NULL_PTR, Some ctx, None)
         | Some out \<Rightarrow>
           let high = drop_bit 29 (total0 ctx) OR push_bit 3 (total1 ctx);
               low = push_bit 3 (total0 ctx);
               last = total0 ctx AND 0x3F;
               padn = (if last < 56 then 56 - last else 120 - last)
           in do {
             msglen \<leftarrow> PUT_UINT32_BE high (replicate 8 0) 0;
             msglen \<leftarrow> PUT_UINT32_BE low msglen 4;
             (st, ctx) \<leftarrow> mbcrypt_sha1_update (Some ctx) (Some sha1_padding) padn;
             if st \<noteq> MBCRYPT_STATUS_OK then Some (st, ctx, Some out) else do {
               (st, ctx) \<leftarrow> mbcrypt_sha1_update ctx (Some msglen) 8;
               if st \<noteq> MBCRYPT_STATUS_OK then Some (st, ctx, Some out) else do {
                 ctx \<leftarrow> ctx;
                 out \<leftarrow> sha1_put_digest (chain ctx) out;
                 Some (MBCRYPT_STATUS_OK, Some ctx, Some out)
               }
             }
           }))"

text \<open>The one-call interface; \<open>ctx0\<close> is the uninitialised storage of its local context.\<close>

definition mbcrypt_sha1 ::
    "sha1_ctx \<Rightarrow> bytes ptr \<Rightarrow> u32 \<Rightarrow> bytes ptr \<Rightarrow> (mbcrypt_status_e \<times> bytes ptr) ub" where
  "mbcrypt_sha1 ctx0 data data_len out = do {
     (st, ctx) \<leftarrow> mbcrypt_sha1_init (Some ctx0);
     if st \<noteq> MBCRYPT_STATUS_OK then Some (st, out) else do {
       (st, ctx) \<leftarrow> mbcrypt_sha1_update ctx data data_len;
       if st \<noteq> MBCRYPT_STATUS_OK then Some (st, out) else do {
         (st, ctx, out) \<leftarrow> mbcrypt_sha1_final ctx out;
         Some (st, out)
       }
     }
   }"

subsection \<open>The streaming contract, discharged by the code\<close>

interpretation sha1_stream: hash_stream 64 fips1_compress fips1_iv
    sha1_process sha1_blocks mbcrypt_sha1_update
proof unfold_locales
  show "(64 :: nat) = 64 \<or> (64 :: nat) = 128" by simp
  show "sha1_process c d = Some (chain_update (\<lambda>h. fips1_compress h (take 64 d)) c)"
    if "64 \<le> length d" for c d
    using that by (rule sha1_process_eq)
  show "sha1_blocks c d n = (if of_nat 64 \<le> n then sha1_process c d \<bind>
      (\<lambda>c. sha1_blocks c (drop 64 d) (n - of_nat 64)) else Some (c, d, n))" for c d n
    by (subst sha1_blocks.simps) simp
qed (simp_all add: mbcrypt_sha1_update_def and_all_ones_u32 Let_def)

subsection \<open>The hash contract\<close>

abbreviation sha1_holds :: "sha1_ctx \<Rightarrow> bytes \<Rightarrow> bool" where
  "sha1_holds \<equiv> absorbed 64 fips1_compress fips1_iv"

lemma sha1_put_digest_eq:
  "20 \<le> length out \<Longrightarrow> sha1_put_digest c out = Some (fips1_digest c @ drop 20 out)"
  by (simp add: sha1_put_digest_def PUT_UINT32_BE_eq fips1_digest_def)

lemma sha1_init_holds:
  "\<exists>c'. mbcrypt_sha1_init (Some c) = Some (MBCRYPT_STATUS_OK, Some c') \<and> sha1_holds c' []"
  by (simp add: mbcrypt_sha1_init_def absorbed_def stream_state_def total_state_def
      chunks_short tailpart_def fips1_iv_def)

lemma sha1_final_digest:
  assumes "sha1_holds c m" and "20 \<le> length out"
  shows "\<exists>c'. mbcrypt_sha1_final (Some c) (Some out) =
    Some (MBCRYPT_STATUS_OK, Some c', Some (fips_sha1 m @ drop 20 out))"
proof -
  let ?lf = "be_bytes 8 (8 * length m)"
  have tot: "total_state c (length m)" using assms(1) by (simp add: absorbed_def)
  obtain c1 c2 where "mbcrypt_sha1_update (Some c) (Some sha1_padding)
        (if total0 c AND 63 < 56 then 56 - (total0 c AND 63) else 120 - (total0 c AND 63)) =
        Some (MBCRYPT_STATUS_OK, Some c1)"
      "mbcrypt_sha1_update (Some c1) (Some ?lf) 8 = Some (MBCRYPT_STATUS_OK, Some c2)"
      "chain c2 = foldl fips1_compress fips1_iv (chunks 64 (hash_pad 64 ?lf m))"
    using sha1_stream.final_updates [OF assms(1), of ?lf 56 120 sha1_padding 63]
    by (auto simp: sha1_padding_def)
  then show ?thesis
    using assms(2) length_field_64 [OF tot]
    by (simp add: mbcrypt_sha1_final_def PUT_UINT32_BE_eq sha1_put_digest_eq fips_sha1_def
        Let_def)
qed

interpretation sha1: hash_api mbcrypt_sha1_init mbcrypt_sha1_update mbcrypt_sha1_final
    sha1_holds fips_sha1 20 "\<lambda>n. n < 2 ^ 61"
  using sha1_init_holds sha1_stream.update_absorbs sha1_final_digest
  by unfold_locales simp_all

lemma mbcrypt_sha1_once:
  "mbcrypt_sha1 = hash_once mbcrypt_sha1_init mbcrypt_sha1_update mbcrypt_sha1_final"
  by (simp add: fun_eq_iff mbcrypt_sha1_def hash_once_def)

subsection \<open>The self test\<close>

text \<open>
  \<open>sha1_selftest\<close>: the static table and the loop. The third field of a test, the expected
  digest, is never read. The loop index is below 64, so the shift is defined.
\<close>

record sha1_test =
  test_in :: bytes
  test_in_len :: u32
  test_out :: bytes

definition ascii :: "string \<Rightarrow> bytes" where
  "ascii s = map of_char s"

definition sha1_tests :: "sha1_test list" where
  "sha1_tests =
     [\<lparr>test_in = ascii ''Hello world!'', test_in_len = 5, test_out = ascii ''dfsdfsfsd''\<rparr>,
      \<lparr>test_in = ascii ''Zehr gut'', test_in_len = 5, test_out = ascii ''dfsdfsfsd''\<rparr>]"

fun sha1_selftest_loop ::
    "sha1_ctx \<Rightarrow> sha1_test list \<Rightarrow> nat \<Rightarrow> bytes \<Rightarrow> u64 \<Rightarrow> u64 ub" where
  "sha1_selftest_loop ctx0 [] i out res = Some res"
| "sha1_selftest_loop ctx0 (t # ts) i out res = do {
     (st, out) \<leftarrow> mbcrypt_sha1 ctx0 (Some (test_in t)) (test_in_len t) (Some out);
     out \<leftarrow> out;
     res \<leftarrow> (if st = MBCRYPT_STATUS_OK
       then if i < 31 then Some (res OR push_bit i 1) else None
       else Some res);
     sha1_selftest_loop ctx0 ts (i + 1) out res
   }"

definition sha1_selftest :: "sha1_ctx \<Rightarrow> bytes \<Rightarrow> u64 ub" where
  "sha1_selftest ctx0 out = sha1_selftest_loop ctx0 sha1_tests 0 out 0"

subsection \<open>Properties\<close>

text \<open>
  C5. SHA-1 is right: for every buffer and every length that it holds, \<open>mbcrypt_sha1\<close>
  returns \<open>MBCRYPT_STATUS_OK\<close> and writes the digest that FIPS 180-4 defines for those bytes to
  the first 20 bytes of \<open>out\<close>, and nothing else, whatever the local context held.
\<close>

theorem sha1_digest:
  assumes "unat n \<le> length d" and "20 \<le> length out"
  shows "mbcrypt_sha1 ctx0 (Some d) n (Some out) =
    Some (MBCRYPT_STATUS_OK, Some (fips_sha1 (take (unat n) d) @ drop 20 out))"
  using sha1.once_digest [of n d out ctx0] assms unat_u32_lt [of n]
  by (simp add: mbcrypt_sha1_once)

definition sha1_any_ctx :: sha1_ctx where
  "sha1_any_ctx = \<lparr>total0 = 7, total1 = 9, buffer = replicate 64 0xAA, chain = fips1_iv\<rparr>"

theorem sha1_digest_witness:
  "mbcrypt_sha1 sha1_any_ctx (Some [0x61, 0x62, 0x63]) 3 (Some (replicate 28 0)) =
     Some (MBCRYPT_STATUS_OK, Some (fips_sha1 [0x61, 0x62, 0x63] @ replicate 8 0))"
  using sha1_digest [of 3 "[0x61, 0x62, 0x63]" "replicate 28 0" sha1_any_ctx] by simp

text \<open>
  The streaming interface of SHA-1 does not depend on how the message is cut: initialise,
  feed the pieces in order, finish, and the digest is that of their concatenation, for messages
  up to the standard's limit of \<open>2\<^sup>6\<^sup>4 - 1\<close> bits.
\<close>

theorem sha1_in_pieces:
  assumes "\<forall>p \<in> set ps. length p < 4294967296" and "length (concat ps) < 2 ^ 61"
    and "20 \<le> length out"
  shows "\<exists>c1 c2 c3. mbcrypt_sha1_init (Some c) = Some (MBCRYPT_STATUS_OK, Some c1)
    \<and> feed mbcrypt_sha1_update c1 ps = Some (MBCRYPT_STATUS_OK, Some c2)
    \<and> mbcrypt_sha1_final (Some c2) (Some out) =
        Some (MBCRYPT_STATUS_OK, Some c3, Some (fips_sha1 (concat ps) @ drop 20 out))"
  by (rule sha1.pieces_digest [OF assms])

text \<open>
  Both variants of \<open>sha1_process\<close>, the unrolled one and the one for small code, are the
  compression function of the standard on the first 64 bytes at \<open>data\<close>, and change only the
  chaining value.
\<close>

theorem sha1_process_compresses:
  assumes "64 \<le> length data"
  shows "sha1_process ctx data =
      Some (ctx\<lparr>chain := fips1_compress (chain ctx) (take 64 data)\<rparr>)
    \<and> sha1_process_min ctx data = sha1_process ctx data"
  using sha1_process_eq [OF assms] sha1_process_variants by simp

text \<open>Every test whose input is long enough sets its bit, whatever it expects.\<close>

lemma selftest_bits:
  "k = Suc i \<Longrightarrow> (res OR push_bit i 1) OR push_bit k (mask n) = res OR push_bit i (mask (Suc n) :: u64)"
  by (rule bit_word_eqI) (auto simp: bit_simps not_less simp del: push_bit_Suc)

lemma sha1_selftest_loop_value:
  assumes "\<forall>t \<in> set ts. unat (test_in_len t) \<le> length (test_in t)" and "i + length ts \<le> 31" and "length out = 20"
  shows "sha1_selftest_loop ctx0 ts i out res = Some (res OR push_bit i (mask (length ts)))"
  using assms
proof (induction ts arbitrary: i out res)
  case (Cons t ts)
  obtain out' where 1: "mbcrypt_sha1 ctx0 (Some (test_in t)) (test_in_len t) (Some out) =
      Some (MBCRYPT_STATUS_OK, Some out')" "length out' = 20"
    using sha1.once_digest [of "test_in_len t" "test_in t" out ctx0] Cons.prems
      unat_u32_lt [of "test_in_len t"] by (auto simp: mbcrypt_sha1_once)
  have "sha1_selftest_loop ctx0 ts (i + 1) out' (res OR push_bit i 1) =
      Some ((res OR push_bit i 1) OR push_bit (i + 1) (mask (length ts)))"
    by (rule Cons.IH) (use Cons.prems 1(2) in simp_all)
  then show ?case using 1(1) Cons.prems(2) selftest_bits [of "i + 1" i res "length ts"] by simp
qed simp

text \<open>
  C35. The SHA-1 self test is blind: for any table of at most 31 tests, whatever digests it expects,
  the loop reports success for every test whose input is as long as it says, because it looks only at
  the returned status. With the table of the source, whose expected digests are not digests at all,
  \<open>sha1_selftest\<close> returns both bits set.
\<close>

theorem sha1_selftest_blind:
  assumes "\<forall>t \<in> set ts. unat (test_in_len t) \<le> length (test_in t)" and "length ts \<le> 31" and "length out = 20"
  shows "sha1_selftest_loop ctx0 ts 0 out 0 = Some (mask (length ts))
    \<and> sha1_selftest ctx0 out = Some 3"
proof -
  have "\<forall>t \<in> set sha1_tests. unat (test_in_len t) \<le> length (test_in t)" "length sha1_tests = 2"
    by (simp_all add: sha1_tests_def ascii_def)
  then have "sha1_selftest ctx0 out = Some 3"
    using sha1_selftest_loop_value [of sha1_tests 0 out ctx0 0] assms(3)
    by (simp add: sha1_selftest_def mask_eq_exp_minus_1)
  then show ?thesis using sha1_selftest_loop_value [OF assms(1) _ assms(3), of 0 ctx0 0] assms(2) by simp
qed

theorem sha1_selftest_blind_witness:
  "sha1_selftest_loop sha1_any_ctx [\<lparr>test_in = [0x61], test_in_len = 1, test_out = []\<rparr>] 0 (replicate 20 0) 0 = Some 1
    \<and> sha1_selftest sha1_any_ctx (replicate 20 0) = Some 3"
  using sha1_selftest_blind [of "[\<lparr>test_in = [0x61], test_in_len = 1, test_out = []\<rparr>]" "replicate 20 0" sha1_any_ctx]
  by (simp add: mask_eq_exp_minus_1)

end
