(* ===== verification/Sha2.thy ===== *)
theory Sha2
  imports Hash_Api
begin

text \<open>
  What \<open>src/sha256.c\<close> and \<open>src/sha512.c\<close> share of their compression functions: both run the
  macro \<open>PAD\<close> eight times in a row with the roles of the eight working variables rotated by
  one each time, so that after a group every variable has its own role again. The locale
  \<open>sha2_rounds\<close> takes such a macro and its group as written in the source and shows that
  a group is eight rounds of the standard, for words of any width.
\<close>

type_synonym 'w regs8 =
  "'w word \<times> 'w word \<times> 'w word \<times> 'w word \<times> 'w word \<times> 'w word \<times> 'w word \<times> 'w word"

locale sha2_rounds =
  fixes PAD :: "'w::len word \<Rightarrow> 'w word \<Rightarrow> 'w word \<Rightarrow> 'w word \<Rightarrow> 'w word \<Rightarrow> 'w word \<Rightarrow> 'w word \<Rightarrow>
      'w word \<Rightarrow> 'w word \<Rightarrow> 'w word \<Rightarrow> 'w word \<times> 'w word"
    and K :: "'w word list"
    and round :: "'w word \<Rightarrow> 'w word \<Rightarrow> 'w regs8 \<Rightarrow> 'w regs8"
    and pads :: "'w word list \<Rightarrow> nat \<Rightarrow> 'w regs8 \<Rightarrow> 'w regs8"
  assumes PAD_round: "PAD a b c d e f g h x k = (d', h') \<Longrightarrow>
      round x k (a, b, c, d, e, f, g, h) = (h', a, b, c, d', e, f, g)"
    and pads_eq: "pads W i (A, B, C, D, E, F, G, H) =
      (let (D, H) = PAD A B C D E F G H (W ! (i + 0)) (K ! (i + 0));
           (C, G) = PAD H A B C D E F G (W ! (i + 1)) (K ! (i + 1));
           (B, F) = PAD G H A B C D E F (W ! (i + 2)) (K ! (i + 2));
           (A, E) = PAD F G H A B C D E (W ! (i + 3)) (K ! (i + 3));
           (H, D) = PAD E F G H A B C D (W ! (i + 4)) (K ! (i + 4));
           (G, C) = PAD D E F G H A B C (W ! (i + 5)) (K ! (i + 5));
           (F, B) = PAD C D E F G H A B (W ! (i + 6)) (K ! (i + 6));
           (E, A) = PAD B C D E F G H A (W ! (i + 7)) (K ! (i + 7))
       in (A, B, C, D, E, F, G, H))"
begin

abbreviation rounds :: "(nat \<Rightarrow> 'w word) \<Rightarrow> nat \<Rightarrow> nat \<Rightarrow> 'w regs8 \<Rightarrow> 'w regs8" where
  "rounds w i j \<equiv> fold (\<lambda>t. round (w t) (K ! t)) [i..<j]"

lemma pads_rounds:
  assumes w: "\<forall>t < 8. W ! (i + t) = w (i + t)"
  shows "pads W i s = rounds w i (i + 8) s"
proof -
  obtain A B C D E F G H where s: "s = (A, B, C, D, E, F, G, H)" by (rule tuple8_cases)
  obtain D1 H1 where 1: "PAD A B C D E F G H (w (i + 0)) (K ! (i + 0)) = (D1, H1)" by fastforce
  obtain C1 G1 where 2: "PAD H1 A B C D1 E F G (w (i + 1)) (K ! (i + 1)) = (C1, G1)" by fastforce
  obtain B1 F1 where 3: "PAD G1 H1 A B C1 D1 E F (w (i + 2)) (K ! (i + 2)) = (B1, F1)" by fastforce
  obtain A1 E1 where 4: "PAD F1 G1 H1 A B1 C1 D1 E (w (i + 3)) (K ! (i + 3)) = (A1, E1)"
    by fastforce
  obtain H2 D2 where 5: "PAD E1 F1 G1 H1 A1 B1 C1 D1 (w (i + 4)) (K ! (i + 4)) = (H2, D2)"
    by fastforce
  obtain G2 C2 where 6: "PAD D2 E1 F1 G1 H2 A1 B1 C1 (w (i + 5)) (K ! (i + 5)) = (G2, C2)"
    by fastforce
  obtain F2 B2 where 7: "PAD C2 D2 E1 F1 G2 H2 A1 B1 (w (i + 6)) (K ! (i + 6)) = (F2, B2)"
    by fastforce
  obtain E2 A2 where 8: "PAD B2 C2 D2 E1 F2 G2 H2 A1 (w (i + 7)) (K ! (i + 7)) = (E2, A2)"
    by fastforce
  note steps = 1 2 3 4 5 6 7 8
  note ww = w [unfolded all_less_8]
  have "pads W i s = (A2, B2, C2, D2, E2, F2, G2, H2)"
    by (simp only: s pads_eq Let_def prod.case ww steps)
  moreover have "rounds w i (i + 8) s = (A2, B2, C2, D2, E2, F2, G2, H2)"
    by (simp only: fold_upt_8 s o_def steps [THEN PAD_round])
  ultimately show ?thesis by simp
qed

text \<open>Groups one after the other are the rounds one after the other.\<close>

lemma pads_loop:
  assumes "\<forall>t < 8 * n. W ! t = w t"
  shows "fold (\<lambda>i. pads W (8 * i)) [0..<n] s = rounds w 0 (8 * n) s"
  using assms
proof (induction n)
  case (Suc n)
  then show ?case
    using pads_rounds [of W "8 * n" w "rounds w 0 (8 * n) s"]
      fold_upt_split [of 0 "8 * n" "8 * n + 8" "\<lambda>t. round (w t) (K ! t)" s]
    by (simp add: add.commute)
qed simp

end

end
