(* ===== verification/Sha256.thy ===== *)
theory Sha256
  imports Sha2
begin

text \<open>
  SHA-256, \<open>src/sha256.c\<close> and \<open>includes/sha256.h\<close>. First the standard's algorithm
  (FIPS 180-4, functions \<open>fips256_*\<close>), then the code: the macros, the eight-fold groups of
  \<open>PAD\<close> calls that both variants of \<open>sha256_process\<close> are made of, the block loop of
  \<open>mbcrypt_sha256_update\<close>, \<open>mbcrypt_sha256_final\<close> and \<open>mbcrypt_sha256\<close>. The lemmas show that
  the code computes the standard's digest.

  The wiping of locals under \<open>MBCRYPT_SECURED_SHA256\<close> changes no object that outlives the call
  and has no counterpart here.
\<close>

subsection \<open>The standard\<close>

type_synonym regs256 = "u32 \<times> u32 \<times> u32 \<times> u32 \<times> u32 \<times> u32 \<times> u32 \<times> u32"

record sha256_chain =
  h0 :: u32
  h1 :: u32
  h2 :: u32
  h3 :: u32
  h4 :: u32
  h5 :: u32
  h6 :: u32
  h7 :: u32

definition sha256_K :: "u32 list" where
  "sha256_K =
    [0x428A2F98, 0x71374491, 0xB5C0FBCF, 0xE9B5DBA5,
     0x3956C25B, 0x59F111F1, 0x923F82A4, 0xAB1C5ED5,
     0xD807AA98, 0x12835B01, 0x243185BE, 0x550C7DC3,
     0x72BE5D74, 0x80DEB1FE, 0x9BDC06A7, 0xC19BF174,
     0xE49B69C1, 0xEFBE4786, 0x0FC19DC6, 0x240CA1CC,
     0x2DE92C6F, 0x4A7484AA, 0x5CB0A9DC, 0x76F988DA,
     0x983E5152, 0xA831C66D, 0xB00327C8, 0xBF597FC7,
     0xC6E00BF3, 0xD5A79147, 0x06CA6351, 0x14292967,
     0x27B70A85, 0x2E1B2138, 0x4D2C6DFC, 0x53380D13,
     0x650A7354, 0x766A0ABB, 0x81C2C92E, 0x92722C85,
     0xA2BFE8A1, 0xA81A664B, 0xC24B8B70, 0xC76C51A3,
     0xD192E819, 0xD6990624, 0xF40E3585, 0x106AA070,
     0x19A4C116, 0x1E376C08, 0x2748774C, 0x34B0BCB5,
     0x391C0CB3, 0x4ED8AA4A, 0x5B9CCA4F, 0x682E6FF3,
     0x748F82EE, 0x78A5636F, 0x84C87814, 0x8CC70208,
     0x90BEFFFA, 0xA4506CEB, 0xBEF9A3F7, 0xC67178F2]"

definition fips256_Ch :: "u32 \<Rightarrow> u32 \<Rightarrow> u32 \<Rightarrow> u32" where
  "fips256_Ch x y z = (x AND y) XOR (NOT x AND z)"

definition fips256_Maj :: "u32 \<Rightarrow> u32 \<Rightarrow> u32 \<Rightarrow> u32" where
  "fips256_Maj x y z = (x AND y) XOR (x AND z) XOR (y AND z)"

definition fips256_Sigma0 :: "u32 \<Rightarrow> u32" where
  "fips256_Sigma0 x = word_rotr 2 x XOR word_rotr 13 x XOR word_rotr 22 x"

definition fips256_Sigma1 :: "u32 \<Rightarrow> u32" where
  "fips256_Sigma1 x = word_rotr 6 x XOR word_rotr 11 x XOR word_rotr 25 x"

definition fips256_sigma0 :: "u32 \<Rightarrow> u32" where
  "fips256_sigma0 x = word_rotr 7 x XOR word_rotr 18 x XOR drop_bit 3 x"

definition fips256_sigma1 :: "u32 \<Rightarrow> u32" where
  "fips256_sigma1 x = word_rotr 17 x XOR word_rotr 19 x XOR drop_bit 10 x"

text \<open>The message schedule of a block.\<close>

fun fips256_W :: "bytes \<Rightarrow> nat \<Rightarrow> u32" where
  "fips256_W blk t =
     (if t < 16 then be_word (take 4 (drop (4 * t) blk))
      else fips256_sigma1 (fips256_W blk (t - 2)) + fips256_W blk (t - 7)
           + fips256_sigma0 (fips256_W blk (t - 15)) + fips256_W blk (t - 16))"

declare fips256_W.simps [simp del]

definition fips256_round :: "u32 \<Rightarrow> u32 \<Rightarrow> regs256 \<Rightarrow> regs256" where
  "fips256_round w k = (\<lambda>(a, b, c, d, e, f, g, h).
     let T1 = h + fips256_Sigma1 e + fips256_Ch e f g + k + w;
         T2 = fips256_Sigma0 a + fips256_Maj a b c
     in (T1 + T2, a, b, c, d + T1, e, f, g))"

definition fips256_rounds :: "(nat \<Rightarrow> u32) \<Rightarrow> nat \<Rightarrow> nat \<Rightarrow> regs256 \<Rightarrow> regs256" where
  "fips256_rounds w i j s = fold (\<lambda>t. fips256_round (w t) (sha256_K ! t)) [i..<j] s"

definition chain_regs :: "sha256_chain \<Rightarrow> regs256" where
  "chain_regs c = (h0 c, h1 c, h2 c, h3 c, h4 c, h5 c, h6 c, h7 c)"

definition add_regs :: "sha256_chain \<Rightarrow> regs256 \<Rightarrow> sha256_chain" where
  "add_regs c = (\<lambda>(A, B, C, D, E, F, G, H).
     c\<lparr>h0 := h0 c + A, h1 := h1 c + B, h2 := h2 c + C, h3 := h3 c + D,
       h4 := h4 c + E, h5 := h5 c + F, h6 := h6 c + G, h7 := h7 c + H\<rparr>)"

definition fips256_compress :: "sha256_chain \<Rightarrow> bytes \<Rightarrow> sha256_chain" where
  "fips256_compress c blk = add_regs c (fips256_rounds (fips256_W blk) 0 64 (chain_regs c))"

definition fips256_iv :: sha256_chain where
  "fips256_iv = \<lparr>h0 = 0x6A09E667, h1 = 0xBB67AE85, h2 = 0x3C6EF372, h3 = 0xA54FF53A,
                 h4 = 0x510E527F, h5 = 0x9B05688C, h6 = 0x1F83D9AB, h7 = 0x5BE0CD19\<rparr>"

definition fips256_digest :: "sha256_chain \<Rightarrow> bytes" where
  "fips256_digest c = concat (map (\<lambda>h. be_bytes 4 (unat h))
     [h0 c, h1 c, h2 c, h3 c, h4 c, h5 c, h6 c, h7 c])"

definition fips_sha256 :: "bytes \<Rightarrow> bytes" where
  "fips_sha256 m = fips256_digest
     (foldl fips256_compress fips256_iv
       (chunks 64 (hash_pad 64 (be_bytes 8 (8 * length m)) m)))"

lemma length_fips_sha256 [simp]: "length (fips_sha256 m) = 32"
  by (simp add: fips_sha256_def fips256_digest_def)

subsection \<open>The code: macros and \<open>sha256_process\<close>\<close>

definition sha256_SHIFT_RIGHT :: "u32 \<Rightarrow> nat \<Rightarrow> u32" where
  "sha256_SHIFT_RIGHT x n = drop_bit n (x AND 0xFFFFFFFF)"

definition sha256_ROT_RIGHT :: "u32 \<Rightarrow> nat \<Rightarrow> u32" where
  "sha256_ROT_RIGHT x n = sha256_SHIFT_RIGHT x n OR push_bit (32 - n) x"

definition sha256_SUB0 :: "u32 \<Rightarrow> u32" where
  "sha256_SUB0 x = sha256_ROT_RIGHT x 7 XOR sha256_ROT_RIGHT x 18 XOR sha256_SHIFT_RIGHT x 3"

definition sha256_SUB1 :: "u32 \<Rightarrow> u32" where
  "sha256_SUB1 x = sha256_ROT_RIGHT x 17 XOR sha256_ROT_RIGHT x 19 XOR sha256_SHIFT_RIGHT x 10"

definition sha256_SUB2 :: "u32 \<Rightarrow> u32" where
  "sha256_SUB2 x = sha256_ROT_RIGHT x 2 XOR sha256_ROT_RIGHT x 13 XOR sha256_ROT_RIGHT x 22"

definition sha256_SUB3 :: "u32 \<Rightarrow> u32" where
  "sha256_SUB3 x = sha256_ROT_RIGHT x 6 XOR sha256_ROT_RIGHT x 11 XOR sha256_ROT_RIGHT x 25"

definition sha256_F0 :: "u32 \<Rightarrow> u32 \<Rightarrow> u32 \<Rightarrow> u32" where
  "sha256_F0 x y z = (x AND y) OR (z AND (x OR y))"

definition sha256_F1 :: "u32 \<Rightarrow> u32 \<Rightarrow> u32 \<Rightarrow> u32" where
  "sha256_F1 x y z = z XOR (x AND (y XOR z))"

text \<open>The array \<open>W\<close> after the assignment \<open>ROT (t)\<close>, whose value is then \<open>W[t]\<close>.\<close>

definition sha256_ROT :: "u32 list \<Rightarrow> nat \<Rightarrow> u32 list" where
  "sha256_ROT W t = W[t := sha256_SUB1 (W ! (t - 2)) + W ! (t - 7)
                           + sha256_SUB0 (W ! (t - 15)) + W ! (t - 16)]"

text \<open>The new values of \<open>d\<close> and \<open>h\<close>, the two variables that \<open>PAD\<close> assigns.\<close>

definition sha256_PAD ::
    "u32 \<Rightarrow> u32 \<Rightarrow> u32 \<Rightarrow> u32 \<Rightarrow> u32 \<Rightarrow> u32 \<Rightarrow> u32 \<Rightarrow> u32 \<Rightarrow> u32 \<Rightarrow> u32 \<Rightarrow> u32 \<times> u32" where
  "sha256_PAD a b c d e f g h x k =
     (let tmp1 = h + sha256_SUB3 e + sha256_F1 e f g + k + x;
          tmp2 = sha256_SUB2 a + sha256_F0 a b c
      in (d + tmp1, tmp1 + tmp2))"

text \<open>A group of eight \<open>PAD\<close>s over words that are loaded already.\<close>

definition sha256_pads :: "u32 list \<Rightarrow> nat \<Rightarrow> regs256 \<Rightarrow> regs256" where
  "sha256_pads W i = (\<lambda>(A, B, C, D, E, F, G, H).
     let (D, H) = sha256_PAD A B C D E F G H (W ! (i + 0)) (sha256_K ! (i + 0));
         (C, G) = sha256_PAD H A B C D E F G (W ! (i + 1)) (sha256_K ! (i + 1));
         (B, F) = sha256_PAD G H A B C D E F (W ! (i + 2)) (sha256_K ! (i + 2));
         (A, E) = sha256_PAD F G H A B C D E (W ! (i + 3)) (sha256_K ! (i + 3));
         (H, D) = sha256_PAD E F G H A B C D (W ! (i + 4)) (sha256_K ! (i + 4));
         (G, C) = sha256_PAD D E F G H A B C (W ! (i + 5)) (sha256_K ! (i + 5));
         (F, B) = sha256_PAD C D E F G H A B (W ! (i + 6)) (sha256_K ! (i + 6));
         (E, A) = sha256_PAD B C D E F G H A (W ! (i + 7)) (sha256_K ! (i + 7))
     in (A, B, C, D, E, F, G, H))"

text \<open>A group of eight \<open>PAD\<close>s that first extend the schedule by \<open>ROT\<close>.\<close>

definition sha256_pads_ROT :: "nat \<Rightarrow> regs256 \<times> u32 list \<Rightarrow> regs256 \<times> u32 list" where
  "sha256_pads_ROT i = (\<lambda>((A, B, C, D, E, F, G, H), W).
     let W = sha256_ROT W (i + 0);
         (D, H) = sha256_PAD A B C D E F G H (W ! (i + 0)) (sha256_K ! (i + 0));
         W = sha256_ROT W (i + 1);
         (C, G) = sha256_PAD H A B C D E F G (W ! (i + 1)) (sha256_K ! (i + 1));
         W = sha256_ROT W (i + 2);
         (B, F) = sha256_PAD G H A B C D E F (W ! (i + 2)) (sha256_K ! (i + 2));
         W = sha256_ROT W (i + 3);
         (A, E) = sha256_PAD F G H A B C D E (W ! (i + 3)) (sha256_K ! (i + 3));
         W = sha256_ROT W (i + 4);
         (H, D) = sha256_PAD E F G H A B C D (W ! (i + 4)) (sha256_K ! (i + 4));
         W = sha256_ROT W (i + 5);
         (G, C) = sha256_PAD D E F G H A B C (W ! (i + 5)) (sha256_K ! (i + 5));
         W = sha256_ROT W (i + 6);
         (F, B) = sha256_PAD C D E F G H A B (W ! (i + 6)) (sha256_K ! (i + 6));
         W = sha256_ROT W (i + 7);
         (E, A) = sha256_PAD B C D E F G H A (W ! (i + 7)) (sha256_K ! (i + 7))
     in ((A, B, C, D, E, F, G, H), W))"

type_synonym sha256_ctx = "sha256_chain hash_ctx"

text \<open>
  \<open>sha256_process\<close> reads the 64 bytes at \<open>data\<close>. The 48 words of \<open>W\<close> that the load does not set
  are uninitialised in C; \<open>ROT\<close> sets each before it is read, and the model starts them at 0.
\<close>

definition sha256_process :: "sha256_ctx \<Rightarrow> bytes \<Rightarrow> sha256_ctx ub" where
  "sha256_process ctx data =
     (if length data < 64 then None
      else
        let W = [GET_UINT32_BE data 0, GET_UINT32_BE data 4, GET_UINT32_BE data 8,
                 GET_UINT32_BE data 12, GET_UINT32_BE data 16, GET_UINT32_BE data 20,
                 GET_UINT32_BE data 24, GET_UINT32_BE data 28, GET_UINT32_BE data 32,
                 GET_UINT32_BE data 36, GET_UINT32_BE data 40, GET_UINT32_BE data 44,
                 GET_UINT32_BE data 48, GET_UINT32_BE data 52, GET_UINT32_BE data 56,
                 GET_UINT32_BE data 60] @ replicate 48 0;
            c = chain ctx;
            s = (h0 c, h1 c, h2 c, h3 c, h4 c, h5 c, h6 c, h7 c);
            s = sha256_pads W 0 s;
            s = sha256_pads W 8 s;
            r = sha256_pads_ROT 16 (s, W);
            r = sha256_pads_ROT 24 r;
            r = sha256_pads_ROT 32 r;
            r = sha256_pads_ROT 40 r;
            r = sha256_pads_ROT 48 r;
            r = sha256_pads_ROT 56 r;
            ((A, B, C, D, E, F, G, H), W) = r
        in Some (ctx\<lparr>chain := c\<lparr>h0 := h0 c + A, h1 := h1 c + B, h2 := h2 c + C, h3 := h3 c + D,
             h4 := h4 c + E, h5 := h5 c + F, h6 := h6 c + G, h7 := h7 c + H\<rparr>\<rparr>))"

text \<open>The variant under \<open>MBCRYPT_SHA256_MIN_SIZE\<close>: the same groups in loops.\<close>

definition sha256_process_min :: "sha256_ctx \<Rightarrow> bytes \<Rightarrow> sha256_ctx ub" where
  "sha256_process_min ctx data =
     (if length data < 64 then None
      else
        let W = fold (\<lambda>i W. W[i := GET_UINT32_BE data (4 * i)]) [0..<16] (replicate 64 0);
            c = chain ctx;
            s = (h0 c, h1 c, h2 c, h3 c, h4 c, h5 c, h6 c, h7 c);
            s = fold (\<lambda>i s. sha256_pads W (8 * i) s) [0..<2] s;
            ((A, B, C, D, E, F, G, H), W) = fold (\<lambda>i r. sha256_pads_ROT (8 * i) r) [2..<8] (s, W)
        in Some (ctx\<lparr>chain := c\<lparr>h0 := h0 c + A, h1 := h1 c + B, h2 := h2 c + C, h3 := h3 c + D,
             h4 := h4 c + E, h5 := h5 c + F, h6 := h6 c + G, h7 := h7 c + H\<rparr>\<rparr>))"

subsection \<open>The compression function of the code is the standard's\<close>

lemma sha256_SHIFT_RIGHT_eq: "sha256_SHIFT_RIGHT x n = drop_bit n x"
  by (simp add: sha256_SHIFT_RIGHT_def and_all_ones_u32)

lemma sha256_ROT_RIGHT_eq: "n < 32 \<Longrightarrow> sha256_ROT_RIGHT x n = word_rotr n x"
  using shifts_rotr [of n x] by (simp add: sha256_ROT_RIGHT_def sha256_SHIFT_RIGHT_eq)

lemmas sha256_macros =
  sha256_SUB0_def sha256_SUB1_def sha256_SUB2_def sha256_SUB3_def sha256_F0_def sha256_F1_def
  fips256_sigma0_def fips256_sigma1_def fips256_Sigma0_def fips256_Sigma1_def
  fips256_Ch_def fips256_Maj_def

lemma sha256_macros_eq:
  "sha256_SUB0 = fips256_sigma0" "sha256_SUB1 = fips256_sigma1"
  "sha256_SUB2 = fips256_Sigma0" "sha256_SUB3 = fips256_Sigma1"
  "sha256_F0 = fips256_Maj" "sha256_F1 = fips256_Ch"
  by (simp_all add: fun_eq_iff sha256_macros sha256_ROT_RIGHT_eq sha256_SHIFT_RIGHT_eq
      choice_eq majority_eq)

text \<open>One \<open>PAD\<close> is one round, with the roles of the variables rotated by one.\<close>

lemma sha256_PAD_round:
  "sha256_PAD a b c d e f g h x k = (d', h') \<Longrightarrow>
     fips256_round x k (a, b, c, d, e, f, g, h) = (h', a, b, c, d', e, f, g)"
  by (auto simp: sha256_PAD_def fips256_round_def sha256_macros_eq Let_def)

interpretation sha256_groups: sha2_rounds sha256_PAD sha256_K fips256_round sha256_pads
  by unfold_locales (simp_all only: sha256_PAD_round sha256_pads_def prod.case)

text \<open>The array \<open>W\<close> holds the message schedule up to \<open>n\<close>; \<open>ROT\<close> extends it.\<close>

definition schedule_upto :: "bytes \<Rightarrow> nat \<Rightarrow> u32 list \<Rightarrow> bool" where
  "schedule_upto blk n W \<longleftrightarrow> length W = 64 \<and> (\<forall>t < n. W ! t = fips256_W blk t)"

lemma schedule_ROT:
  assumes "schedule_upto blk n W" and "16 \<le> n" "n < 64"
  shows "schedule_upto blk (Suc n) (sha256_ROT W n)"
proof -
  have "W ! (n - 2) = fips256_W blk (n - 2)" "W ! (n - 7) = fips256_W blk (n - 7)"
    "W ! (n - 15) = fips256_W blk (n - 15)" "W ! (n - 16) = fips256_W blk (n - 16)"
    using assms by (simp_all add: schedule_upto_def)
  moreover have "fips256_W blk n = fips256_sigma1 (fips256_W blk (n - 2)) + fips256_W blk (n - 7)
      + fips256_sigma0 (fips256_W blk (n - 15)) + fips256_W blk (n - 16)"
    using assms(2) by (subst fips256_W.simps) simp
  ultimately show ?thesis using assms
    by (auto simp: schedule_upto_def sha256_ROT_def sha256_macros_eq less_Suc_eq nth_list_update)
qed

lemma schedule_nth: "schedule_upto blk n W \<Longrightarrow> t < n \<Longrightarrow> W ! t = fips256_W blk t"
  by (simp add: schedule_upto_def)

lemma schedule_extend:
  assumes "schedule_upto blk n W" and "16 \<le> n" "n + k \<le> 64"
  shows "schedule_upto blk (n + k) (fold (\<lambda>t W. sha256_ROT W t) [n..<n + k] W)"
  using assms(3)
proof (induction k)
  case (Suc k)
  then show ?case
    using schedule_ROT [of blk "n + k" "fold (\<lambda>t W. sha256_ROT W t) [n..<n + k] W"] assms(2)
    by simp
qed (simp add: assms(1))

text \<open>A group with \<open>ROT\<close> is the group without it over the extended schedule.\<close>

lemma sha256_pads_ROT_pads:
  assumes sch: "schedule_upto blk i W" and i: "16 \<le> i" "i + 8 \<le> 64"
  defines "V \<equiv> \<lambda>j. fold (\<lambda>t W. sha256_ROT W t) [i..<i + j] W"
  shows "sha256_pads_ROT i (s, W) = (sha256_pads (V 8) i s, V 8)"
proof -
  obtain A B C D E F G H where s: "s = (A, B, C, D, E, F, G, H)" by (rule tuple8_cases)
  have V: "sha256_ROT W (i + 0) = V 1" "sha256_ROT (V 1) (i + 1) = V 2"
    "sha256_ROT (V 2) (i + 2) = V 3" "sha256_ROT (V 3) (i + 3) = V 4"
    "sha256_ROT (V 4) (i + 4) = V 5" "sha256_ROT (V 5) (i + 5) = V 6"
    "sha256_ROT (V 6) (i + 6) = V 7" "sha256_ROT (V 7) (i + 7) = V 8"
    by (simp_all add: V_def eval_nat_numeral)
  have nth: "V j ! (i + t) = V 8 ! (i + t)" if "t < j" "j \<le> 8" for j t
    using schedule_extend [OF sch i(1), of j] schedule_extend [OF sch i(1), of 8] that i(2)
    by (simp add: V_def schedule_nth)
  have "V 1 ! (i + 0) = V 8 ! (i + 0)" "V 2 ! (i + 1) = V 8 ! (i + 1)" "V 3 ! (i + 2) = V 8 ! (i + 2)"
    "V 4 ! (i + 3) = V 8 ! (i + 3)" "V 5 ! (i + 4) = V 8 ! (i + 4)" "V 6 ! (i + 5) = V 8 ! (i + 5)"
    "V 7 ! (i + 6) = V 8 ! (i + 6)"
    by (rule nth; simp)+
  then show ?thesis
    unfolding s
    by (simp only: sha256_pads_ROT_def sha256_pads_def Let_def prod.case V) (simp split: prod.splits)
qed

lemma sha256_pads_ROT_rounds:
  assumes sch: "schedule_upto blk i W" and i: "16 \<le> i" "i + 8 \<le> 64"
  shows "\<exists>W'. sha256_pads_ROT i (s, W) = (fips256_rounds (fips256_W blk) i (i + 8) s, W')
    \<and> schedule_upto blk (i + 8) W'"
  using sha256_pads_ROT_pads [OF assms, of s] schedule_extend [OF assms]
  by (auto simp: fips256_rounds_def schedule_nth intro!: sha256_groups.pads_rounds)

lemma schedule_load:
  "64 \<le> length data \<Longrightarrow>
     schedule_upto (take 64 data) 16 (map (\<lambda>i. GET_UINT32_BE data (4 * i)) [0..<16] @ replicate 48 0)"
  by (auto simp: schedule_upto_def nth_append GET_UINT32_BE_eq fips256_W.simps drop_take min_def)

text \<open>From a schedule of 16 words on, eight groups are the 64 rounds of the standard.\<close>

lemma sha256_eight_groups:
  assumes "schedule_upto blk 16 W"
  shows "\<exists>W'. sha256_pads_ROT 56 (sha256_pads_ROT 48 (sha256_pads_ROT 40
      (sha256_pads_ROT 32 (sha256_pads_ROT 24 (sha256_pads_ROT 16
        (sha256_pads W 8 (sha256_pads W 0 s), W)))))) = (fips256_rounds (fips256_W blk) 0 64 s, W')"
proof -
  let ?R = "fips256_rounds (fips256_W blk)"
  have load: "sha256_pads W 8 (sha256_pads W 0 s) = ?R 0 16 s"
    using sha256_groups.pads_loop [of 2 W "fips256_W blk" s] assms
    by (simp add: schedule_nth fips256_rounds_def upt_rec)
  have ext: "\<exists>W'. sha256_pads_ROT i (?R 0 i s, V) = (?R 0 (i + 8) s, W') \<and> schedule_upto blk (i + 8) W'"
    if "schedule_upto blk i V" "16 \<le> i" "i + 8 \<le> 64" for i V
    using sha256_pads_ROT_rounds [OF that, of "?R 0 i s"]
    by (simp only: fips256_rounds_def fold_upt_split)
  obtain W1 where 1: "sha256_pads_ROT 16 (?R 0 16 s, W) = (?R 0 24 s, W1)" "schedule_upto blk 24 W1"
    using ext [OF assms] by auto
  obtain W2 where 2: "sha256_pads_ROT 24 (?R 0 24 s, W1) = (?R 0 32 s, W2)" "schedule_upto blk 32 W2"
    using ext [OF 1(2)] by auto
  obtain W3 where 3: "sha256_pads_ROT 32 (?R 0 32 s, W2) = (?R 0 40 s, W3)" "schedule_upto blk 40 W3"
    using ext [OF 2(2)] by auto
  obtain W4 where 4: "sha256_pads_ROT 40 (?R 0 40 s, W3) = (?R 0 48 s, W4)" "schedule_upto blk 48 W4"
    using ext [OF 3(2)] by auto
  obtain W5 where 5: "sha256_pads_ROT 48 (?R 0 48 s, W4) = (?R 0 56 s, W5)" "schedule_upto blk 56 W5"
    using ext [OF 4(2)] by auto
  obtain W6 where 6: "sha256_pads_ROT 56 (?R 0 56 s, W5) = (?R 0 64 s, W6)"
    using ext [OF 5(2)] by auto
  show ?thesis by (simp add: load 1 2 3 4 5 6)
qed

lemma sha256_load_eq:
  "[GET_UINT32_BE data 0, GET_UINT32_BE data 4, GET_UINT32_BE data 8,
    GET_UINT32_BE data 12, GET_UINT32_BE data 16, GET_UINT32_BE data 20,
    GET_UINT32_BE data 24, GET_UINT32_BE data 28, GET_UINT32_BE data 32,
    GET_UINT32_BE data 36, GET_UINT32_BE data 40, GET_UINT32_BE data 44,
    GET_UINT32_BE data 48, GET_UINT32_BE data 52, GET_UINT32_BE data 56,
    GET_UINT32_BE data 60] @ replicate 48 0 =
   map (\<lambda>i. GET_UINT32_BE data (4 * i)) [0..<16] @ replicate 48 (0 :: u32)"
  by (simp add: upt_rec)

lemma sha256_process_eq:
  "64 \<le> length data \<Longrightarrow>
     sha256_process ctx data = Some (chain_update (\<lambda>c. fips256_compress c (take 64 data)) ctx)"
proof -
  assume len: "64 \<le> length data"
  let ?s = "chain_regs (chain ctx)"
  let ?r = "fips256_rounds (fips256_W (take 64 data)) 0 64 ?s"
  obtain A B C D E F G H where r: "?r = (A, B, C, D, E, F, G, H)" by (rule tuple8_cases)
  show ?thesis
    using sha256_eight_groups [OF schedule_load [OF len], of ?s] len
    unfolding r
    by (auto simp add: sha256_process_def sha256_load_eq [simplified] Let_def chain_regs_def
        fips256_compress_def add_regs_def r [unfolded chain_regs_def])
qed

text \<open>Both variants of the source compute the same.\<close>

theorem sha256_process_variants: "sha256_process_min ctx data = sha256_process ctx data"
proof -
  have load: "fold (\<lambda>i W. W[i := GET_UINT32_BE data (4 * i)]) [0..<16] (replicate 64 0) =
      map (\<lambda>i. GET_UINT32_BE data (4 * i)) [0..<16] @ replicate 48 (0 :: u32)"
    by (simp add: upt_rec numeral_eq_Suc)
  have two: "fold f [0..<2] x = f 1 (f 0 x)" for f :: "nat \<Rightarrow> 'a \<Rightarrow> 'a" and x
    by (simp add: upt_rec)
  have six: "fold f [2..<8] x = f 7 (f 6 (f 5 (f 4 (f 3 (f 2 x)))))" for f :: "nat \<Rightarrow> 'a \<Rightarrow> 'a" and x
    by (simp add: upt_rec)
  show ?thesis
    unfolding sha256_process_min_def sha256_process_def load two six sha256_load_eq by simp
qed

subsection \<open>The code: the hash interface\<close>

definition sha256_padding :: bytes where
  "sha256_padding = 0x80 # replicate 63 0"

definition mbcrypt_sha256_init :: "sha256_ctx ptr \<Rightarrow> (mbcrypt_status_e \<times> sha256_ctx ptr) ub" where
  "mbcrypt_sha256_init ctx =
     (case ctx of
        None \<Rightarrow> Some (MBCRYPT_STATUS_FAIL_NULL_PTR, None)
      | Some _ \<Rightarrow> Some (MBCRYPT_STATUS_OK, Some \<lparr>
          total0 = 0, total1 = 0, buffer = replicate 64 0,
          chain = \<lparr>h0 = 0x6A09E667, h1 = 0xBB67AE85, h2 = 0x3C6EF372, h3 = 0xA54FF53A,
                   h4 = 0x510E527F, h5 = 0x9B05688C, h6 = 0x1F83D9AB, h7 = 0x5BE0CD19\<rparr>\<rparr>))"

text \<open>The loop \<open>while (data_len >= MBCRYPT_SHA256_BUFFER_SIZE)\<close> of the update.\<close>

function sha256_blocks :: "sha256_ctx \<Rightarrow> bytes \<Rightarrow> u32 \<Rightarrow> (sha256_ctx \<times> bytes \<times> u32) ub" where
  "sha256_blocks ctx data data_len =
     (if 64 \<le> data_len then do {
        ctx \<leftarrow> sha256_process ctx data;
        sha256_blocks ctx (drop 64 data) (data_len - 64)
      } else Some (ctx, data, data_len))"
  by pat_completeness auto
termination
  by (relation "measure (\<lambda>(ctx, data, n). unat n)")
    (auto simp: unat_sub_u32 word_le_nat_alt)

declare sha256_blocks.simps [simp del]

definition mbcrypt_sha256_update ::
    "sha256_ctx ptr \<Rightarrow> bytes ptr \<Rightarrow> u32 \<Rightarrow> (mbcrypt_status_e \<times> sha256_ctx ptr) ub" where
  "mbcrypt_sha256_update ctx data data_len =
     (case data of
        None \<Rightarrow> Some (MBCRYPT_STATUS_FAIL_NULL_PTR, ctx)
      | Some data \<Rightarrow>
        (case ctx of
           None \<Rightarrow> Some (MBCRYPT_STATUS_FAIL_NULL_PTR, None)
         | Some ctx \<Rightarrow>
           if data_len = 0 then Some (MBCRYPT_STATUS_OK, Some ctx)
           else
             let left = total0 ctx AND 0x3F;
                 fill = 64 - left;
                 ctx = ctx\<lparr>total0 := total0 ctx + data_len\<rparr>;
                 ctx = ctx\<lparr>total0 := total0 ctx AND 0xFFFFFFFF\<rparr>;
                 ctx = (if total0 ctx < data_len then ctx\<lparr>total1 := total1 ctx + 1\<rparr> else ctx)
             in do {
               (ctx, data, data_len, left) \<leftarrow>
                 (if left \<noteq> 0 \<and> fill \<le> data_len then do {
                    b \<leftarrow> memcpy_at (buffer ctx) (unat left) data (unat fill);
                    ctx \<leftarrow> sha256_process (ctx\<lparr>buffer := b\<rparr>) b;
                    Some (ctx, drop (unat fill) data, data_len - fill, 0)
                  } else Some (ctx, data, data_len, left));
               (ctx, data, data_len) \<leftarrow> sha256_blocks ctx data data_len;
               if 0 < data_len then do {
                 b \<leftarrow> memcpy_at (buffer ctx) (unat left) data (unat data_len);
                 Some (MBCRYPT_STATUS_OK, Some (ctx\<lparr>buffer := b\<rparr>))
               } else Some (MBCRYPT_STATUS_OK, Some ctx)
             }))"

text \<open>The digest written to \<open>out\<close>: eight \<open>PUT_UINT32_BE\<close>.\<close>

definition sha256_put_digest :: "sha256_chain \<Rightarrow> bytes \<Rightarrow> bytes ub" where
  "sha256_put_digest c out = do {
     out \<leftarrow> PUT_UINT32_BE (h0 c) out 0;
     out \<leftarrow> PUT_UINT32_BE (h1 c) out 4;
     out \<leftarrow> PUT_UINT32_BE (h2 c) out 8;
     out \<leftarrow> PUT_UINT32_BE (h3 c) out 12;
     out \<leftarrow> PUT_UINT32_BE (h4 c) out 16;
     out \<leftarrow> PUT_UINT32_BE (h5 c) out 20;
     out \<leftarrow> PUT_UINT32_BE (h6 c) out 24;
     PUT_UINT32_BE (h7 c) out 28
   }"

definition mbcrypt_sha256_final ::
    "sha256_ctx ptr \<Rightarrow> bytes ptr \<Rightarrow> (mbcrypt_status_e \<times> sha256_ctx ptr \<times> bytes ptr) ub" where
  "mbcrypt_sha256_final ctx out =
     (case ctx of
        None \<Rightarrow> Some (MBCRYPT_STATUS_FAIL_NULL_PTR, None, out)
      | Some ctx \<Rightarrow>
        (case out of
           None \<Rightarrow> Some (MBCRYPT_STATUS_FAIL_NULL_PTR, Some ctx, None)
         | Some out \<Rightarrow>
           let high = drop_bit 29 (total0 ctx) OR push_bit 3 (total1 ctx);
               low = push_bit 3 (total0 ctx);
               last = total0 ctx AND 0x3F;
               padn = (if last < 56 then 56 - last else 120 - last)
           in do {
             msglen \<leftarrow> PUT_UINT32_BE high (replicate 8 0) 0;
             msglen \<leftarrow> PUT_UINT32_BE low msglen 4;
             (st, ctx) \<leftarrow> mbcrypt_sha256_update (Some ctx) (Some sha256_padding) padn;
             if st \<noteq> MBCRYPT_STATUS_OK then Some (st, ctx, Some out) else do {
               (st, ctx) \<leftarrow> mbcrypt_sha256_update ctx (Some msglen) 8;
               if st \<noteq> MBCRYPT_STATUS_OK then Some (st, ctx, Some out) else do {
                 ctx \<leftarrow> ctx;
                 out \<leftarrow> sha256_put_digest (chain ctx) out;
                 Some (MBCRYPT_STATUS_OK, Some ctx, Some out)
               }
             }
           }))"

text \<open>
  The one-call interface. Its local context \<open>ctx0\<close> is uninitialised storage, so the model takes
  any value for it; the initialisation overwrites every field.
\<close>

definition mbcrypt_sha256 ::
    "sha256_ctx \<Rightarrow> bytes ptr \<Rightarrow> u32 \<Rightarrow> bytes ptr \<Rightarrow> (mbcrypt_status_e \<times> bytes ptr) ub" where
  "mbcrypt_sha256 ctx0 data data_len out = do {
     (st, ctx) \<leftarrow> mbcrypt_sha256_init (Some ctx0);
     if st \<noteq> MBCRYPT_STATUS_OK then Some (st, out) else do {
       (st, ctx) \<leftarrow> mbcrypt_sha256_update ctx data data_len;
       if st \<noteq> MBCRYPT_STATUS_OK then Some (st, out) else do {
         (st, ctx, out) \<leftarrow> mbcrypt_sha256_final ctx out;
         Some (st, out)
       }
     }
   }"

subsection \<open>The streaming contract, discharged by the code\<close>

interpretation sha256_stream: hash_stream 64 fips256_compress fips256_iv
    sha256_process sha256_blocks mbcrypt_sha256_update
proof unfold_locales
  show "(64 :: nat) = 64 \<or> (64 :: nat) = 128" by simp
  show "sha256_process c d = Some (chain_update (\<lambda>h. fips256_compress h (take 64 d)) c)"
    if "64 \<le> length d" for c d
    using that by (rule sha256_process_eq)
  show "sha256_blocks c d n = (if of_nat 64 \<le> n then sha256_process c d \<bind>
      (\<lambda>c. sha256_blocks c (drop 64 d) (n - of_nat 64)) else Some (c, d, n))" for c d n
    by (subst sha256_blocks.simps) simp
qed (simp_all add: mbcrypt_sha256_update_def and_all_ones_u32 Let_def)

subsection \<open>The hash contract\<close>

abbreviation sha256_holds :: "sha256_ctx \<Rightarrow> bytes \<Rightarrow> bool" where
  "sha256_holds \<equiv> absorbed 64 fips256_compress fips256_iv"

lemma sha256_put_digest_eq:
  "32 \<le> length out \<Longrightarrow> sha256_put_digest c out = Some (fips256_digest c @ drop 32 out)"
  by (simp add: sha256_put_digest_def PUT_UINT32_BE_eq fips256_digest_def)

lemma sha256_init_holds:
  "\<exists>c'. mbcrypt_sha256_init (Some c) = Some (MBCRYPT_STATUS_OK, Some c') \<and> sha256_holds c' []"
  by (simp add: mbcrypt_sha256_init_def absorbed_def stream_state_def total_state_def
      chunks_short tailpart_def fips256_iv_def)

lemma sha256_final_digest:
  assumes "sha256_holds c m" and "32 \<le> length out"
  shows "\<exists>c'. mbcrypt_sha256_final (Some c) (Some out) =
    Some (MBCRYPT_STATUS_OK, Some c', Some (fips_sha256 m @ drop 32 out))"
proof -
  let ?lf = "be_bytes 8 (8 * length m)"
  have tot: "total_state c (length m)" using assms(1) by (simp add: absorbed_def)
  obtain c1 c2 where "mbcrypt_sha256_update (Some c) (Some sha256_padding)
        (if total0 c AND 63 < 56 then 56 - (total0 c AND 63) else 120 - (total0 c AND 63)) =
        Some (MBCRYPT_STATUS_OK, Some c1)"
      "mbcrypt_sha256_update (Some c1) (Some ?lf) 8 = Some (MBCRYPT_STATUS_OK, Some c2)"
      "chain c2 = foldl fips256_compress fips256_iv (chunks 64 (hash_pad 64 ?lf m))"
    using sha256_stream.final_updates [OF assms(1), of ?lf 56 120 sha256_padding 63]
    by (auto simp: sha256_padding_def)
  then show ?thesis
    using assms(2) length_field_64 [OF tot]
    by (simp add: mbcrypt_sha256_final_def PUT_UINT32_BE_eq sha256_put_digest_eq fips_sha256_def
        Let_def)
qed

interpretation sha256: hash_api mbcrypt_sha256_init mbcrypt_sha256_update mbcrypt_sha256_final
    sha256_holds fips_sha256 32 "\<lambda>n. n < 2 ^ 61"
  using sha256_init_holds sha256_stream.update_absorbs sha256_final_digest
  by unfold_locales simp_all

lemma mbcrypt_sha256_once:
  "mbcrypt_sha256 = hash_once mbcrypt_sha256_init mbcrypt_sha256_update mbcrypt_sha256_final"
  by (simp add: fun_eq_iff mbcrypt_sha256_def hash_once_def)

subsection \<open>Properties\<close>

text \<open>
  C1. SHA-256 is right: for every buffer and every length that it holds, \<open>mbcrypt_sha256\<close>
  returns \<open>MBCRYPT_STATUS_OK\<close> and writes the digest that FIPS 180-4 defines for those bytes to
  the first 32 bytes of \<open>out\<close>, and nothing else, whatever the local context held.
\<close>

theorem sha256_digest:
  assumes "unat n \<le> length d" and "32 \<le> length out"
  shows "mbcrypt_sha256 ctx0 (Some d) n (Some out) =
    Some (MBCRYPT_STATUS_OK, Some (fips_sha256 (take (unat n) d) @ drop 32 out))"
  using sha256.once_digest [of n d out ctx0] assms unat_u32_lt [of n]
  by (simp add: mbcrypt_sha256_once)

definition sha256_any_ctx :: sha256_ctx where
  "sha256_any_ctx = \<lparr>total0 = 7, total1 = 9, buffer = replicate 64 0xAA, chain = fips256_iv\<rparr>"

theorem sha256_digest_witness:
  "mbcrypt_sha256 sha256_any_ctx (Some [0x61, 0x62, 0x63]) 3 (Some (replicate 40 0)) =
     Some (MBCRYPT_STATUS_OK, Some (fips_sha256 [0x61, 0x62, 0x63] @ replicate 8 0))"
  using sha256_digest [of 3 "[0x61, 0x62, 0x63]" "replicate 40 0" sha256_any_ctx] by simp

text \<open>
  C6. The streaming interface of SHA-256 does not depend on how the message is cut: initialise,
  feed the pieces in order, finish, and the digest is that of their concatenation, for messages
  up to the standard's limit of \<open>2\<^sup>6\<^sup>4 - 1\<close> bits.
\<close>

theorem sha256_in_pieces:
  assumes "\<forall>p \<in> set ps. length p < 4294967296" and "length (concat ps) < 2 ^ 61"
    and "32 \<le> length out"
  shows "\<exists>c1 c2 c3. mbcrypt_sha256_init (Some c) = Some (MBCRYPT_STATUS_OK, Some c1)
    \<and> feed mbcrypt_sha256_update c1 ps = Some (MBCRYPT_STATUS_OK, Some c2)
    \<and> mbcrypt_sha256_final (Some c2) (Some out) =
        Some (MBCRYPT_STATUS_OK, Some c3, Some (fips_sha256 (concat ps) @ drop 32 out))"
  by (rule sha256.pieces_digest [OF assms])

theorem sha256_in_pieces_witness:
  "\<exists>c1 c2 c3. mbcrypt_sha256_init (Some sha256_any_ctx) = Some (MBCRYPT_STATUS_OK, Some c1)
    \<and> feed mbcrypt_sha256_update c1 [[0x61], [], [0x62, 0x63]] = Some (MBCRYPT_STATUS_OK, Some c2)
    \<and> mbcrypt_sha256_final (Some c2) (Some (replicate 32 0)) =
        Some (MBCRYPT_STATUS_OK, Some c3, Some (fips_sha256 [0x61, 0x62, 0x63]))"
  using sha256_in_pieces [of "[[0x61], [], [0x62, 0x63]]" "replicate 32 0" sha256_any_ctx] by simp

text \<open>
  C8. Both variants of \<open>sha256_process\<close>, the unrolled one and the one for small code, are the
  compression function of the standard on the first 64 bytes at \<open>data\<close>, and change only the
  chaining value.
\<close>

theorem sha256_process_compresses:
  assumes "64 \<le> length data"
  shows "sha256_process ctx data =
      Some (ctx\<lparr>chain := fips256_compress (chain ctx) (take 64 data)\<rparr>)
    \<and> sha256_process_min ctx data = sha256_process ctx data"
  using sha256_process_eq [OF assms] sha256_process_variants by simp

theorem sha256_process_compresses_witness:
  "sha256_process sha256_any_ctx (replicate 64 0) =
      Some (sha256_any_ctx\<lparr>chain := fips256_compress (chain sha256_any_ctx) (replicate 64 0)\<rparr>)
    \<and> sha256_process_min sha256_any_ctx (replicate 64 0) = sha256_process sha256_any_ctx (replicate 64 0)"
  using sha256_process_compresses [of "replicate 64 0" sha256_any_ctx] by simp

end
