(* ===== verification/Sha512.thy ===== *)
theory Sha512
  imports Sha2
begin

text \<open>
  SHA-512, \<open>src/sha512.c\<close> and \<open>includes/sha512.h\<close>: the standard's algorithm (FIPS 180-4,
  functions \<open>fips512_*\<close>), the macros, both variants of \<open>_sha512_process\<close>, and the hash
  interface. The block is 128 bytes and the words have 64 bits, but the byte counter
  \<open>total[2]\<close> of the struct has 32-bit words, and \<open>mbcrypt_sha512_final\<close> shifts \<open>total[0]\<close> right
  by 61, which is undefined for a 32-bit operand. The compression function and the updates are
  right; no digest is ever defined.
\<close>

subsection \<open>The standard\<close>

type_synonym regs512 = "64 regs8"

record sha512_chain =
  h0 :: u64
  h1 :: u64
  h2 :: u64
  h3 :: u64
  h4 :: u64
  h5 :: u64
  h6 :: u64
  h7 :: u64

definition sha512_K :: "u64 list" where
  "sha512_K =
    [0x428A2F98D728AE22, 0x7137449123EF65CD,
     0xB5C0FBCFEC4D3B2F, 0xE9B5DBA58189DBBC,
     0x3956C25BF348B538, 0x59F111F1B605D019,
     0x923F82A4AF194F9B, 0xAB1C5ED5DA6D8118,
     0xD807AA98A3030242, 0x12835B0145706FBE,
     0x243185BE4EE4B28C, 0x550C7DC3D5FFB4E2,
     0x72BE5D74F27B896F, 0x80DEB1FE3B1696B1,
     0x9BDC06A725C71235, 0xC19BF174CF692694,
     0xE49B69C19EF14AD2, 0xEFBE4786384F25E3,
     0x0FC19DC68B8CD5B5, 0x240CA1CC77AC9C65,
     0x2DE92C6F592B0275, 0x4A7484AA6EA6E483,
     0x5CB0A9DCBD41FBD4, 0x76F988DA831153B5,
     0x983E5152EE66DFAB, 0xA831C66D2DB43210,
     0xB00327C898FB213F, 0xBF597FC7BEEF0EE4,
     0xC6E00BF33DA88FC2, 0xD5A79147930AA725,
     0x06CA6351E003826F, 0x142929670A0E6E70,
     0x27B70A8546D22FFC, 0x2E1B21385C26C926,
     0x4D2C6DFC5AC42AED, 0x53380D139D95B3DF,
     0x650A73548BAF63DE, 0x766A0ABB3C77B2A8,
     0x81C2C92E47EDAEE6, 0x92722C851482353B,
     0xA2BFE8A14CF10364, 0xA81A664BBC423001,
     0xC24B8B70D0F89791, 0xC76C51A30654BE30,
     0xD192E819D6EF5218, 0xD69906245565A910,
     0xF40E35855771202A, 0x106AA07032BBD1B8,
     0x19A4C116B8D2D0C8, 0x1E376C085141AB53,
     0x2748774CDF8EEB99, 0x34B0BCB5E19B48A8,
     0x391C0CB3C5C95A63, 0x4ED8AA4AE3418ACB,
     0x5B9CCA4F7763E373, 0x682E6FF3D6B2B8A3,
     0x748F82EE5DEFB2FC, 0x78A5636F43172F60,
     0x84C87814A1F0AB72, 0x8CC702081A6439EC,
     0x90BEFFFA23631E28, 0xA4506CEBDE82BDE9,
     0xBEF9A3F7B2C67915, 0xC67178F2E372532B,
     0xCA273ECEEA26619C, 0xD186B8C721C0C207,
     0xEADA7DD6CDE0EB1E, 0xF57D4F7FEE6ED178,
     0x06F067AA72176FBA, 0x0A637DC5A2C898A6,
     0x113F9804BEF90DAE, 0x1B710B35131C471B,
     0x28DB77F523047D84, 0x32CAAB7B40C72493,
     0x3C9EBE0A15C9BEBC, 0x431D67C49C100D4C,
     0x4CC5D4BECB3E42B6, 0x597F299CFC657E2A,
     0x5FCB6FAB3AD6FAEC, 0x6C44198C4A475817]"

definition fips512_Ch :: "u64 \<Rightarrow> u64 \<Rightarrow> u64 \<Rightarrow> u64" where
  "fips512_Ch x y z = (x AND y) XOR (NOT x AND z)"

definition fips512_Maj :: "u64 \<Rightarrow> u64 \<Rightarrow> u64 \<Rightarrow> u64" where
  "fips512_Maj x y z = (x AND y) XOR (x AND z) XOR (y AND z)"

definition fips512_Sigma0 :: "u64 \<Rightarrow> u64" where
  "fips512_Sigma0 x = word_rotr 28 x XOR word_rotr 34 x XOR word_rotr 39 x"

definition fips512_Sigma1 :: "u64 \<Rightarrow> u64" where
  "fips512_Sigma1 x = word_rotr 14 x XOR word_rotr 18 x XOR word_rotr 41 x"

definition fips512_sigma0 :: "u64 \<Rightarrow> u64" where
  "fips512_sigma0 x = word_rotr 1 x XOR word_rotr 8 x XOR drop_bit 7 x"

definition fips512_sigma1 :: "u64 \<Rightarrow> u64" where
  "fips512_sigma1 x = word_rotr 19 x XOR word_rotr 61 x XOR drop_bit 6 x"

text \<open>The message schedule of a block.\<close>

fun fips512_W :: "bytes \<Rightarrow> nat \<Rightarrow> u64" where
  "fips512_W blk t =
     (if t < 16 then be_word (take 8 (drop (8 * t) blk))
      else fips512_sigma1 (fips512_W blk (t - 2)) + fips512_W blk (t - 7)
           + fips512_sigma0 (fips512_W blk (t - 15)) + fips512_W blk (t - 16))"

declare fips512_W.simps [simp del]

definition fips512_round :: "u64 \<Rightarrow> u64 \<Rightarrow> regs512 \<Rightarrow> regs512" where
  "fips512_round w k = (\<lambda>(a, b, c, d, e, f, g, h).
     let T1 = h + fips512_Sigma1 e + fips512_Ch e f g + k + w;
         T2 = fips512_Sigma0 a + fips512_Maj a b c
     in (T1 + T2, a, b, c, d + T1, e, f, g))"

abbreviation fips512_rounds :: "(nat \<Rightarrow> u64) \<Rightarrow> nat \<Rightarrow> nat \<Rightarrow> regs512 \<Rightarrow> regs512" where
  "fips512_rounds w i j \<equiv> fold (\<lambda>t. fips512_round (w t) (sha512_K ! t)) [i..<j]"

definition chain_regs :: "sha512_chain \<Rightarrow> regs512" where
  "chain_regs c = (h0 c, h1 c, h2 c, h3 c, h4 c, h5 c, h6 c, h7 c)"

definition add_regs :: "sha512_chain \<Rightarrow> regs512 \<Rightarrow> sha512_chain" where
  "add_regs c = (\<lambda>(A, B, C, D, E, F, G, H).
     c\<lparr>h0 := h0 c + A, h1 := h1 c + B, h2 := h2 c + C, h3 := h3 c + D,
       h4 := h4 c + E, h5 := h5 c + F, h6 := h6 c + G, h7 := h7 c + H\<rparr>)"

definition fips512_compress :: "sha512_chain \<Rightarrow> bytes \<Rightarrow> sha512_chain" where
  "fips512_compress c blk = add_regs c (fips512_rounds (fips512_W blk) 0 80 (chain_regs c))"

definition fips512_iv :: sha512_chain where
  "fips512_iv = \<lparr>h0 = 0x6A09E667F3BCC908, h1 = 0xBB67AE8584CAA73B, h2 = 0x3C6EF372FE94F82B,
     h3 = 0xA54FF53A5F1D36F1, h4 = 0x510E527FADE682D1, h5 = 0x9B05688C2B3E6C1F,
     h6 = 0x1F83D9ABFB41BD6B, h7 = 0x5BE0CD19137E2179\<rparr>"

definition fips512_digest :: "sha512_chain \<Rightarrow> bytes" where
  "fips512_digest c = concat (map (\<lambda>h. be_bytes 8 (unat h))
     [h0 c, h1 c, h2 c, h3 c, h4 c, h5 c, h6 c, h7 c])"

definition fips_sha512 :: "bytes \<Rightarrow> bytes" where
  "fips_sha512 m = fips512_digest
     (foldl fips512_compress fips512_iv
       (chunks 128 (hash_pad 128 (be_bytes 16 (8 * length m)) m)))"

lemma length_fips_sha512 [simp]: "length (fips_sha512 m) = 64"
  by (simp add: fips_sha512_def fips512_digest_def)

subsection \<open>The code: macros and \<open>_sha512_process\<close>\<close>

definition sha512_SHIFT_RIGHT :: "u64 \<Rightarrow> nat \<Rightarrow> u64" where
  "sha512_SHIFT_RIGHT x n = drop_bit n x"

definition sha512_ROT_RIGHT :: "u64 \<Rightarrow> nat \<Rightarrow> u64" where
  "sha512_ROT_RIGHT x n = sha512_SHIFT_RIGHT x n OR push_bit (64 - n) x"

definition sha512_SUB0 :: "u64 \<Rightarrow> u64" where
  "sha512_SUB0 x = sha512_ROT_RIGHT x 1 XOR sha512_ROT_RIGHT x 8 XOR sha512_SHIFT_RIGHT x 7"

definition sha512_SUB1 :: "u64 \<Rightarrow> u64" where
  "sha512_SUB1 x = sha512_ROT_RIGHT x 19 XOR sha512_ROT_RIGHT x 61 XOR sha512_SHIFT_RIGHT x 6"

definition sha512_SUB2 :: "u64 \<Rightarrow> u64" where
  "sha512_SUB2 x = sha512_ROT_RIGHT x 28 XOR sha512_ROT_RIGHT x 34 XOR sha512_ROT_RIGHT x 39"

definition sha512_SUB3 :: "u64 \<Rightarrow> u64" where
  "sha512_SUB3 x = sha512_ROT_RIGHT x 14 XOR sha512_ROT_RIGHT x 18 XOR sha512_ROT_RIGHT x 41"

definition sha512_F0 :: "u64 \<Rightarrow> u64 \<Rightarrow> u64 \<Rightarrow> u64" where
  "sha512_F0 x y z = (x AND y) OR (z AND (x OR y))"

definition sha512_F1 :: "u64 \<Rightarrow> u64 \<Rightarrow> u64 \<Rightarrow> u64" where
  "sha512_F1 x y z = z XOR (x AND (y XOR z))"

text \<open>The array \<open>W\<close> after the assignment of \<open>TMP_BLOC_K\<close> at index \<open>i\<close>.\<close>

definition sha512_extend :: "u64 list \<Rightarrow> nat \<Rightarrow> u64 list" where
  "sha512_extend W i = W[i := sha512_SUB1 (W ! (i - 2)) + W ! (i - 7)
                              + sha512_SUB0 (W ! (i - 15)) + W ! (i - 16)]"

text \<open>The new values of \<open>d\<close> and \<open>h\<close>, the two variables that \<open>PAD\<close> assigns.\<close>

definition sha512_PAD ::
    "u64 \<Rightarrow> u64 \<Rightarrow> u64 \<Rightarrow> u64 \<Rightarrow> u64 \<Rightarrow> u64 \<Rightarrow> u64 \<Rightarrow> u64 \<Rightarrow> u64 \<Rightarrow> u64 \<Rightarrow> u64 \<times> u64" where
  "sha512_PAD a b c d e f g h x k =
     (let tmp1 = h + sha512_SUB3 e + sha512_F1 e f g + k + x;
          tmp2 = sha512_SUB2 a + sha512_F0 a b c
      in (d + tmp1, tmp1 + tmp2))"

text \<open>The body of the \<open>do\<close> loop, entered with the index \<open>i\<close>.\<close>

definition sha512_pads :: "u64 list \<Rightarrow> nat \<Rightarrow> regs512 \<Rightarrow> regs512" where
  "sha512_pads W i = (\<lambda>(A, B, C, D, E, F, G, H).
     let (D, H) = sha512_PAD A B C D E F G H (W ! (i + 0)) (sha512_K ! (i + 0));
         (C, G) = sha512_PAD H A B C D E F G (W ! (i + 1)) (sha512_K ! (i + 1));
         (B, F) = sha512_PAD G H A B C D E F (W ! (i + 2)) (sha512_K ! (i + 2));
         (A, E) = sha512_PAD F G H A B C D E (W ! (i + 3)) (sha512_K ! (i + 3));
         (H, D) = sha512_PAD E F G H A B C D (W ! (i + 4)) (sha512_K ! (i + 4));
         (G, C) = sha512_PAD D E F G H A B C (W ! (i + 5)) (sha512_K ! (i + 5));
         (F, B) = sha512_PAD C D E F G H A B (W ! (i + 6)) (sha512_K ! (i + 6));
         (E, A) = sha512_PAD B C D E F G H A (W ! (i + 7)) (sha512_K ! (i + 7))
     in (A, B, C, D, E, F, G, H))"

text \<open>The loop \<open>do ... while (i < 80)\<close>.\<close>

function sha512_loop :: "u64 list \<Rightarrow> nat \<Rightarrow> regs512 \<Rightarrow> regs512" where
  "sha512_loop W i s =
     (let s = sha512_pads W i s; i = i + 8
      in if i < 80 then sha512_loop W i s else s)"
  by pat_completeness auto
termination by (relation "measure (\<lambda>(W, i, s). 80 - i)") auto

declare sha512_loop.simps [simp del]

text \<open>The loop \<open>while (i < 80)\<close> of eight \<open>TMP_BLOC_K\<close>.\<close>

function sha512_schedule :: "u64 list \<Rightarrow> nat \<Rightarrow> u64 list" where
  "sha512_schedule W i =
     (if i < 80 then
        let W = sha512_extend W (i + 0);
            W = sha512_extend W (i + 1);
            W = sha512_extend W (i + 2);
            W = sha512_extend W (i + 3);
            W = sha512_extend W (i + 4);
            W = sha512_extend W (i + 5);
            W = sha512_extend W (i + 6);
            W = sha512_extend W (i + 7)
        in sha512_schedule W (i + 8)
      else W)"
  by pat_completeness auto
termination by (relation "measure (\<lambda>(W, i). 80 - i)") auto

declare sha512_schedule.simps [simp del]

type_synonym sha512_ctx = "sha512_chain hash_ctx"

text \<open>
  \<open>_sha512_process\<close> reads the 128 bytes at \<open>data\<close>. The words of \<open>W\<close> that the load does not set
  are uninitialised in C; the schedule sets each before it is read, and the model starts them
  at 0.
\<close>

definition sha512_process :: "sha512_ctx \<Rightarrow> bytes \<Rightarrow> sha512_ctx ub" where
  "sha512_process ctx data =
     (if length data < 128 then None
      else
        let c = chain ctx;
            s = (h0 c, h1 c, h2 c, h3 c, h4 c, h5 c, h6 c, h7 c);
            W = [GET_UINT64_BE data 0, GET_UINT64_BE data 8, GET_UINT64_BE data 16,
                 GET_UINT64_BE data 24, GET_UINT64_BE data 32, GET_UINT64_BE data 40,
                 GET_UINT64_BE data 48, GET_UINT64_BE data 56, GET_UINT64_BE data 64,
                 GET_UINT64_BE data 72, GET_UINT64_BE data 80, GET_UINT64_BE data 88,
                 GET_UINT64_BE data 96, GET_UINT64_BE data 104, GET_UINT64_BE data 112,
                 GET_UINT64_BE data 120] @ replicate 64 0;
            W = sha512_schedule W 16;
            (A, B, C, D, E, F, G, H) = sha512_loop W 0 s
        in Some (ctx\<lparr>chain := c\<lparr>h0 := h0 c + A, h1 := h1 c + B, h2 := h2 c + C, h3 := h3 c + D,
             h4 := h4 c + E, h5 := h5 c + F, h6 := h6 c + G, h7 := h7 c + H\<rparr>\<rparr>))"

text \<open>The variant under \<open>SHA512_MIN_SIZE\<close>, which loads and extends the schedule in loops.\<close>

definition sha512_process_min :: "sha512_ctx \<Rightarrow> bytes \<Rightarrow> sha512_ctx ub" where
  "sha512_process_min ctx data =
     (if length data < 128 then None
      else
        let c = chain ctx;
            s = (h0 c, h1 c, h2 c, h3 c, h4 c, h5 c, h6 c, h7 c);
            W = fold (\<lambda>i W. W[i := GET_UINT64_BE data (8 * i)]) [0..<16] (replicate 80 0);
            W = fold (\<lambda>i W. sha512_extend W i) [16..<80] W;
            (A, B, C, D, E, F, G, H) = sha512_loop W 0 s
        in Some (ctx\<lparr>chain := c\<lparr>h0 := h0 c + A, h1 := h1 c + B, h2 := h2 c + C, h3 := h3 c + D,
             h4 := h4 c + E, h5 := h5 c + F, h6 := h6 c + G, h7 := h7 c + H\<rparr>\<rparr>))"

subsection \<open>The compression function of the code is the standard's\<close>

lemma sha512_ROT_RIGHT_eq: "n < 64 \<Longrightarrow> sha512_ROT_RIGHT x n = word_rotr n x"
  using shifts_rotr [of n x] by (simp add: sha512_ROT_RIGHT_def sha512_SHIFT_RIGHT_def)

lemmas sha512_macros =
  sha512_SUB0_def sha512_SUB1_def sha512_SUB2_def sha512_SUB3_def sha512_F0_def sha512_F1_def
  fips512_sigma0_def fips512_sigma1_def fips512_Sigma0_def fips512_Sigma1_def
  fips512_Ch_def fips512_Maj_def

lemma sha512_macros_eq:
  "sha512_SUB0 = fips512_sigma0" "sha512_SUB1 = fips512_sigma1"
  "sha512_SUB2 = fips512_Sigma0" "sha512_SUB3 = fips512_Sigma1"
  "sha512_F0 = fips512_Maj" "sha512_F1 = fips512_Ch"
  by (simp_all add: fun_eq_iff sha512_macros sha512_ROT_RIGHT_eq sha512_SHIFT_RIGHT_def
      choice_eq majority_eq)

lemma sha512_PAD_round:
  "sha512_PAD a b c d e f g h x k = (d', h') \<Longrightarrow>
     fips512_round x k (a, b, c, d, e, f, g, h) = (h', a, b, c, d', e, f, g)"
  by (auto simp: sha512_PAD_def fips512_round_def sha512_macros_eq Let_def)

interpretation sha512_groups: sha2_rounds sha512_PAD sha512_K fips512_round sha512_pads
  by unfold_locales (simp_all only: sha512_PAD_round sha512_pads_def prod.case)

lemma sha512_loop_rounds:
  assumes "\<forall>t < 80. W ! t = w t" and "i + 8 * Suc n = 80"
  shows "sha512_loop W i s = fips512_rounds w i 80 s"
  using assms(2)
proof (induction n arbitrary: i s)
  case 0
  then have "sha512_loop W i s = sha512_pads W i s" by (subst sha512_loop.simps) (simp add: Let_def)
  also have "\<dots> = fips512_rounds w i (i + 8) s"
    using 0 assms(1) by (intro sha512_groups.pads_rounds) simp
  finally show ?case using 0 by simp
next
  case (Suc n)
  have "sha512_loop W i s = sha512_loop W (i + 8) (sha512_pads W i s)"
    using Suc.prems by (subst sha512_loop.simps) (simp add: Let_def)
  also have "\<dots> = fips512_rounds w (i + 8) 80 (sha512_pads W i s)"
    using Suc by simp
  also have "sha512_pads W i s = fips512_rounds w i (i + 8) s"
    using Suc.prems assms(1) by (intro sha512_groups.pads_rounds) simp
  finally show ?case using Suc.prems by (simp add: fold_upt_split)
qed

text \<open>The array \<open>W\<close> holds the message schedule up to \<open>n\<close>.\<close>

definition schedule_upto :: "bytes \<Rightarrow> nat \<Rightarrow> u64 list \<Rightarrow> bool" where
  "schedule_upto blk n W \<longleftrightarrow> length W = 80 \<and> (\<forall>t < n. W ! t = fips512_W blk t)"

lemma schedule512_step:
  assumes "schedule_upto blk n W" and "16 \<le> n" "n < 80"
  shows "schedule_upto blk (Suc n) (sha512_extend W n)"
proof -
  have "W ! (n - k) = fips512_W blk (n - k)" if "0 < k" "k \<le> 16" for k
    using assms that by (simp add: schedule_upto_def)
  then have "sha512_extend W n = W[n := fips512_W blk n]"
    using assms(2) by (subst fips512_W.simps) (simp add: sha512_extend_def sha512_macros_eq)
  then show ?thesis using assms by (auto simp: schedule_upto_def less_Suc_eq nth_list_update)
qed

lemma schedule512_extend:
  assumes "schedule_upto blk n W" and "16 \<le> n" "n + k \<le> 80"
  shows "schedule_upto blk (n + k) (fold (\<lambda>i W. sha512_extend W i) [n..<n + k] W)"
  using assms(3)
proof (induction k)
  case (Suc k)
  then show ?case
    using schedule512_step [of blk "n + k" "fold (\<lambda>i W. sha512_extend W i) [n..<n + k] W"] assms(2)
    by simp
qed (simp add: assms(1))

lemma sha512_schedule_fold:
  "i + 8 * n = 80 \<Longrightarrow> sha512_schedule W i = fold (\<lambda>i W. sha512_extend W i) [i..<80] W"
proof (induction n arbitrary: i W)
  case 0
  then show ?case by (subst sha512_schedule.simps) simp
next
  case (Suc n)
  have "sha512_schedule W i =
      sha512_schedule (fold (\<lambda>i W. sha512_extend W i) [i..<i + 8] W) (i + 8)"
    using Suc.prems by (subst sha512_schedule.simps) (simp add: fold_upt_8 Let_def)
  then show ?case using Suc by (simp add: fold_upt_split)
qed

lemma sha512_load_eq:
  "[GET_UINT64_BE data 0, GET_UINT64_BE data 8, GET_UINT64_BE data 16,
    GET_UINT64_BE data 24, GET_UINT64_BE data 32, GET_UINT64_BE data 40,
    GET_UINT64_BE data 48, GET_UINT64_BE data 56, GET_UINT64_BE data 64,
    GET_UINT64_BE data 72, GET_UINT64_BE data 80, GET_UINT64_BE data 88,
    GET_UINT64_BE data 96, GET_UINT64_BE data 104, GET_UINT64_BE data 112,
    GET_UINT64_BE data 120] @ replicate 64 0 =
   map (\<lambda>i. GET_UINT64_BE data (8 * i)) [0..<16] @ replicate 64 (0 :: u64)"
  by (simp add: upt_rec)

lemma schedule512_load:
  "128 \<le> length data \<Longrightarrow>
     schedule_upto (take 128 data) 16 (map (\<lambda>i. GET_UINT64_BE data (8 * i)) [0..<16] @ replicate 64 0)"
  by (auto simp: schedule_upto_def nth_append GET_UINT64_BE_eq fips512_W.simps drop_take min_def)

lemma sha512_process_eq:
  assumes len: "128 \<le> length data"
  shows "sha512_process ctx data = Some (chain_update (\<lambda>c. fips512_compress c (take 128 data)) ctx)"
proof -
  define W where "W = map (\<lambda>i. GET_UINT64_BE data (8 * i)) [0..<16] @ replicate 64 (0 :: u64)"
  define V where "V = sha512_schedule W 16"
  have "schedule_upto (take 128 data) 80 V"
    using schedule512_extend [OF schedule512_load [OF len, folded W_def], of 64]
      sha512_schedule_fold [of 16 8 W] by (simp add: V_def)
  then have "sha512_loop V 0 s = fips512_rounds (fips512_W (take 128 data)) 0 80 s" for s
    by (intro sha512_loop_rounds [of _ _ _ 9]) (simp_all add: schedule_upto_def)
  then have "sha512_process ctx data = Some (ctx\<lparr>chain := add_regs (chain ctx)
      (fips512_rounds (fips512_W (take 128 data)) 0 80 (chain_regs (chain ctx)))\<rparr>)"
    using len
    by (simp only: sha512_process_def sha512_load_eq Let_def W_def [symmetric] V_def [symmetric])
      (simp add: add_regs_def chain_regs_def split: prod.splits)
  then show ?thesis by (simp add: fips512_compress_def)
qed

text \<open>Both variants of the source compute the same.\<close>

theorem sha512_process_variants: "sha512_process_min ctx data = sha512_process ctx data"
proof -
  have "fold (\<lambda>i W. W[i := GET_UINT64_BE data (8 * i)]) [0..<16] (replicate 80 (0 :: u64)) =
      map (\<lambda>i. GET_UINT64_BE data (8 * i)) [0..<16] @ replicate 64 0"
    by (simp add: upt_rec numeral_eq_Suc)
  then show ?thesis
    using sha512_schedule_fold [of 16 8]
    by (simp only: sha512_process_min_def sha512_process_def sha512_load_eq Let_def)
qed

subsection \<open>The code: the hash interface\<close>

definition sha512_padding :: bytes where
  "sha512_padding = 0x80 # replicate 127 0"

definition mbcrypt_sha512_init :: "sha512_ctx ptr \<Rightarrow> (mbcrypt_status_e \<times> sha512_ctx ptr) ub" where
  "mbcrypt_sha512_init ctx =
     (case ctx of
        None \<Rightarrow> Some (MBCRYPT_STATUS_FAIL_NULL_PTR, None)
      | Some _ \<Rightarrow> Some (MBCRYPT_STATUS_OK, Some \<lparr>
          total0 = 0, total1 = 0, buffer = replicate 128 0,
          chain = \<lparr>h0 = 0x6A09E667F3BCC908, h1 = 0xBB67AE8584CAA73B, h2 = 0x3C6EF372FE94F82B,
                   h3 = 0xA54FF53A5F1D36F1, h4 = 0x510E527FADE682D1, h5 = 0x9B05688C2B3E6C1F,
                   h6 = 0x1F83D9ABFB41BD6B, h7 = 0x5BE0CD19137E2179\<rparr>\<rparr>))"

text \<open>The loop \<open>while (data_len >= MBCRYPT_SHA512_BUFFER_SIZE)\<close> of the update.\<close>

function sha512_blocks :: "sha512_ctx \<Rightarrow> bytes \<Rightarrow> u32 \<Rightarrow> (sha512_ctx \<times> bytes \<times> u32) ub" where
  "sha512_blocks ctx data data_len =
     (if 128 \<le> data_len then do {
        ctx \<leftarrow> sha512_process ctx data;
        sha512_blocks ctx (drop 128 data) (data_len - 128)
      } else Some (ctx, data, data_len))"
  by pat_completeness auto
termination
  by (relation "measure (\<lambda>(ctx, data, n). unat n)")
    (auto simp: unat_sub_u32 word_le_nat_alt)

declare sha512_blocks.simps [simp del]

text \<open>The update has no check for null pointers; with data to take in it would follow them.\<close>

definition mbcrypt_sha512_update ::
    "sha512_ctx ptr \<Rightarrow> bytes ptr \<Rightarrow> u32 \<Rightarrow> (mbcrypt_status_e \<times> sha512_ctx ptr) ub" where
  "mbcrypt_sha512_update ctx data data_len =
     (if data_len = 0 then Some (MBCRYPT_STATUS_OK, ctx)
      else do {
        ctx \<leftarrow> ctx;
        data \<leftarrow> data;
        let left = total0 ctx AND 0x7F;
            fill = 128 - left;
            ctx = ctx\<lparr>total0 := total0 ctx + data_len\<rparr>;
            ctx = (if total0 ctx < data_len then ctx\<lparr>total1 := total1 ctx + 1\<rparr> else ctx)
        in do {
          (ctx, data, data_len, left) \<leftarrow>
            (if left \<noteq> 0 \<and> fill \<le> data_len then do {
               b \<leftarrow> memcpy_at (buffer ctx) (unat left) data (unat fill);
               ctx \<leftarrow> sha512_process (ctx\<lparr>buffer := b\<rparr>) b;
               Some (ctx, drop (unat fill) data, data_len - fill, 0)
             } else Some (ctx, data, data_len, left));
          (ctx, data, data_len) \<leftarrow> sha512_blocks ctx data data_len;
          if 0 < data_len then do {
            b \<leftarrow> memcpy_at (buffer ctx) (unat left) data (unat data_len);
            Some (MBCRYPT_STATUS_OK, Some (ctx\<lparr>buffer := b\<rparr>))
          } else Some (MBCRYPT_STATUS_OK, Some ctx)
        }
      })"

text \<open>The digest written to \<open>out\<close>: eight \<open>PUT_UINT64_BE\<close>.\<close>

definition sha512_put_digest :: "sha512_chain \<Rightarrow> bytes \<Rightarrow> bytes ub" where
  "sha512_put_digest c out = do {
     out \<leftarrow> PUT_UINT64_BE (h0 c) out 0;
     out \<leftarrow> PUT_UINT64_BE (h1 c) out 8;
     out \<leftarrow> PUT_UINT64_BE (h2 c) out 16;
     out \<leftarrow> PUT_UINT64_BE (h3 c) out 24;
     out \<leftarrow> PUT_UINT64_BE (h4 c) out 32;
     out \<leftarrow> PUT_UINT64_BE (h5 c) out 40;
     out \<leftarrow> PUT_UINT64_BE (h6 c) out 48;
     PUT_UINT64_BE (h7 c) out 56
   }"

text \<open>
  The values \<open>high\<close> and \<open>low\<close> of the length field. The shifts are done on the 32-bit
  \<open>total[0]\<close> and \<open>total[1]\<close> before the results are widened. A shift of a 32-bit operand by 32 or
  more is undefined behaviour.
\<close>

definition shift_right_u32 :: "u32 \<Rightarrow> nat \<Rightarrow> u32 ub" where
  "shift_right_u32 x n = (if n < 32 then Some (drop_bit n x) else None)"

definition sha512_high :: "u32 \<Rightarrow> u32 \<Rightarrow> u64 ub" where
  "sha512_high t0 t1 = do {
     x \<leftarrow> shift_right_u32 t0 61;
     Some (ucast (x OR push_bit 3 t1))
   }"

definition sha512_low :: "u32 \<Rightarrow> u64" where
  "sha512_low t0 = ucast (push_bit 3 t0)"

definition mbcrypt_sha512_final ::
    "sha512_ctx ptr \<Rightarrow> bytes ptr \<Rightarrow> (mbcrypt_status_e \<times> sha512_ctx ptr \<times> bytes ptr) ub" where
  "mbcrypt_sha512_final ctx out =
     (case ctx of
        None \<Rightarrow> Some (MBCRYPT_STATUS_FAIL_NULL_PTR, None, out)
      | Some ctx \<Rightarrow>
        (case out of
           None \<Rightarrow> Some (MBCRYPT_STATUS_FAIL_NULL_PTR, Some ctx, None)
         | Some out \<Rightarrow> do {
             high \<leftarrow> sha512_high (total0 ctx) (total1 ctx);
             let low = sha512_low (total0 ctx) in do {
             msglen \<leftarrow> PUT_UINT64_BE high (replicate 16 0) 0;
             msglen \<leftarrow> PUT_UINT64_BE low msglen 8;
             let last = total0 ctx AND 0x7F;
                 padn = (if last < 112 then 112 - last else 240 - last)
             in do {
             (st, ctx) \<leftarrow> mbcrypt_sha512_update (Some ctx) (Some sha512_padding) padn;
             if st \<noteq> MBCRYPT_STATUS_OK then Some (st, ctx, Some out) else do {
               (st, ctx) \<leftarrow> mbcrypt_sha512_update ctx (Some msglen) 16;
               if st \<noteq> MBCRYPT_STATUS_OK then Some (st, ctx, Some out) else do {
                 ctx \<leftarrow> ctx;
                 out \<leftarrow> sha512_put_digest (chain ctx) out;
                 Some (MBCRYPT_STATUS_OK, Some ctx, Some out)
               }
             }
           }}}))"

text \<open>The one-call interface; \<open>ctx0\<close> is the uninitialised storage of its local context.\<close>

definition mbcrypt_sha512 ::
    "sha512_ctx \<Rightarrow> bytes ptr \<Rightarrow> u32 \<Rightarrow> bytes ptr \<Rightarrow> (mbcrypt_status_e \<times> bytes ptr) ub" where
  "mbcrypt_sha512 ctx0 data data_len out = do {
     (st, ctx) \<leftarrow> mbcrypt_sha512_init (Some ctx0);
     if st \<noteq> MBCRYPT_STATUS_OK then Some (st, out) else do {
       (st, ctx) \<leftarrow> mbcrypt_sha512_update ctx data data_len;
       if st \<noteq> MBCRYPT_STATUS_OK then Some (st, out) else do {
         (st, ctx, out) \<leftarrow> mbcrypt_sha512_final ctx out;
         Some (st, out)
       }
     }
   }"

subsection \<open>The streaming contract, discharged by the code\<close>

interpretation sha512_stream: hash_stream 128 fips512_compress fips512_iv
    sha512_process sha512_blocks mbcrypt_sha512_update
proof unfold_locales
  show "(128 :: nat) = 64 \<or> (128 :: nat) = 128" by simp
  show "sha512_process c d = Some (chain_update (\<lambda>h. fips512_compress h (take 128 d)) c)"
    if "128 \<le> length d" for c d
    using that by (rule sha512_process_eq)
  show "sha512_blocks c d n = (if of_nat 128 \<le> n then sha512_process c d \<bind>
      (\<lambda>c. sha512_blocks c (drop 128 d) (n - of_nat 128)) else Some (c, d, n))" for c d n
    by (subst sha512_blocks.simps) simp
qed (simp_all add: mbcrypt_sha512_update_def Let_def)

subsection \<open>Taking in a message\<close>

abbreviation sha512_holds :: "sha512_ctx \<Rightarrow> bytes \<Rightarrow> bool" where
  "sha512_holds \<equiv> absorbed 128 fips512_compress fips512_iv"

lemma sha512_init_holds:
  "\<exists>c'. mbcrypt_sha512_init (Some c) = Some (MBCRYPT_STATUS_OK, Some c') \<and> sha512_holds c' []"
  by (simp add: mbcrypt_sha512_init_def absorbed_def stream_state_def total_state_def
      chunks_short tailpart_def fips512_iv_def)

interpretation sha512: hash_intake mbcrypt_sha512_init mbcrypt_sha512_update sha512_holds
  using sha512_init_holds sha512_stream.update_absorbs by unfold_locales simp_all

lemma sha512_final_undefined: "mbcrypt_sha512_final (Some c) (Some out) = None"
  by (simp add: mbcrypt_sha512_final_def sha512_high_def shift_right_u32_def)

subsection \<open>Properties\<close>

definition sha512_any_ctx :: sha512_ctx where
  "sha512_any_ctx = \<lparr>total0 = 7, total1 = 9, buffer = replicate 128 0xAA, chain = fips512_iv\<rparr>"

text \<open>
  C4. Taking in a message does not depend on how it is cut: after \<open>mbcrypt_sha512_init\<close> on any
  context and one \<open>mbcrypt_sha512_update\<close> for each piece, every call has returned
  \<open>MBCRYPT_STATUS_OK\<close>, the chaining value is the standard's compression function over the whole
  128-byte blocks of the message, the buffer starts with the incomplete block, and \<open>total\<close> counts
  the bytes modulo \<open>2\<^sup>6\<^sup>4\<close>.
\<close>

theorem sha512_takes_in_pieces:
  assumes "\<forall>p \<in> set ps. length p < 4294967296"
  shows "\<exists>c1 c2. mbcrypt_sha512_init (Some c) = Some (MBCRYPT_STATUS_OK, Some c1)
    \<and> feed mbcrypt_sha512_update c1 ps = Some (MBCRYPT_STATUS_OK, Some c2)
    \<and> chain c2 = foldl fips512_compress fips512_iv (chunks 128 (concat ps))
    \<and> length (buffer c2) = 128
    \<and> take (length (concat ps) mod 128) (buffer c2) =
        drop (length (concat ps) div 128 * 128) (concat ps)
    \<and> total0 c2 = of_nat (length (concat ps))
    \<and> total1 c2 = of_nat (length (concat ps) div 2 ^ 32)"
proof -
  obtain c1 c2 where "mbcrypt_sha512_init (Some c) = Some (MBCRYPT_STATUS_OK, Some c1)"
      "feed mbcrypt_sha512_update c1 ps = Some (MBCRYPT_STATUS_OK, Some c2)"
      "sha512_holds c2 (concat ps)"
    using sha512.pieces_taken_in [OF assms, of c] by blast
  then show ?thesis
    by (intro exI [of _ c1] exI [of _ c2])
      (simp add: absorbed_def stream_state_def total_state_def tailpart_def mult.commute)
qed

theorem sha512_takes_in_pieces_witness:
  "\<exists>c1 c2. mbcrypt_sha512_init (Some sha512_any_ctx) = Some (MBCRYPT_STATUS_OK, Some c1)
    \<and> feed mbcrypt_sha512_update c1 [replicate 100 0x61, [], replicate 30 0x62] =
        Some (MBCRYPT_STATUS_OK, Some c2)
    \<and> total0 c2 = 130 \<and> total1 c2 = 0 \<and> take 2 (buffer c2) = replicate 2 0x62"
  using sha512_takes_in_pieces [of "[replicate 100 0x61, [], replicate 30 0x62]" sha512_any_ctx]
  by auto

text \<open>
  C32. No SHA-512 digest is defined: \<open>mbcrypt_sha512_final\<close> shifts the 32-bit counter by 61, so
  for every context and output it has undefined behaviour, and so has \<open>mbcrypt_sha512\<close> on every
  readable message, the empty one included. Only calls that a null check ends before the shift
  return.
\<close>

theorem sha512_never_defined:
  assumes "unat n \<le> length d"
  shows "mbcrypt_sha512_final (Some c) (Some out) = None
    \<and> mbcrypt_sha512 ctx0 (Some d) n (Some out) = None
    \<and> mbcrypt_sha512 ctx0 (Some d) n None = Some (MBCRYPT_STATUS_FAIL_NULL_PTR, None)"
proof -
  obtain c1 where 1: "mbcrypt_sha512_init (Some ctx0) = Some (MBCRYPT_STATUS_OK, Some c1)"
      "sha512_holds c1 []"
    using sha512_init_holds by blast
  obtain c2 where 2: "mbcrypt_sha512_update (Some c1) (Some d) n = Some (MBCRYPT_STATUS_OK, Some c2)"
    using sha512_stream.update_absorbs [OF 1(2) assms] by auto
  have "mbcrypt_sha512_final (Some c2) None = Some (MBCRYPT_STATUS_FAIL_NULL_PTR, Some c2, None)"
    by (simp add: mbcrypt_sha512_final_def)
  then show ?thesis using 1(1) 2 by (simp add: sha512_final_undefined mbcrypt_sha512_def)
qed

theorem sha512_never_defined_witness:
  "mbcrypt_sha512_final (Some sha512_any_ctx) (Some (replicate 64 0)) = None
    \<and> mbcrypt_sha512 sha512_any_ctx (Some [0x61, 0x62, 0x63]) 3 (Some (replicate 64 0)) = None
    \<and> mbcrypt_sha512 sha512_any_ctx (Some [0x61, 0x62, 0x63]) 3 None =
        Some (MBCRYPT_STATUS_FAIL_NULL_PTR, None)"
  using sha512_never_defined [of 3 "[0x61, 0x62, 0x63]" sha512_any_ctx "replicate 64 0" sha512_any_ctx]
  by simp

text \<open>
  C9. Both variants of \<open>_sha512_process\<close> are the compression function of the standard on the
  first 128 bytes at \<open>data\<close>, and change only the chaining value.
\<close>

theorem sha512_process_compresses:
  assumes "128 \<le> length data"
  shows "sha512_process ctx data =
      Some (ctx\<lparr>chain := fips512_compress (chain ctx) (take 128 data)\<rparr>)
    \<and> sha512_process_min ctx data = sha512_process ctx data"
  using sha512_process_eq [OF assms] sha512_process_variants by simp

theorem sha512_process_compresses_witness:
  "sha512_process sha512_any_ctx (replicate 128 0) =
      Some (sha512_any_ctx\<lparr>chain := fips512_compress (chain sha512_any_ctx) (replicate 128 0)\<rparr>)
    \<and> sha512_process_min sha512_any_ctx (replicate 128 0) = sha512_process sha512_any_ctx (replicate 128 0)"
  using sha512_process_compresses [of "replicate 128 0" sha512_any_ctx] by simp

end
