(* ===== verification/Mbcrypt_Utils.thy ===== *)
theory Mbcrypt_Utils
  imports Mbcrypt
begin

text \<open>
  \<open>src/mbcrypt_utils.c\<close>: the byte-wise xor \<open>mem_xor_secured\<close>, \<open>is_le\<close> and the random source that
  is handed to libtommath. Beside the plain loop of \<open>mem_xor_secured\<close> stands the eight-fold
  unrolled one that HMAC and PBKDF2 use in its place, and its equivalence with it.
\<close>

subsection \<open>The xor loops\<close>

text \<open>One assignment \<open>dst[i] ^= src[i]\<close>.\<close>

definition xor_step :: "bytes \<Rightarrow> bytes \<Rightarrow> nat \<Rightarrow> bytes ub" where
  "xor_step dst src i = do {
     a \<leftarrow> rd dst i;
     b \<leftarrow> rd src i;
     wr dst i (a XOR b)
   }"

text \<open>The loop of \<open>mem_xor_secured\<close> from index \<open>i\<close> on.\<close>

function xor_loop :: "bytes \<Rightarrow> bytes \<Rightarrow> nat \<Rightarrow> nat \<Rightarrow> bytes ub" where
  "xor_loop dst src i sz =
     (if i < sz then do {
        dst \<leftarrow> xor_step dst src i;
        xor_loop dst src (i + 1) sz
      } else Some dst)"
  by pat_completeness auto
termination by (relation "measure (\<lambda>(dst, src, i, sz). sz - i)") auto

declare xor_loop.simps [simp del]

definition mem_xor_secured :: "bytes ptr \<Rightarrow> bytes ptr \<Rightarrow> u32 \<Rightarrow> bytes ptr ub" where
  "mem_xor_secured dst src sz =
     (case (dst, src) of
        (Some dst, Some src) \<Rightarrow> do {
          dst \<leftarrow> xor_loop dst src 0 (unat sz);
          Some (Some dst)
        }
      | _ \<Rightarrow> Some dst)"

text \<open>The same loop with eight steps for each test of the index.\<close>

function xor_loop_by_8 :: "bytes \<Rightarrow> bytes \<Rightarrow> nat \<Rightarrow> nat \<Rightarrow> bytes ub" where
  "xor_loop_by_8 dst src i sz =
     (if i < sz then do {
        dst \<leftarrow> xor_step dst src i;
        dst \<leftarrow> xor_step dst src (i + 1);
        dst \<leftarrow> xor_step dst src (i + 2);
        dst \<leftarrow> xor_step dst src (i + 3);
        dst \<leftarrow> xor_step dst src (i + 4);
        dst \<leftarrow> xor_step dst src (i + 5);
        dst \<leftarrow> xor_step dst src (i + 6);
        dst \<leftarrow> xor_step dst src (i + 7);
        xor_loop_by_8 dst src (i + 8) sz
      } else Some dst)"
  by pat_completeness auto
termination by (relation "measure (\<lambda>(dst, src, i, sz). sz - i)") auto

declare xor_loop_by_8.simps [simp del]

lemma xor_loop_done: "sz \<le> i \<Longrightarrow> xor_loop dst src i sz = Some dst"
  by (simp add: xor_loop.simps)

lemma xor_loop_step:
  "i < sz \<Longrightarrow> xor_loop dst src i sz = xor_step dst src i \<bind> (\<lambda>dst. xor_loop dst src (i + 1) sz)"
  by (simp add: xor_loop.simps)

lemma xor_loop_Some:
  "i \<le> n \<Longrightarrow> n \<le> length dst \<Longrightarrow> n \<le> length src \<Longrightarrow>
     xor_loop dst src i n =
       Some (take i dst @ xor_bytes (take (n - i) (drop i dst)) (take (n - i) (drop i src)) @ drop n dst)"
proof (induction "n - i" arbitrary: dst i)
  case 0
  then show ?case by (simp add: xor_loop_done xor_bytes_def)
next
  case (Suc k)
  then have i: "i < n" by simp
  let ?d = "dst[i := dst ! i XOR src ! i]"
  have "xor_loop dst src i n = xor_loop ?d src (i + 1) n"
    using i Suc.prems by (simp add: xor_loop_step xor_step_def mem_simps)
  also have "\<dots> = Some (take (i + 1) ?d
      @ xor_bytes (take (n - (i + 1)) (drop (i + 1) ?d)) (take (n - (i + 1)) (drop (i + 1) src)) @ drop n ?d)"
    using Suc i by (intro Suc.hyps(1)) simp_all
  also have "take (i + 1) ?d = take i dst @ [dst ! i XOR src ! i]"
    using i Suc.prems by (simp add: take_Suc_conv_app_nth)
  finally show ?case
    using i Suc.prems
    by (simp add: xor_bytes_def Cons_nth_drop_Suc [symmetric] Suc_diff_Suc [symmetric])
qed

text \<open>
  The unrolled loop runs past \<open>sz\<close> to the next multiple of eight: it is the plain loop up to
  there, and the same as the plain loop when \<open>sz\<close> is a multiple of eight.
\<close>

lemma xor_loop_by_8_eq:
  "sz - i \<le> 8 * k \<Longrightarrow> 8 * k < sz - i + 8 \<Longrightarrow>
     xor_loop_by_8 dst src i sz = xor_loop dst src i (i + 8 * k)"
proof (induction k arbitrary: dst i)
  case 0
  then show ?case by (simp add: xor_loop_by_8.simps xor_loop_done)
next
  case (Suc k)
  have "i < sz" using Suc.prems by simp
  have IH: "xor_loop_by_8 d src (i + 8) sz = xor_loop d src (i + 8) (i + 8 * Suc k)" for d
    using Suc.IH [of "i + 8" d] Suc.prems by (simp add: ac_simps)
  let ?n = "i + 8 * Suc k"
  have st: "xor_loop d src i ?n = xor_step d src i \<bind> (\<lambda>d. xor_loop d src (i + 1) ?n)"
    "xor_loop d src (i + 1) ?n = xor_step d src (i + 1) \<bind> (\<lambda>d. xor_loop d src (i + 2) ?n)"
    "xor_loop d src (i + 2) ?n = xor_step d src (i + 2) \<bind> (\<lambda>d. xor_loop d src (i + 3) ?n)"
    "xor_loop d src (i + 3) ?n = xor_step d src (i + 3) \<bind> (\<lambda>d. xor_loop d src (i + 4) ?n)"
    "xor_loop d src (i + 4) ?n = xor_step d src (i + 4) \<bind> (\<lambda>d. xor_loop d src (i + 5) ?n)"
    "xor_loop d src (i + 5) ?n = xor_step d src (i + 5) \<bind> (\<lambda>d. xor_loop d src (i + 6) ?n)"
    "xor_loop d src (i + 6) ?n = xor_step d src (i + 6) \<bind> (\<lambda>d. xor_loop d src (i + 7) ?n)"
    "xor_loop d src (i + 7) ?n = xor_step d src (i + 7) \<bind> (\<lambda>d. xor_loop d src (i + 8) ?n)" for d
    by (subst xor_loop_step; simp add: eval_nat_numeral)+
  have "xor_loop_by_8 dst src i sz = xor_step dst src i \<bind> (\<lambda>dst. xor_step dst src (i + 1) \<bind>
      (\<lambda>dst. xor_step dst src (i + 2) \<bind> (\<lambda>dst. xor_step dst src (i + 3) \<bind>
      (\<lambda>dst. xor_step dst src (i + 4) \<bind> (\<lambda>dst. xor_step dst src (i + 5) \<bind>
      (\<lambda>dst. xor_step dst src (i + 6) \<bind> (\<lambda>dst. xor_step dst src (i + 7) \<bind>
      (\<lambda>dst. xor_loop_by_8 dst src (i + 8) sz))))))))"
    using \<open>i < sz\<close> by (subst xor_loop_by_8.simps) (simp only: if_True)
  then show ?case by (simp only: st IH)
qed

theorem xor_loop_by_8_multiple:
  assumes "sz mod 8 = 0"
  shows "xor_loop_by_8 dst src 0 sz = xor_loop dst src 0 sz"
  using xor_loop_by_8_eq [of sz 0 "sz div 8" dst src] assms by (simp add: mult_div_mod_eq dvd_mult_div_cancel mod_eq_0_iff_dvd)

lemma mem_xor_secured_Some:
  "unat n \<le> length dst \<Longrightarrow> unat n \<le> length src \<Longrightarrow>
     mem_xor_secured (Some dst) (Some src) n =
       Some (Some (xor_bytes (take (unat n) dst) (take (unat n) src) @ drop (unat n) dst))"
  by (simp add: mem_xor_secured_def xor_loop_Some)

subsection \<open>Byte order and the random source\<close>

text \<open>\<open>is_le\<close> takes the low byte of the number 1, not of its storage.\<close>

definition is_le :: u32 where
  "is_le = ucast ((1 :: 16 word) AND 0xff)"

text \<open>
  \<open>s_mp_rand_source\<close> with the C library's generator as a parameter: \<open>rand s\<close> is the next number
  and the next state of the generator. The index is an \<open>int\<close>, whose overflow is undefined.
\<close>

fun rand_fill :: "('r \<Rightarrow> u32 \<times> 'r) \<Rightarrow> 'r \<Rightarrow> bytes \<Rightarrow> nat \<Rightarrow> nat \<Rightarrow> (bytes \<times> 'r) ub" where
  "rand_fill rand s p i 0 = Some (p, s)"
| "rand_fill rand s p i (Suc n) =
     (let (v, s) = rand s in do {
        p \<leftarrow> wr p i (ucast (v AND 0xFF));
        rand_fill rand s p (i + 1) n
      })"

definition s_mp_rand_source ::
    "('r \<Rightarrow> u32 \<times> 'r) \<Rightarrow> 'r \<Rightarrow> bytes \<Rightarrow> nat \<Rightarrow> (i32 \<times> bytes \<times> 'r) ub" where
  "s_mp_rand_source rand s out sz =
     (if 2147483647 < sz then None
      else do {
        (out, s) \<leftarrow> rand_fill rand s out 0 sz;
        Some (0, out, s)
      })"

text \<open>The source fills the whole buffer with the low bytes of the generator's numbers.\<close>

fun rand_stream :: "('r \<Rightarrow> u32 \<times> 'r) \<Rightarrow> 'r \<Rightarrow> nat \<Rightarrow> bytes" where
  "rand_stream rand s 0 = []"
| "rand_stream rand s (Suc n) = ucast (fst (rand s)) # rand_stream rand (snd (rand s)) n"

lemma length_rand_stream [simp]: "length (rand_stream rand s n) = n"
  by (induction n arbitrary: s) simp_all

lemma ucast_and_255: "(ucast ((v :: u32) AND 255) :: u8) = ucast v"
proof -
  have "v AND 255 = take_bit 8 v"
    using take_bit_eq_mask [of 8 v] by (simp add: mask_eq_exp_minus_1)
  then show ?thesis by (simp only:) (rule bit_word_eqI, auto simp: bit_simps)
qed

lemma rand_fill_Some:
  "i + n \<le> length p \<Longrightarrow>
     \<exists>s'. rand_fill rand s p i n = Some (take i p @ rand_stream rand s n @ drop (i + n) p, s')"
proof (induction n arbitrary: s p i)
  case (Suc n)
  let ?p = "p[i := ucast (fst (rand s))]"
  have "i < length p" using Suc.prems by simp
  then show ?case
    using Suc.IH [of "i + 1" ?p "snd (rand s)"] Suc.prems
    by (auto simp: mem_simps ucast_and_255 take_Suc_conv_app_nth Let_def split: prod.split)
qed simp

theorem s_mp_rand_source_fills:
  assumes "sz \<le> length out" and "sz \<le> 2147483647"
  shows "\<exists>s'. s_mp_rand_source rand s out sz = Some (0, rand_stream rand s sz @ drop sz out, s')"
  using rand_fill_Some [of 0 sz out rand s] assms by (auto simp: s_mp_rand_source_def)

end
