(* ===== verification/Prf.thy ===== *)
theory Prf
  imports Hash_Stream
begin

text \<open>
  The keyed functions behind \<open>mbcrypt_hmac_callbacks_t\<close> (\<open>includes/mbcrypt.h\<close>), which PBKDF2 and
  KBKDF call through pointers, and the contract that a provider keeps. \<open>P k m\<close> is the keyed
  function on byte strings, \<open>psize\<close> the length of its values, \<open>ready c\<close> a context that can be
  initialised, \<open>holds c k m\<close> one that has been keyed with \<open>k\<close> and has taken in \<open>m\<close>; \<open>okk\<close> and \<open>okm\<close>
  bound the lengths of keys and messages. An update with no data is not covered: HMAC rejects
  it. \<open>Hmac\<close> interprets the contract.
\<close>

type_synonym 's keyed_init_fn = "'s ptr \<Rightarrow> bytes ptr \<Rightarrow> u32 \<Rightarrow> (mbcrypt_status_e \<times> 's ptr) ub"
type_synonym 's keyed_update_fn = "'s ptr \<Rightarrow> bytes ptr \<Rightarrow> u32 \<Rightarrow> (mbcrypt_status_e \<times> 's ptr) ub"
type_synonym 's keyed_final_fn =
  "'s ptr \<Rightarrow> bytes ptr \<Rightarrow> (mbcrypt_status_e \<times> 's ptr \<times> bytes ptr) ub"

text \<open>
  The struct's function pointers; the header declares them as pointers to function pointers,
  but every caller stores and calls plain function pointers.
\<close>

record 's mbcrypt_hmac_callbacks_t =
  hmac_ctx :: "'s ptr"
  hmac_init :: "'s keyed_init_fn ptr"
  hmac_update :: "'s keyed_update_fn ptr"
  hmac_final :: "'s keyed_final_fn ptr"

text \<open>
  Calls through the pointers. A null function pointer is undefined behaviour; the context
  pointer stays the same and its target changes.
\<close>

definition p_hmac_init ::
    "'s mbcrypt_hmac_callbacks_t \<Rightarrow> bytes ptr \<Rightarrow> u32 \<Rightarrow> (mbcrypt_status_e \<times> 's mbcrypt_hmac_callbacks_t) ub" where
  "p_hmac_init cbs key key_len = do {
     f \<leftarrow> hmac_init cbs;
     (st, c) \<leftarrow> f (hmac_ctx cbs) key key_len;
     Some (st, cbs\<lparr>hmac_ctx := c\<rparr>)
   }"

definition p_hmac_update ::
    "'s mbcrypt_hmac_callbacks_t \<Rightarrow> bytes ptr \<Rightarrow> u32 \<Rightarrow> (mbcrypt_status_e \<times> 's mbcrypt_hmac_callbacks_t) ub" where
  "p_hmac_update cbs data data_len = do {
     f \<leftarrow> hmac_update cbs;
     (st, c) \<leftarrow> f (hmac_ctx cbs) data data_len;
     Some (st, cbs\<lparr>hmac_ctx := c\<rparr>)
   }"

definition p_hmac_final ::
    "'s mbcrypt_hmac_callbacks_t \<Rightarrow> bytes \<Rightarrow> (mbcrypt_status_e \<times> 's mbcrypt_hmac_callbacks_t \<times> bytes) ub" where
  "p_hmac_final cbs out = do {
     f \<leftarrow> hmac_final cbs;
     (st, c, out) \<leftarrow> f (hmac_ctx cbs) (Some out);
     out \<leftarrow> out;
     Some (st, cbs\<lparr>hmac_ctx := c\<rparr>, out)
   }"

locale prf_api =
  fixes init :: "'s keyed_init_fn"
    and update :: "'s keyed_update_fn"
    and final :: "'s keyed_final_fn"
    and ready :: "'s \<Rightarrow> bool"
    and holds :: "'s \<Rightarrow> bytes \<Rightarrow> bytes \<Rightarrow> bool"
    and P :: "bytes \<Rightarrow> bytes \<Rightarrow> bytes"
    and psize :: nat
    and okk :: "nat \<Rightarrow> bool"
    and okm :: "nat \<Rightarrow> bool"
  assumes init_keys: "ready c \<Longrightarrow> unat n \<le> length k \<Longrightarrow> okk (unat n) \<Longrightarrow>
      \<exists>c'. init (Some c) (Some k) n = Some (MBCRYPT_STATUS_OK, Some c') \<and> holds c' (take (unat n) k) []"
    and update_takes: "holds c k m \<Longrightarrow> n \<noteq> 0 \<Longrightarrow> unat n \<le> length d \<Longrightarrow>
      \<exists>c'. update (Some c) (Some d) n = Some (MBCRYPT_STATUS_OK, Some c')
        \<and> holds c' k (m @ take (unat n) d)"
    and final_value: "holds c k m \<Longrightarrow> okm (length m) \<Longrightarrow> psize \<le> length out \<Longrightarrow>
      \<exists>c'. final (Some c) (Some out) =
          Some (MBCRYPT_STATUS_OK, Some c', Some (P k m @ drop psize out)) \<and> ready c'"
    and holds_ready: "holds c k m \<Longrightarrow> ready c"
    and length_P: "length (P k m) = psize"
begin

text \<open>Callbacks that point to the provider's functions, with a context in a given state.\<close>

definition cbs_in :: "('s \<Rightarrow> bool) \<Rightarrow> 's mbcrypt_hmac_callbacks_t \<Rightarrow> bool" where
  "cbs_in Q cbs \<longleftrightarrow> (\<exists>c. hmac_ctx cbs = Some c \<and> Q c) \<and> hmac_init cbs = Some init
     \<and> hmac_update cbs = Some update \<and> hmac_final cbs = Some final"

lemma p_init:
  assumes "cbs_in ready cbs" and "unat n \<le> length k" and "okk (unat n)"
  shows "\<exists>cbs'. p_hmac_init cbs (Some k) n = Some (MBCRYPT_STATUS_OK, cbs')
    \<and> cbs_in (\<lambda>c. holds c (take (unat n) k) []) cbs'"
proof -
  obtain c where c: "hmac_ctx cbs = Some c" "ready c" using assms(1) by (auto simp: cbs_in_def)
  show ?thesis
    using init_keys [OF c(2) assms(2,3)] assms(1) c by (auto simp: cbs_in_def p_hmac_init_def)
qed

lemma p_update:
  assumes "cbs_in (\<lambda>c. holds c k m) cbs" and "n \<noteq> 0" and "unat n \<le> length d"
  shows "\<exists>cbs'. p_hmac_update cbs (Some d) n = Some (MBCRYPT_STATUS_OK, cbs')
    \<and> cbs_in (\<lambda>c. holds c k (m @ take (unat n) d)) cbs'"
proof -
  obtain c where c: "hmac_ctx cbs = Some c" "holds c k m" using assms(1) by (auto simp: cbs_in_def)
  show ?thesis
    using update_takes [OF c(2) assms(2,3)] assms(1) c by (auto simp: cbs_in_def p_hmac_update_def)
qed

lemma p_final:
  assumes "cbs_in (\<lambda>c. holds c k m) cbs" and "okm (length m)" and "psize \<le> length out"
  shows "\<exists>cbs'. p_hmac_final cbs out = Some (MBCRYPT_STATUS_OK, cbs', P k m @ drop psize out)
    \<and> cbs_in ready cbs'"
proof -
  obtain c where c: "hmac_ctx cbs = Some c" "holds c k m" using assms(1) by (auto simp: cbs_in_def)
  show ?thesis
    using final_value [OF c(2) assms(2,3)] assms(1) c by (auto simp: cbs_in_def p_hmac_final_def)
qed

lemma cbs_ready: "cbs_in (\<lambda>c. holds c k m) cbs \<Longrightarrow> cbs_in ready cbs"
  using holds_ready by (auto simp: cbs_in_def)

end

context prf_api
begin

text \<open>Non-empty pieces are taken in as their concatenation.\<close>

lemma feed_keyed:
  assumes "holds c k m" and "\<forall>p \<in> set ps. 0 < length p \<and> length p < 4294967296"
  shows "\<exists>c'. feed update c ps = Some (MBCRYPT_STATUS_OK, Some c') \<and> holds c' k (m @ concat ps)"
  using assms
proof (induction ps arbitrary: c m)
  case Nil
  then show ?case by simp
next
  case (Cons p ps)
  then have lp: "unat (of_nat (length p) :: u32) = length p" by (simp add: unat_of_nat)
  then have "(of_nat (length p) :: u32) \<noteq> 0" using Cons.prems(2) by (auto simp flip: unat_gt_0)
  then obtain c' where "update (Some c) (Some p) (of_nat (length p)) = Some (MBCRYPT_STATUS_OK, Some c')"
    and "holds c' k (m @ p)"
    using update_takes [OF Cons.prems(1), of "of_nat (length p)" p] lp by auto
  then show ?case using Cons.IH [of c' "m @ p"] Cons.prems(2) by simp
qed

theorem keyed_pieces:
  assumes "ready c" and "unat n \<le> length k" and "okk (unat n)"
    and "\<forall>p \<in> set ps. 0 < length p \<and> length p < 4294967296" and "okm (length (concat ps))"
    and "psize \<le> length out"
  shows "\<exists>c1 c2 c3. init (Some c) (Some k) n = Some (MBCRYPT_STATUS_OK, Some c1)
    \<and> feed update c1 ps = Some (MBCRYPT_STATUS_OK, Some c2)
    \<and> final (Some c2) (Some out) =
        Some (MBCRYPT_STATUS_OK, Some c3, Some (P (take (unat n) k) (concat ps) @ drop psize out))
    \<and> ready c3"
proof -
  obtain c1 where 1: "init (Some c) (Some k) n = Some (MBCRYPT_STATUS_OK, Some c1)"
      "holds c1 (take (unat n) k) []"
    using init_keys [OF assms(1-3)] by blast
  obtain c2 where 2: "feed update c1 ps = Some (MBCRYPT_STATUS_OK, Some c2)"
      "holds c2 (take (unat n) k) (concat ps)"
    using feed_keyed [OF 1(2) assms(4)] by auto
  then show ?thesis using 1 final_value [OF 2(2) assms(5,6)] by blast
qed

end

end
