(* ===== verification/Hmac.thy ===== *)
theory Hmac
  imports Sha1 Sha256 Sha512 Mbcrypt_Utils Prf
begin

text \<open>
  HMAC, \<open>src/hmac.c\<close> and \<open>includes/hmac.h\<close>, over the hash callbacks of \<open>includes/mbcrypt.h\<close>.
  First the code, then the specification (FIPS 198-1) and the proof that over any hash that
  keeps the contract \<open>hash_api\<close> the three functions keep the contract \<open>prf_api\<close>.

  The hash context lives behind the pointer \<open>cbs->hash_ctx\<close>; the model keeps its value inside
  the callbacks and the callbacks inside the HMAC context, so a call returns both updated.
\<close>

subsection \<open>The hash callbacks\<close>

record 'c mbcrypt_hash_callbacks_t =
  hash_ctx :: "'c ptr"
  hash_init :: "'c init_fn ptr"
  hash_update :: "'c update_fn ptr"
  hash_final :: "'c final_fn ptr"

text \<open>Calls through the function pointers; a null one is undefined behaviour.\<close>

definition p_hash_init ::
    "'c mbcrypt_hash_callbacks_t \<Rightarrow> (mbcrypt_status_e \<times> 'c mbcrypt_hash_callbacks_t) ub" where
  "p_hash_init cbs = do {
     f \<leftarrow> hash_init cbs;
     (st, c) \<leftarrow> f (hash_ctx cbs);
     Some (st, cbs\<lparr>hash_ctx := c\<rparr>)
   }"

definition p_hash_update :: "'c mbcrypt_hash_callbacks_t \<Rightarrow> bytes \<Rightarrow> u32 \<Rightarrow>
    (mbcrypt_status_e \<times> 'c mbcrypt_hash_callbacks_t) ub" where
  "p_hash_update cbs data data_len = do {
     f \<leftarrow> hash_update cbs;
     (st, c) \<leftarrow> f (hash_ctx cbs) (Some data) data_len;
     Some (st, cbs\<lparr>hash_ctx := c\<rparr>)
   }"

definition p_hash_final :: "'c mbcrypt_hash_callbacks_t \<Rightarrow> bytes \<Rightarrow>
    (mbcrypt_status_e \<times> 'c mbcrypt_hash_callbacks_t \<times> bytes) ub" where
  "p_hash_final cbs out = do {
     f \<leftarrow> hash_final cbs;
     (st, c, out) \<leftarrow> f (hash_ctx cbs) (Some out);
     out \<leftarrow> out;
     Some (st, cbs\<lparr>hash_ctx := c\<rparr>, out)
   }"

subsection \<open>The code\<close>

record 'c mbcrypt_hmac_t =
  cbs :: "'c mbcrypt_hash_callbacks_t ptr"
  hash_type :: mbcrypt_hash_type_e
  key :: bytes

text \<open>
  A context of the C type has \<open>HMAC_MAX_KEY_SIZE\<close> bytes of key.
\<close>

definition hmac_typed :: "'c mbcrypt_hmac_t \<Rightarrow> bool" where
  "hmac_typed ctx \<longleftrightarrow> length (key ctx) = 128"

definition get_hash_block_size_by_hash_type :: "mbcrypt_hash_type_e \<Rightarrow> u32" where
  "get_hash_block_size_by_hash_type htype =
     (if htype = MBCRYPT_HASH_TYPE_SHA1 then 64
      else if htype = MBCRYPT_HASH_TYPE_SHA256 then 64
      else if htype = MBCRYPT_HASH_TYPE_SHA512 then 128
      else 128)"

text \<open>
  The key into \<open>ctx->key\<close>, hashed if it is longer than a block.
\<close>

definition hmac_load_key :: "'c mbcrypt_hash_callbacks_t \<Rightarrow> bytes \<Rightarrow> u32 \<Rightarrow> bytes \<Rightarrow> u32 \<Rightarrow>
    (mbcrypt_status_e \<times> 'c mbcrypt_hash_callbacks_t \<times> bytes) ub" where
  "hmac_load_key cb ctx_key block_size k key_len =
     (if block_size < key_len then do {
        (st, cb) \<leftarrow> p_hash_init cb;
        if st \<noteq> MBCRYPT_STATUS_OK then Some (st, cb, ctx_key) else do {
          (st, cb) \<leftarrow> p_hash_update cb k key_len;
          if st \<noteq> MBCRYPT_STATUS_OK then Some (st, cb, ctx_key) else
            p_hash_final cb ctx_key
        }
      } else do {
        ctx_key \<leftarrow> memcpy_at ctx_key 0 k (unat key_len);
        Some (MBCRYPT_STATUS_OK, cb, ctx_key)
      })"

text \<open>
  \<open>mbcrypt_hmac_init\<close>. The array \<open>ipad_xor_arr\<close> is uninitialised in C; only the bytes that the
  \<open>memset\<close> sets are read, and the model starts it at 0.
\<close>

definition mbcrypt_hmac_init :: "'c mbcrypt_hmac_t keyed_init_fn" where
  "mbcrypt_hmac_init ctx k key_len =
     (case ctx of
        None \<Rightarrow> Some (MBCRYPT_STATUS_FAIL_NULL_PTR, None)
      | Some ctx \<Rightarrow>
      (case cbs ctx of
        None \<Rightarrow> Some (MBCRYPT_STATUS_FAIL_NULL_PTR, Some ctx)
      | Some cb \<Rightarrow>
      (case k of
        None \<Rightarrow> Some (MBCRYPT_STATUS_FAIL_NULL_PTR, Some ctx)
      | Some k \<Rightarrow>
        let block_size = get_hash_block_size_by_hash_type (hash_type ctx) in do {
          ctx_key \<leftarrow> memset_at (key ctx) 0 0x00 128;
          ipad_xor_arr \<leftarrow> memset_at (replicate 128 0) 0 0x36 (unat block_size);
          (st, cb, ctx_key) \<leftarrow> hmac_load_key cb ctx_key block_size k key_len;
          let ctx = ctx\<lparr>cbs := Some cb, key := ctx_key\<rparr> in
          if st \<noteq> MBCRYPT_STATUS_OK then Some (st, Some ctx) else do {
            (st, cb) \<leftarrow> p_hash_init cb;
            let ctx = ctx\<lparr>cbs := Some cb\<rparr> in
            if st \<noteq> MBCRYPT_STATUS_OK then Some (st, Some ctx) else do {
              ipad_xor_arr \<leftarrow> xor_loop_by_8 ipad_xor_arr ctx_key 0 (unat block_size);
              (st, cb) \<leftarrow> p_hash_update cb ipad_xor_arr block_size;
              Some (st, Some (ctx\<lparr>cbs := Some cb\<rparr>))
            }
          }
        })))"

definition mbcrypt_hmac_update :: "'c mbcrypt_hmac_t keyed_update_fn" where
  "mbcrypt_hmac_update ctx data data_len =
     (case ctx of
        None \<Rightarrow> Some (MBCRYPT_STATUS_FAIL_NULL_PTR, None)
      | Some ctx \<Rightarrow>
      (case data of
        None \<Rightarrow> Some (MBCRYPT_STATUS_FAIL_NULL_PTR, Some ctx)
      | Some data \<Rightarrow> do {
          cb \<leftarrow> cbs ctx;
          if data_len = 0 then Some (MBCRYPT_STATUS_FAIL_INCORRECT_FUNCTION_PARAM, Some ctx)
          else do {
            (st, cb) \<leftarrow> p_hash_update cb data data_len;
            Some (st, Some (ctx\<lparr>cbs := Some cb\<rparr>))
          }
        }))"

text \<open>
  \<open>mbcrypt_hmac_final\<close> as compiled at the default \<open>MBCRYPT_LEVEL\<close>. At \<open>MAX_MBCRYPT_LEVEL\<close> the exit
  also overwrites \<open>out\<close> with \<open>0xFF\<close> when the status is an error; that variant is not modelled.
\<close>

definition mbcrypt_hmac_final :: "'c mbcrypt_hmac_t keyed_final_fn" where
  "mbcrypt_hmac_final ctx out =
     (case ctx of
        None \<Rightarrow> Some (MBCRYPT_STATUS_FAIL_NULL_PTR, None, out)
      | Some ctx \<Rightarrow>
      (case out of
        None \<Rightarrow> Some (MBCRYPT_STATUS_FAIL_NULL_PTR, Some ctx, None)
      | Some out \<Rightarrow> do {
          cb \<leftarrow> cbs ctx;
          let hash_size = GET_HASH_SIZE_BY_HASH_TYPE (hash_type ctx);
              block_size = get_hash_block_size_by_hash_type (hash_type ctx);
              opad_xor_arr = replicate 128 0x5C
          in do {
            opad_xor_arr \<leftarrow> xor_loop_by_8 opad_xor_arr (key ctx) 0 (unat block_size);
            (st, cb, out) \<leftarrow> p_hash_final cb out;
            let ctx = ctx\<lparr>cbs := Some cb\<rparr> in
            if st \<noteq> MBCRYPT_STATUS_OK then Some (st, Some ctx, Some out) else do {
              (st, cb) \<leftarrow> p_hash_init cb;
              let ctx = ctx\<lparr>cbs := Some cb\<rparr> in
              if st \<noteq> MBCRYPT_STATUS_OK then Some (st, Some ctx, Some out) else do {
                (st, cb) \<leftarrow> p_hash_update cb opad_xor_arr block_size;
                let ctx = ctx\<lparr>cbs := Some cb\<rparr> in
                if st \<noteq> MBCRYPT_STATUS_OK then Some (st, Some ctx, Some out) else do {
                  (st, cb) \<leftarrow> p_hash_update cb out hash_size;
                  let ctx = ctx\<lparr>cbs := Some cb\<rparr> in
                  if st \<noteq> MBCRYPT_STATUS_OK then Some (st, Some ctx, Some out) else do {
                    (st, cb, out) \<leftarrow> p_hash_final cb out;
                    Some (st, Some (ctx\<lparr>cbs := Some cb\<rparr>), Some out)
                  }
                }
              }
            }
          }
        }))"

text \<open>
  The one-call interface. Its local context is zeroed first; the callbacks of the caller come
  back with the hash context changed.
\<close>

definition mbcrypt_hmac ::
    "mbcrypt_hash_type_e \<Rightarrow> 'c mbcrypt_hash_callbacks_t ptr \<Rightarrow> bytes ptr \<Rightarrow> u32 \<Rightarrow>
     bytes ptr \<Rightarrow> u32 \<Rightarrow> bytes ptr \<Rightarrow>
     (mbcrypt_status_e \<times> 'c mbcrypt_hash_callbacks_t ptr \<times> bytes ptr) ub" where
  "mbcrypt_hmac htype cb k key_len data data_len out =
     (let ctx = \<lparr>cbs = cb, hash_type = htype, key = replicate 128 0\<rparr> in do {
        (st, ctx) \<leftarrow> mbcrypt_hmac_init (Some ctx) k key_len;
        if st \<noteq> MBCRYPT_STATUS_OK then Some (st, ctx \<bind> cbs, out) else do {
          (st, ctx) \<leftarrow> mbcrypt_hmac_update ctx data data_len;
          if st \<noteq> MBCRYPT_STATUS_OK then Some (st, ctx \<bind> cbs, out) else do {
            (st, ctx, out) \<leftarrow> mbcrypt_hmac_final ctx out;
            Some (st, ctx \<bind> cbs, out)
          }
        }
      })"

text \<open>The variant of the xor loop under \<open>HMAC_MIN_SIZE\<close>: \<open>mem_xor\<close> is \<open>mem_xor_secured\<close>.\<close>

lemma block_size_cases:
  "get_hash_block_size_by_hash_type t = 64 \<or> get_hash_block_size_by_hash_type t = 128"
  by (simp add: get_hash_block_size_by_hash_type_def)

theorem hmac_xor_variants:
  "map_option Some (xor_loop_by_8 arr k 0 (unat (get_hash_block_size_by_hash_type t))) =
     mem_xor_secured (Some arr) (Some k) (get_hash_block_size_by_hash_type t)"
proof -
  have "unat (get_hash_block_size_by_hash_type t) mod 8 = 0"
    using block_size_cases [of t] by auto
  then show ?thesis
    by (simp add: xor_loop_by_8_multiple mem_xor_secured_def map_conv_bind_option comp_def)
qed

subsection \<open>The specification\<close>

text \<open>HMAC over a hash \<open>H\<close> with blocks of \<open>B\<close> bytes.\<close>

definition hmac_block_key :: "(bytes \<Rightarrow> bytes) \<Rightarrow> nat \<Rightarrow> bytes \<Rightarrow> bytes" where
  "hmac_block_key H B k =
     (let k0 = if B < length k then H k else k in k0 @ replicate (B - length k0) 0)"

definition hmac_spec :: "(bytes \<Rightarrow> bytes) \<Rightarrow> nat \<Rightarrow> bytes \<Rightarrow> bytes \<Rightarrow> bytes" where
  "hmac_spec H B k m =
     (let bk = hmac_block_key H B k
      in H (xor_bytes bk (replicate B 0x5C) @ H (xor_bytes bk (replicate B 0x36) @ m)))"

subsection \<open>The code keeps the contract of a keyed function\<close>

locale hmac_hash = hash_api init update final holds H hsize ok
  for init :: "'c init_fn" and update :: "'c update_fn" and final :: "'c final_fn"
    and holds :: "'c \<Rightarrow> bytes \<Rightarrow> bool" and H :: "bytes \<Rightarrow> bytes" and hsize :: nat
    and ok :: "nat \<Rightarrow> bool" +
  fixes t :: mbcrypt_hash_type_e
  assumes hsize_t: "hsize = unat (GET_HASH_SIZE_BY_HASH_TYPE t)"
    and ok_outer: "ok (unat (get_hash_block_size_by_hash_type t) + hsize)"
begin

abbreviation B :: nat where
  "B \<equiv> unat (get_hash_block_size_by_hash_type t)"

definition hash_cbs :: "('c \<Rightarrow> bool) \<Rightarrow> 'c mbcrypt_hash_callbacks_t \<Rightarrow> bool" where
  "hash_cbs Q cb \<longleftrightarrow> (\<exists>c. hash_ctx cb = Some c \<and> Q c) \<and> hash_init cb = Some init
     \<and> hash_update cb = Some update \<and> hash_final cb = Some final"

definition hmac_state :: "('c \<Rightarrow> bool) \<Rightarrow> bytes \<Rightarrow> 'c mbcrypt_hmac_t \<Rightarrow> bool" where
  "hmac_state Q ks ctx \<longleftrightarrow> (\<exists>cb. cbs ctx = Some cb \<and> hash_cbs Q cb)
     \<and> hash_type ctx = t \<and> key ctx = ks \<and> hmac_typed ctx"

definition hmac_ready :: "'c mbcrypt_hmac_t \<Rightarrow> bool" where
  "hmac_ready ctx \<longleftrightarrow> (\<exists>ks. hmac_state (\<lambda>_. True) ks ctx)"

definition stored_key :: "bytes \<Rightarrow> bytes" where
  "stored_key k = hmac_block_key H B k @ replicate (128 - B) 0"

definition inner_pad :: "bytes \<Rightarrow> bytes" where
  "inner_pad k = xor_bytes (hmac_block_key H B k) (replicate B 0x36)"

definition hmac_holds :: "'c mbcrypt_hmac_t \<Rightarrow> bytes \<Rightarrow> bytes \<Rightarrow> bool" where
  "hmac_holds ctx k m \<longleftrightarrow> hmac_state (\<lambda>c. holds c (inner_pad k @ m)) (stored_key k) ctx"

lemma B_bounds: "B \<le> 128" "B mod 8 = 0" "hsize \<le> B" "0 < B"
  using block_size_cases [of t] hash_size_bounds [of t] hsize_t by auto

lemma length_block_key: "length (hmac_block_key H B k) = B"
  using B_bounds by (simp add: hmac_block_key_def Let_def length_H)

lemma h_init:
  assumes "hash_cbs Q cb"
  shows "\<exists>cb'. p_hash_init cb = Some (MBCRYPT_STATUS_OK, cb') \<and> hash_cbs (\<lambda>c. holds c []) cb'"
proof -
  obtain c where "hash_ctx cb = Some c" using assms by (auto simp: hash_cbs_def)
  then show ?thesis using init_holds [of c] assms by (auto simp: hash_cbs_def p_hash_init_def)
qed

lemma h_update:
  assumes "hash_cbs (\<lambda>c. holds c m) cb" and "unat n \<le> length d"
  shows "\<exists>cb'. p_hash_update cb d n = Some (MBCRYPT_STATUS_OK, cb')
    \<and> hash_cbs (\<lambda>c. holds c (m @ take (unat n) d)) cb'"
proof -
  obtain c where c: "hash_ctx cb = Some c" "holds c m" using assms by (auto simp: hash_cbs_def)
  show ?thesis
    using update_holds [OF c(2) assms(2)] c assms by (auto simp: hash_cbs_def p_hash_update_def)
qed

lemma h_final:
  assumes "hash_cbs (\<lambda>c. holds c m) cb" and "ok (length m)" and "hsize \<le> length out"
  shows "\<exists>cb'. p_hash_final cb out = Some (MBCRYPT_STATUS_OK, cb', H m @ drop hsize out)
    \<and> hash_cbs (\<lambda>_. True) cb'"
proof -
  obtain c where c: "hash_ctx cb = Some c" "holds c m" using assms by (auto simp: hash_cbs_def)
  show ?thesis
    using final_digest [OF c(2) assms(2,3)] c assms by (auto simp: hash_cbs_def p_hash_final_def)
qed

lemma load_key:
  assumes cb: "hash_cbs Q cb" and len: "unat n \<le> length k"
    and ok: "unat n \<le> B \<or> ok (unat n)"
  shows "\<exists>cb' Q'. hmac_load_key cb (replicate 128 0) (get_hash_block_size_by_hash_type t) k n =
      Some (MBCRYPT_STATUS_OK, cb', stored_key (take (unat n) k)) \<and> hash_cbs Q' cb'"
proof (cases "get_hash_block_size_by_hash_type t < n")
  case True
  then have long: "B < unat n" by (simp add: word_less_nat_alt)
  obtain cb1 where 1: "p_hash_init cb = Some (MBCRYPT_STATUS_OK, cb1)"
      "hash_cbs (\<lambda>c. holds c []) cb1"
    using h_init [OF cb] by auto
  obtain cb2 where 2: "p_hash_update cb1 k n = Some (MBCRYPT_STATUS_OK, cb2)"
      "hash_cbs (\<lambda>c. holds c (take (unat n) k)) cb2"
    using h_update [OF 1(2) len] by auto
  obtain cb3 where 3: "p_hash_final cb2 (replicate 128 0) =
        Some (MBCRYPT_STATUS_OK, cb3, H (take (unat n) k) @ replicate (128 - hsize) 0)"
      "hash_cbs (\<lambda>_. True) cb3"
    using h_final [OF 2(2), of "replicate 128 0"] long ok len B_bounds by (auto simp: min_absorb2)
  have "replicate (128 - hsize) 0 = replicate (B - hsize) 0 @ replicate (128 - B) (0 :: u8)"
    using B_bounds by (simp add: replicate_add [symmetric])
  then have "stored_key (take (unat n) k) = H (take (unat n) k) @ replicate (128 - hsize) 0"
    using long len by (simp add: stored_key_def hmac_block_key_def Let_def length_H min_absorb2)
  then show ?thesis using 1 2 3 True by (auto simp: hmac_load_key_def)
next
  case False
  then have "unat n \<le> B" by (simp add: word_less_nat_alt not_less)
  then have "replicate (128 - unat n) 0 = replicate (B - unat n) 0 @ replicate (128 - B) (0 :: u8)"
    using B_bounds by (simp add: replicate_add [symmetric])
  then have "stored_key (take (unat n) k) = take (unat n) k @ replicate (128 - unat n) 0"
    using \<open>unat n \<le> B\<close> len by (simp add: stored_key_def hmac_block_key_def Let_def min_absorb2)
  then show ?thesis
    using False \<open>unat n \<le> B\<close> B_bounds len cb
    by (auto simp: hmac_load_key_def mem_simps)
qed

lemma xor_pad:
  assumes "length arr = 128"
  shows "xor_loop_by_8 arr (stored_key k) 0 B =
    Some (xor_bytes (take B arr) (hmac_block_key H B k) @ drop B arr)"
  using assms B_bounds length_block_key
  by (simp add: xor_loop_by_8_multiple xor_loop_Some stored_key_def)

lemma init_hmac:
  assumes "hmac_ready ctx" and len: "unat n \<le> length k" and ok: "unat n \<le> B \<or> ok (unat n)"
  shows "\<exists>ctx'. mbcrypt_hmac_init (Some ctx) (Some k) n = Some (MBCRYPT_STATUS_OK, Some ctx')
    \<and> hmac_holds ctx' (take (unat n) k) []"
proof -
  let ?k = "take (unat n) k" and ?bs = "get_hash_block_size_by_hash_type t"
  obtain cb where ctx: "cbs ctx = Some cb" "hash_cbs (\<lambda>_. True) cb" "hash_type ctx = t"
      "length (key ctx) = 128"
    using assms(1) by (auto simp: hmac_ready_def hmac_state_def hmac_typed_def)
  obtain cb1 Q where 1: "hmac_load_key cb (replicate 128 0) ?bs k n =
      Some (MBCRYPT_STATUS_OK, cb1, stored_key ?k)" "hash_cbs Q cb1"
    using load_key [OF ctx(2) len ok] by blast
  obtain cb2 where 2: "p_hash_init cb1 = Some (MBCRYPT_STATUS_OK, cb2)" "hash_cbs (\<lambda>c. holds c []) cb2"
    using h_init [OF 1(2)] by blast
  let ?arr = "replicate B 0x36 @ replicate (128 - B) 0"
  have x: "xor_loop_by_8 ?arr (stored_key ?k) 0 B = Some (inner_pad ?k @ replicate (128 - B) 0)"
    using xor_pad [of ?arr ?k] B_bounds by (simp add: inner_pad_def xor_bytes_commute)
  have li: "length (inner_pad ?k) = B" by (simp add: inner_pad_def length_block_key)
  obtain cb3 where 3: "p_hash_update cb2 (inner_pad ?k @ replicate (128 - B) 0) ?bs =
      Some (MBCRYPT_STATUS_OK, cb3)" "hash_cbs (\<lambda>c. holds c (inner_pad ?k)) cb3"
    using h_update [OF 2(2), of ?bs "inner_pad ?k @ replicate (128 - B) 0"] li by auto
  have "memset_at (key ctx) 0 0 128 = Some (replicate 128 0)"
    "memset_at (replicate 128 0) 0 (0x36 :: u8) B = Some ?arr"
    using ctx B_bounds by (simp_all add: mem_simps)
  moreover have "length (stored_key ?k) = 128"
    using B_bounds by (simp add: stored_key_def length_block_key)
  ultimately show ?thesis
    using ctx 1 2 3 x
    by (simp add: mbcrypt_hmac_init_def hmac_holds_def hmac_state_def hmac_typed_def Let_def)
qed

lemma update_hmac:
  assumes "hmac_holds ctx k m" and "n \<noteq> 0" and "unat n \<le> length d"
  shows "\<exists>ctx'. mbcrypt_hmac_update (Some ctx) (Some d) n = Some (MBCRYPT_STATUS_OK, Some ctx')
    \<and> hmac_holds ctx' k (m @ take (unat n) d)"
proof -
  obtain cb where cb: "cbs ctx = Some cb" "hash_cbs (\<lambda>c. holds c (inner_pad k @ m)) cb"
    using assms(1) by (auto simp: hmac_holds_def hmac_state_def)
  show ?thesis
    using h_update [OF cb(2) assms(3)] cb assms
    by (auto simp: mbcrypt_hmac_update_def hmac_holds_def hmac_state_def hmac_typed_def)
qed

lemma final_hmac:
  assumes "hmac_holds ctx k m" and "ok (B + length m)" and len: "hsize \<le> length out"
  shows "\<exists>ctx'. mbcrypt_hmac_final (Some ctx) (Some out) =
      Some (MBCRYPT_STATUS_OK, Some ctx', Some (hmac_spec H B k m @ drop hsize out))
    \<and> hmac_ready ctx'"
proof -
  let ?bs = "get_hash_block_size_by_hash_type t" and ?hs = "GET_HASH_SIZE_BY_HASH_TYPE t"
  let ?opad = "xor_bytes (hmac_block_key H B k) (replicate B 0x5C)"
  let ?inner = "H (inner_pad k @ m)"
  obtain cb where ctx: "cbs ctx = Some cb" "hash_cbs (\<lambda>c. holds c (inner_pad k @ m)) cb"
      "hash_type ctx = t" "key ctx = stored_key k" "length (key ctx) = 128"
    using assms(1) by (auto simp: hmac_holds_def hmac_state_def hmac_typed_def)
  have lb: "length (inner_pad k) = B" "length ?opad = B"
    by (simp_all add: inner_pad_def length_block_key)
  have x: "xor_loop_by_8 (replicate 128 0x5C) (stored_key k) 0 B =
      Some (?opad @ replicate (128 - B) 0x5C)"
    using xor_pad [of "replicate 128 0x5C" k] B_bounds by (simp add: xor_bytes_commute)
  obtain cb1 where 1: "p_hash_final cb out = Some (MBCRYPT_STATUS_OK, cb1, ?inner @ drop hsize out)"
      "hash_cbs (\<lambda>_. True) cb1"
    using h_final [OF ctx(2) _ len] assms(2) lb by auto
  obtain cb2 where 2: "p_hash_init cb1 = Some (MBCRYPT_STATUS_OK, cb2)" "hash_cbs (\<lambda>c. holds c []) cb2"
    using h_init [OF 1(2)] by blast
  obtain cb3 where 3: "p_hash_update cb2 (?opad @ replicate (128 - B) 0x5C) ?bs =
      Some (MBCRYPT_STATUS_OK, cb3)" "hash_cbs (\<lambda>c. holds c ?opad) cb3"
    using h_update [OF 2(2), of ?bs "?opad @ replicate (128 - B) 0x5C"] lb by auto
  obtain cb4 where 4: "p_hash_update cb3 (?inner @ drop hsize out) ?hs = Some (MBCRYPT_STATUS_OK, cb4)"
      "hash_cbs (\<lambda>c. holds c (?opad @ ?inner)) cb4"
    using h_update [OF 3(2), of ?hs "?inner @ drop hsize out"] hsize_t length_H by auto
  obtain cb5 where 5: "p_hash_final cb4 (?inner @ drop hsize out) =
        Some (MBCRYPT_STATUS_OK, cb5, H (?opad @ ?inner) @ drop hsize out)"
      "hash_cbs (\<lambda>_. True) cb5"
    using h_final [OF 4(2), of "?inner @ drop hsize out"] ok_outer lb length_H len
    by (auto simp: add.commute)
  show ?thesis
    using ctx x 1 2 3 4 5
    by (auto simp: mbcrypt_hmac_final_def hmac_ready_def hmac_state_def hmac_typed_def hmac_spec_def
        inner_pad_def Let_def)
qed

end

sublocale hmac_hash < hmac: prf_api mbcrypt_hmac_init mbcrypt_hmac_update mbcrypt_hmac_final
    hmac_ready hmac_holds "hmac_spec H (unat (get_hash_block_size_by_hash_type t))" hsize
    "\<lambda>n. n \<le> unat (get_hash_block_size_by_hash_type t) \<or> ok n"
    "\<lambda>n. ok (unat (get_hash_block_size_by_hash_type t) + n)"
proof unfold_locales
  show "hmac_holds c k m \<Longrightarrow> hmac_ready c" for c k m
    unfolding hmac_holds_def hmac_ready_def hmac_state_def hash_cbs_def by blast
  show "length (hmac_spec H B k m) = hsize" for k m
    by (simp add: hmac_spec_def Let_def length_H)
qed (use init_hmac update_hmac final_hmac in blast)+

subsection \<open>The one-call interface\<close>

context hmac_hash
begin

lemma hmac_once:
  assumes cb: "hash_cbs (\<lambda>_. True) cb" and kn: "unat kn \<le> length k" "unat kn \<le> B \<or> ok (unat kn)"
    and dn: "dn \<noteq> 0" "unat dn \<le> length d" "ok (B + unat dn)" and out: "hsize \<le> length out"
  shows "\<exists>cb'. mbcrypt_hmac t (Some cb) (Some k) kn (Some d) dn (Some out) =
    Some (MBCRYPT_STATUS_OK, cb', Some (hmac_spec H B (take (unat kn) k) (take (unat dn) d) @ drop hsize out))"
proof -
  let ?c0 = "\<lparr>cbs = Some cb, hash_type = t, key = replicate 128 0\<rparr>"
  have "hmac_ready ?c0" using cb by (auto simp: hmac_ready_def hmac_state_def hmac_typed_def)
  then obtain c1 where 1: "mbcrypt_hmac_init (Some ?c0) (Some k) kn = Some (MBCRYPT_STATUS_OK, Some c1)"
      "hmac_holds c1 (take (unat kn) k) []"
    using init_hmac [OF _ kn] by blast
  obtain c2 where 2: "mbcrypt_hmac_update (Some c1) (Some d) dn = Some (MBCRYPT_STATUS_OK, Some c2)"
      "hmac_holds c2 (take (unat kn) k) (take (unat dn) d)"
    using update_hmac [OF 1(2) dn(1,2)] by auto
  obtain c3 where 3: "mbcrypt_hmac_final (Some c2) (Some out) = Some (MBCRYPT_STATUS_OK, Some c3,
      Some (hmac_spec H B (take (unat kn) k) (take (unat dn) d) @ drop hsize out))"
    using final_hmac [OF 2(2) _ out] dn by (auto simp: min_absorb2)
  show ?thesis using 1 2 3 by (simp add: mbcrypt_hmac_def)
qed

text \<open>An empty message is rejected, although HMAC is defined for it.\<close>

lemma hmac_empty:
  assumes cb: "hash_cbs (\<lambda>_. True) cb" and kn: "unat kn \<le> length k" "unat kn \<le> B \<or> ok (unat kn)"
  shows "\<exists>cb'. mbcrypt_hmac t (Some cb) (Some k) kn (Some d) 0 out =
    Some (MBCRYPT_STATUS_FAIL_INCORRECT_FUNCTION_PARAM, cb', out)"
proof -
  let ?c0 = "\<lparr>cbs = Some cb, hash_type = t, key = replicate 128 0\<rparr>"
  have "hmac_ready ?c0" using cb by (auto simp: hmac_ready_def hmac_state_def hmac_typed_def)
  then obtain c1 where 1: "mbcrypt_hmac_init (Some ?c0) (Some k) kn = Some (MBCRYPT_STATUS_OK, Some c1)"
      "hmac_holds c1 (take (unat kn) k) []"
    using init_hmac [OF _ kn] by blast
  then obtain cb1 where "cbs c1 = Some cb1" by (auto simp: hmac_holds_def hmac_state_def)
  then show ?thesis using 1 by (simp add: mbcrypt_hmac_def mbcrypt_hmac_update_def)
qed

end

subsection \<open>HMAC over SHA-1 and SHA-256, and SHA-512\<close>

interpretation hmac_sha1: hmac_hash mbcrypt_sha1_init mbcrypt_sha1_update mbcrypt_sha1_final
    sha1_holds fips_sha1 20 "\<lambda>n. n < 2 ^ 61" MBCRYPT_HASH_TYPE_SHA1
  by unfold_locales (simp_all add: get_hash_block_size_by_hash_type_def)

interpretation hmac_sha256: hmac_hash mbcrypt_sha256_init mbcrypt_sha256_update mbcrypt_sha256_final
    sha256_holds fips_sha256 32 "\<lambda>n. n < 2 ^ 61" MBCRYPT_HASH_TYPE_SHA256
  by unfold_locales (simp_all add: get_hash_block_size_by_hash_type_def)

text \<open>The callbacks of the three hashes, with a context of the caller.\<close>

definition sha1_callbacks :: "sha1_ctx \<Rightarrow> sha1_ctx mbcrypt_hash_callbacks_t" where
  "sha1_callbacks c = \<lparr>hash_ctx = Some c, hash_init = Some mbcrypt_sha1_init,
     hash_update = Some mbcrypt_sha1_update, hash_final = Some mbcrypt_sha1_final\<rparr>"

definition sha256_callbacks :: "sha256_ctx \<Rightarrow> sha256_ctx mbcrypt_hash_callbacks_t" where
  "sha256_callbacks c = \<lparr>hash_ctx = Some c, hash_init = Some mbcrypt_sha256_init,
     hash_update = Some mbcrypt_sha256_update, hash_final = Some mbcrypt_sha256_final\<rparr>"







subsection \<open>Properties\<close>

text \<open>
  C2. HMAC over SHA-256 is right: with the SHA-256 callbacks, any key and any non-empty message,
  \<open>mbcrypt_hmac\<close> returns \<open>MBCRYPT_STATUS_OK\<close> and writes the value of FIPS 198-1 to \<open>out\<close>,
  whatever the callers' hash context held.
\<close>

theorem hmac_sha256_value:
  assumes "unat kn \<le> length k" and "dn \<noteq> 0" and "unat dn \<le> length d" and "32 \<le> length out"
  shows "\<exists>cb'. mbcrypt_hmac MBCRYPT_HASH_TYPE_SHA256 (Some (sha256_callbacks c)) (Some k) kn
      (Some d) dn (Some out) =
    Some (MBCRYPT_STATUS_OK, cb',
      Some (hmac_spec fips_sha256 64 (take (unat kn) k) (take (unat dn) d) @ drop 32 out))"
  using hmac_sha256.hmac_once [of "sha256_callbacks c" kn k dn d out] assms
    unat_u32_lt [of kn] unat_u32_lt [of dn]
  by (simp add: hmac_sha256.hash_cbs_def sha256_callbacks_def get_hash_block_size_by_hash_type_def)

theorem hmac_sha256_value_witness:
  "\<exists>cb'. mbcrypt_hmac MBCRYPT_HASH_TYPE_SHA256 (Some (sha256_callbacks sha256_any_ctx))
      (Some (replicate 100 0x0B)) 100 (Some [0x48, 0x69]) 2 (Some (replicate 32 0)) =
    Some (MBCRYPT_STATUS_OK, cb', Some (hmac_spec fips_sha256 64 (replicate 100 0x0B) [0x48, 0x69]))"
  using hmac_sha256_value [of 100 "replicate 100 0x0B" 2 "[0x48, 0x69]" "replicate 32 0" sha256_any_ctx]
  by simp

text \<open>
  HMAC over SHA-1 is right, in the same sense.
\<close>

theorem hmac_sha1_value:
  assumes "unat kn \<le> length k" and "dn \<noteq> 0" and "unat dn \<le> length d" and "20 \<le> length out"
  shows "\<exists>cb'. mbcrypt_hmac MBCRYPT_HASH_TYPE_SHA1 (Some (sha1_callbacks c)) (Some k) kn
      (Some d) dn (Some out) =
    Some (MBCRYPT_STATUS_OK, cb',
      Some (hmac_spec fips_sha1 64 (take (unat kn) k) (take (unat dn) d) @ drop 20 out))"
  using hmac_sha1.hmac_once [of "sha1_callbacks c" kn k dn d out] assms
    unat_u32_lt [of kn] unat_u32_lt [of dn]
  by (simp add: hmac_sha1.hash_cbs_def sha1_callbacks_def get_hash_block_size_by_hash_type_def)



text \<open>
  C7. The keyed interface in steps: after \<open>mbcrypt_hmac_init\<close> on a context with SHA-256
  callbacks, any number of updates with non-empty data and \<open>mbcrypt_hmac_final\<close> give HMAC of the
  concatenation, and the context can be keyed again.
\<close>

theorem hmac_sha256_in_pieces:
  assumes "length ks = 128" and "unat kn \<le> length k" and "32 \<le> length out"
    and "\<forall>p \<in> set ps. 0 < length p \<and> length p < 4294967296" and "length (concat ps) < 2 ^ 60"
  shows "\<exists>c1 c2 c3.
      mbcrypt_hmac_init (Some \<lparr>cbs = Some (sha256_callbacks c), hash_type = MBCRYPT_HASH_TYPE_SHA256,
        key = ks\<rparr>) (Some k) kn = Some (MBCRYPT_STATUS_OK, Some c1)
    \<and> feed mbcrypt_hmac_update c1 ps = Some (MBCRYPT_STATUS_OK, Some c2)
    \<and> mbcrypt_hmac_final (Some c2) (Some out) = Some (MBCRYPT_STATUS_OK, Some c3,
        Some (hmac_spec fips_sha256 64 (take (unat kn) k) (concat ps) @ drop 32 out))"
proof -
  let ?c = "\<lparr>cbs = Some (sha256_callbacks c), hash_type = MBCRYPT_HASH_TYPE_SHA256, key = ks\<rparr>"
  have "hmac_sha256.hmac_ready ?c"
    using assms(1)
    by (auto simp: hmac_sha256.hmac_ready_def hmac_sha256.hmac_state_def hmac_sha256.hash_cbs_def
        hmac_typed_def sha256_callbacks_def)
  moreover have "unat kn < 2 ^ 61" using unat_u32_lt [of kn] by simp
  moreover have "64 + length (concat ps) < 2 ^ 61" using assms(5) by simp
  ultimately show ?thesis
    using hmac_sha256.hmac.keyed_pieces [of ?c kn k ps out] assms(2-4)
    by (simp add: get_hash_block_size_by_hash_type_def) blast
qed

theorem hmac_sha256_in_pieces_witness:
  "\<exists>c1 c2 c3.
      mbcrypt_hmac_init (Some \<lparr>cbs = Some (sha256_callbacks sha256_any_ctx),
        hash_type = MBCRYPT_HASH_TYPE_SHA256, key = replicate 128 0\<rparr>) (Some [0x4A, 0x65]) 2 =
        Some (MBCRYPT_STATUS_OK, Some c1)
    \<and> feed mbcrypt_hmac_update c1 [[0x61], [0x62, 0x63]] = Some (MBCRYPT_STATUS_OK, Some c2)
    \<and> mbcrypt_hmac_final (Some c2) (Some (replicate 32 0)) = Some (MBCRYPT_STATUS_OK, Some c3,
        Some (hmac_spec fips_sha256 64 [0x4A, 0x65] [0x61, 0x62, 0x63]))"
  using hmac_sha256_in_pieces [of "replicate 128 0" 2 "[0x4A, 0x65]" "replicate 32 0"
      "[[0x61], [0x62, 0x63]]" sha256_any_ctx]
  by simp

text \<open>
  C34. What HMAC rejects: a null context, callbacks, key, data or output gives
  \<open>MBCRYPT_STATUS_FAIL_NULL_PTR\<close> and changes nothing, and an update with no data gives
  \<open>MBCRYPT_STATUS_FAIL_INCORRECT_FUNCTION_PARAM\<close>, so HMAC of the empty message, which the
  standard defines, cannot be computed with the one-call interface.
\<close>

theorem hmac_rejects:
  shows "mbcrypt_hmac_init None k kn = Some (MBCRYPT_STATUS_FAIL_NULL_PTR, None)
    \<and> mbcrypt_hmac_init (Some (x\<lparr>cbs := None\<rparr>)) k kn =
        Some (MBCRYPT_STATUS_FAIL_NULL_PTR, Some (x\<lparr>cbs := None\<rparr>))
    \<and> mbcrypt_hmac_init (Some x) None kn = Some (MBCRYPT_STATUS_FAIL_NULL_PTR, Some x)
    \<and> mbcrypt_hmac_update None d dn = Some (MBCRYPT_STATUS_FAIL_NULL_PTR, None)
    \<and> mbcrypt_hmac_update (Some x) None dn = Some (MBCRYPT_STATUS_FAIL_NULL_PTR, Some x)
    \<and> mbcrypt_hmac_update (Some (x\<lparr>cbs := Some cb\<rparr>)) (Some b) 0 =
        Some (MBCRYPT_STATUS_FAIL_INCORRECT_FUNCTION_PARAM, Some (x\<lparr>cbs := Some cb\<rparr>))
    \<and> mbcrypt_hmac_final None out = Some (MBCRYPT_STATUS_FAIL_NULL_PTR, None, out)
    \<and> mbcrypt_hmac_final (Some x) None = Some (MBCRYPT_STATUS_FAIL_NULL_PTR, Some x, None)
    \<and> (\<exists>cb'. mbcrypt_hmac MBCRYPT_HASH_TYPE_SHA256 (Some (sha256_callbacks c)) (Some []) 0 (Some b) 0 out =
        Some (MBCRYPT_STATUS_FAIL_INCORRECT_FUNCTION_PARAM, cb', out))"
  using hmac_sha256.hmac_empty [of "sha256_callbacks c" 0 "[]" b out]
  by (auto simp: mbcrypt_hmac_init_def mbcrypt_hmac_update_def mbcrypt_hmac_final_def
      hmac_sha256.hash_cbs_def sha256_callbacks_def split: option.splits)

subsection \<open>HMAC as the keyed function of PBKDF2 and KBKDF\<close>

definition hmac_callbacks :: "'c mbcrypt_hmac_t \<Rightarrow> 'c mbcrypt_hmac_t mbcrypt_hmac_callbacks_t" where
  "hmac_callbacks ctx = \<lparr>hmac_ctx = Some ctx, hmac_init = Some mbcrypt_hmac_init,
     hmac_update = Some mbcrypt_hmac_update, hmac_final = Some mbcrypt_hmac_final\<rparr>"

text \<open>A context as the caller of PBKDF2 or KBKDF sets it up, with any contents of the key field.\<close>

definition hmac_context ::
    "mbcrypt_hash_type_e \<Rightarrow> 'c mbcrypt_hash_callbacks_t \<Rightarrow> bytes \<Rightarrow> 'c mbcrypt_hmac_t" where
  "hmac_context t cb ks = \<lparr>cbs = Some cb, hash_type = t, key = ks\<rparr>"

lemma sha256_context_ready:
  "length ks = 128 \<Longrightarrow>
     hmac_sha256.hmac.cbs_in hmac_sha256.hmac_ready
       (hmac_callbacks (hmac_context MBCRYPT_HASH_TYPE_SHA256 (sha256_callbacks c) ks))"
  by (auto simp: hmac_sha256.hmac.cbs_in_def hmac_callbacks_def hmac_context_def
      hmac_sha256.hmac_ready_def hmac_sha256.hmac_state_def hmac_sha256.hash_cbs_def
      sha256_callbacks_def hmac_typed_def)

lemma sha1_context_ready:
  "length ks = 128 \<Longrightarrow>
     hmac_sha1.hmac.cbs_in hmac_sha1.hmac_ready
       (hmac_callbacks (hmac_context MBCRYPT_HASH_TYPE_SHA1 (sha1_callbacks c) ks))"
  by (auto simp: hmac_sha1.hmac.cbs_in_def hmac_callbacks_def hmac_context_def
      hmac_sha1.hmac_ready_def hmac_sha1.hmac_state_def hmac_sha1.hash_cbs_def
      sha1_callbacks_def hmac_typed_def)

end
