(* ===== verification/Pbkdf2.thy ===== *)
theory Pbkdf2
  imports Prf Mbcrypt_Utils
begin

text \<open>
  PBKDF2, \<open>src/pbkdf2.c\<close> and \<open>includes/pbkdf2.h\<close>, over the callbacks of a keyed function. The
  theory holds the code, the specification of RFC 8018 and the proof that over every keyed
  function that keeps the contract \<open>prf_api\<close> the code computes it, with the one difference
  that the block counter has 24 bits instead of 32.
\<close>

subsection \<open>The code\<close>

text \<open>
  The counter: \<open>for (i = 3; i > 0; --i) { ++ctr[i]; if (ctr[i] != 0) break; }\<close>. The loop never
  reaches \<open>ctr[0]\<close>.
\<close>

fun pbkdf2_ctr_loop :: "bytes \<Rightarrow> nat \<Rightarrow> bytes" where
  "pbkdf2_ctr_loop ctr 0 = ctr"
| "pbkdf2_ctr_loop ctr (Suc i) =
     (let ctr = ctr[Suc i := ctr ! Suc i + 1]
      in if ctr ! Suc i \<noteq> 0 then ctr else pbkdf2_ctr_loop ctr i)"

text \<open>
  The loop over \<open>i\<close> from 1 below \<open>iters\<close>, as the default \<open>PBKDF2_MIN_SIZE == ENABLED\<close> compiles it:
  \<open>mem_xor\<close> is \<open>mem_xor_secured\<close>. The other variant, eight assignments for each test of the index,
  gives the same bytes of the digest (\<open>unrolled_xor\<close> below). The digest size is a function of the hash type, and
  both arrays have \<open>PBKDF2_HMAC_MAX_BUFFER_SIZE\<close> bytes.
\<close>

function pbkdf2_iters ::
    "mbcrypt_hash_type_e \<Rightarrow> 's mbcrypt_hmac_callbacks_t \<Rightarrow> bytes \<Rightarrow> u32 \<Rightarrow> bytes \<Rightarrow> bytes \<Rightarrow>
     u32 \<Rightarrow> u32 \<Rightarrow> (mbcrypt_status_e \<times> 's mbcrypt_hmac_callbacks_t \<times> bytes \<times> bytes) ub" where
  "pbkdf2_iters htype cbs password pass_len U T i iters =
     (let U_len = GET_HASH_SIZE_BY_HASH_TYPE htype in
      if i < iters then do {
        (st, cbs) \<leftarrow> p_hmac_update cbs (Some U) U_len;
        if st \<noteq> MBCRYPT_STATUS_OK then Some (st, cbs, U, T) else do {
          (st, cbs, U) \<leftarrow> p_hmac_final cbs U;
          if st \<noteq> MBCRYPT_STATUS_OK then Some (st, cbs, U, T) else do {
            (st, cbs) \<leftarrow> p_hmac_init cbs (Some password) pass_len;
            if st \<noteq> MBCRYPT_STATUS_OK then Some (st, cbs, U, T) else do {
              T \<leftarrow> mem_xor_secured (Some T) (Some U) U_len;
              T \<leftarrow> T;
              pbkdf2_iters htype cbs password pass_len U T (i + 1) iters
            }
          }
        }
      } else Some (MBCRYPT_STATUS_OK, cbs, U, T))"
  by pat_completeness auto
termination
proof (relation "measure (\<lambda>(_, _, _, _, _, _, i, iters). unat iters - unat i)", goal_cases)
  case (2 htype cbs password pass_len U T i iters)
  then have "unat (i + 1) = unat i + 1"
    using unat_u32_lt [of iters] by (simp add: unat_add_u32 word_less_nat_alt)
  then show ?case using 2 by (simp add: word_less_nat_alt)
qed simp

declare pbkdf2_iters.simps [simp del]

text \<open>The body of the \<open>while\<close> loop up to the end of the iterations: one block in \<open>T\<close>.\<close>

definition pbkdf2_block ::
    "mbcrypt_hash_type_e \<Rightarrow> 's mbcrypt_hmac_callbacks_t \<Rightarrow> bytes \<Rightarrow> u32 \<Rightarrow> bytes \<Rightarrow> u32 \<Rightarrow> u32 \<Rightarrow>
     bytes \<Rightarrow> bytes \<Rightarrow> bytes \<Rightarrow> (mbcrypt_status_e \<times> 's mbcrypt_hmac_callbacks_t \<times> bytes \<times> bytes) ub" where
  "pbkdf2_block htype cbs password pass_len salt salt_len iters ctr U T = do {
     (st, cbs) \<leftarrow> p_hmac_init cbs (Some password) pass_len;
     if st \<noteq> MBCRYPT_STATUS_OK then Some (st, cbs, U, T) else do {
       (st, cbs) \<leftarrow> p_hmac_update cbs (Some salt) salt_len;
       if st \<noteq> MBCRYPT_STATUS_OK then Some (st, cbs, U, T) else do {
         (st, cbs) \<leftarrow> p_hmac_update cbs (Some ctr) 4;
         if st \<noteq> MBCRYPT_STATUS_OK then Some (st, cbs, U, T) else do {
           (st, cbs, T) \<leftarrow> p_hmac_final cbs T;
           if st \<noteq> MBCRYPT_STATUS_OK then Some (st, cbs, U, T) else do {
             U \<leftarrow> memcpy_at U 0 T (unat (GET_HASH_SIZE_BY_HASH_TYPE htype));
             (st, cbs) \<leftarrow> p_hmac_init cbs (Some password) pass_len;
             if st \<noteq> MBCRYPT_STATUS_OK then Some (st, cbs, U, T) else
               pbkdf2_iters htype cbs password pass_len U T 1 iters
           }
         }
       }
     }
   }"

text \<open>The \<open>while (out_len != 0)\<close> loop; \<open>off\<close> is \<open>out_p - out\<close>.\<close>

function pbkdf2_blocks ::
    "mbcrypt_hash_type_e \<Rightarrow> 's mbcrypt_hmac_callbacks_t \<Rightarrow> bytes \<Rightarrow> u32 \<Rightarrow> bytes \<Rightarrow> u32 \<Rightarrow> u32 \<Rightarrow>
     bytes \<Rightarrow> bytes \<Rightarrow> bytes \<Rightarrow> bytes \<Rightarrow> nat \<Rightarrow> u32 \<Rightarrow>
     (mbcrypt_status_e \<times> 's mbcrypt_hmac_callbacks_t \<times> bytes) ub" where
  "pbkdf2_blocks htype cbs password pass_len salt salt_len iters ctr U T out off out_len =
     (if out_len \<noteq> 0 then do {
        (st, cbs, U, T) \<leftarrow> pbkdf2_block htype cbs password pass_len salt salt_len iters ctr U T;
        if st \<noteq> MBCRYPT_STATUS_OK then Some (st, cbs, out) else
          let U_len = GET_HASH_SIZE_BY_HASH_TYPE htype;
              use_len = (if out_len < U_len then out_len else U_len)
          in do {
            out \<leftarrow> memcpy_at out off T (unat use_len);
            pbkdf2_blocks htype cbs password pass_len salt salt_len iters
              (pbkdf2_ctr_loop ctr 3) U T out (off + unat use_len) (out_len - use_len)
          }
      } else Some (MBCRYPT_STATUS_OK, cbs, out))"
  by pat_completeness auto
termination
proof (relation "measure (\<lambda>(_, _, _, _, _, _, _, _, _, _, _, _, n). unat n)", goal_cases)
  case (2 htype cbs password pass_len salt salt_len iters ctr U T out off out_len)
  then show ?case
    using hash_size_bounds(1) [of htype]
    by (auto simp: unat_sub_u32 word_less_nat_alt word_le_nat_alt not_less unat_gt_0)
qed simp

declare pbkdf2_blocks.simps [simp del]

text \<open>
  \<open>mbcrypt_pbkdf2_hmac\<close>; \<open>U\<close> and \<open>T\<close> are its uninitialised local arrays, which the model takes
  as arguments.
\<close>

definition mbcrypt_pbkdf2_hmac ::
    "bytes \<Rightarrow> bytes \<Rightarrow> mbcrypt_hash_type_e \<Rightarrow> 's mbcrypt_hmac_callbacks_t ptr \<Rightarrow> bytes ptr \<Rightarrow> u32 \<Rightarrow>
     bytes ptr \<Rightarrow> u32 \<Rightarrow> u32 \<Rightarrow> bytes ptr \<Rightarrow> u32 \<Rightarrow>
     (mbcrypt_status_e \<times> 's mbcrypt_hmac_callbacks_t ptr \<times> bytes ptr) ub" where
  "mbcrypt_pbkdf2_hmac U T htype cbs password pass_len salt salt_len iters out out_len =
     (case (password, salt, out) of
        (Some password, Some salt, Some out) \<Rightarrow> do {
          cbs \<leftarrow> cbs;
          if pass_len = 0 \<or> salt_len = 0 \<or> out_len = 0 \<or> iters = 0
          then Some (MBCRYPT_STATUS_FAIL_INCORRECT_FUNCTION_PARAM, Some cbs, Some out)
          else do {
            (st, cbs, out) \<leftarrow> pbkdf2_blocks htype cbs password pass_len salt salt_len iters
              ((replicate 4 0)[3 := 1]) U T out 0 out_len;
            Some (st, Some cbs, Some out)
          }
        }
      | _ \<Rightarrow> Some (MBCRYPT_STATUS_FAIL_NULL_PTR, cbs, out))"

subsection \<open>The specification\<close>

text \<open>
  RFC 8018 over a keyed function \<open>prf\<close>: \<open>F (P, S, c, i)\<close> is the exclusive or of the first \<open>c\<close>
  iterates, starting from the keyed function of the salt and the block index.
\<close>

definition pbkdf2_F ::
    "(bytes \<Rightarrow> bytes \<Rightarrow> bytes) \<Rightarrow> bytes \<Rightarrow> bytes \<Rightarrow> nat \<Rightarrow> nat \<Rightarrow> bytes" where
  "pbkdf2_F prf pw salt c i =
     (let u = prf pw (salt @ be_bytes 4 i)
      in foldl xor_bytes u (map (\<lambda>j. (prf pw ^^ Suc j) u) [0..<c - 1]))"

definition pbkdf2_spec ::
    "(bytes \<Rightarrow> bytes \<Rightarrow> bytes) \<Rightarrow> nat \<Rightarrow> bytes \<Rightarrow> bytes \<Rightarrow> nat \<Rightarrow> nat \<Rightarrow> bytes" where
  "pbkdf2_spec prf hlen pw salt c dklen =
     take dklen (concat (map (\<lambda>i. pbkdf2_F prf pw salt c (i + 1)) [0..<(dklen + hlen - 1) div hlen]))"

text \<open>What the code computes: the same with the block index reduced modulo \<open>2\<^sup>2\<^sup>4\<close>.\<close>

definition pbkdf2_wrapped ::
    "(bytes \<Rightarrow> bytes \<Rightarrow> bytes) \<Rightarrow> nat \<Rightarrow> bytes \<Rightarrow> bytes \<Rightarrow> nat \<Rightarrow> nat \<Rightarrow> bytes" where
  "pbkdf2_wrapped prf hlen pw salt c dklen =
     take dklen (concat (map (\<lambda>i. pbkdf2_F prf pw salt c ((i + 1) mod 16777216))
       [0..<(dklen + hlen - 1) div hlen]))"

lemma pbkdf2_wrapped_spec:
  assumes "0 < hlen" and "dklen \<le> 16777215 * hlen"
  shows "pbkdf2_wrapped prf hlen pw salt c dklen = pbkdf2_spec prf hlen pw salt c dklen"
proof -
  have "(dklen + hlen - 1) div hlen \<le> 16777215"
  proof -
    have "dklen + hlen - 1 < 16777216 * hlen" using assms by simp
    then have "(dklen + hlen - 1) div hlen < 16777216" by (simp add: less_mult_imp_div_less)
    then show ?thesis by simp
  qed
  then show ?thesis
    unfolding pbkdf2_wrapped_def pbkdf2_spec_def
    by (intro arg_cong [where f = "\<lambda>x. take dklen (concat x)"] map_cong) auto
qed

subsection \<open>The counter\<close>

text \<open>The counter bytes that stand for the block index \<open>n\<close>: its last 24 bits.\<close>

definition ctr_bytes :: "nat \<Rightarrow> bytes" where
  "ctr_bytes n = 0 # be_bytes 3 n"

lemma ctr_bytes_mod: "ctr_bytes n = be_bytes 4 (n mod 16777216)"
  using be_bytes_append [of 1 3 "n mod 16777216"] be_bytes_mod [of 3 n]
  by (simp add: ctr_bytes_def be_bytes_def)

lemma ctr_bytes_eq:
  "ctr_bytes n = [0, of_nat (n div 256 div 256), of_nat (n div 256), of_nat n]"
  by (simp add: ctr_bytes_def be_bytes_def upt_rec div_mult2_eq [symmetric])

lemma of_nat_u8_eq_0: "(of_nat n :: u8) = 0 \<longleftrightarrow> n mod 256 = 0"
  by (simp add: word_unat_eq_iff unat_of_nat)

lemma ctr_loop_Suc: "pbkdf2_ctr_loop (ctr_bytes n) 3 = ctr_bytes (Suc n)"
proof -
  have loop: "pbkdf2_ctr_loop [x, a, b, c] 3 =
      (if c + 1 \<noteq> 0 then [x, a, b, c + 1] else if b + 1 \<noteq> 0 then [x, a, b + 1, c + 1]
       else [x, a + 1, b + 1, c + 1])" for x a b c
  proof -
    have three: "(3 :: nat) = Suc (Suc (Suc 0))" by simp
    show ?thesis by (simp add: three Let_def)
  qed
  have u8: "(of_nat m :: u8) + 1 = of_nat (Suc m)" for m by (simp add: add.commute)
  have d: "Suc m div 256 = (if Suc m mod 256 = 0 then Suc (m div 256) else m div 256)" for m
    by (rule div_Suc)
  show ?thesis
    unfolding ctr_bytes_eq loop u8 of_nat_u8_eq_0
    by (cases "Suc n mod 256 = 0"; cases "Suc (n div 256) mod 256 = 0")
      (simp_all add: d del: of_nat_Suc)
qed

subsection \<open>The code computes the specification\<close>

context prf_api
begin

abbreviation cbs_keyed :: "bytes \<Rightarrow> 's mbcrypt_hmac_callbacks_t \<Rightarrow> bool" where
  "cbs_keyed pw \<equiv> cbs_in (\<lambda>c. holds c pw [])"

lemma unrolled_xor:
  assumes "psize \<le> 64" and "length T = 128" and "length U = 128"
  shows "\<exists>T'. xor_loop_by_8 T U 0 psize = Some T' \<and> length T' = 128
    \<and> take psize T' = xor_bytes (take psize T) (take psize U)"
proof -
  define k where "k = (psize + 7) div 8"
  have k: "psize \<le> 8 * k" "8 * k < psize + 8" "8 * k \<le> 128"
    using assms(1) unfolding k_def by linarith+
  have "xor_loop_by_8 T U 0 psize = xor_loop T U 0 (8 * k)"
    using xor_loop_by_8_eq [of psize 0 k T U] k by simp
  also have "\<dots> = Some (xor_bytes (take (8 * k) T) (take (8 * k) U) @ drop (8 * k) T)"
    using k assms by (simp add: xor_loop_Some)
  finally show ?thesis
    using k assms by (auto simp: xor_bytes_def take_map take_zip min_absorb1 min_absorb2)
qed

text \<open>Each iteration keys the function anew and folds one more iterate into \<open>T\<close>.\<close>

lemma iters_fold:
  assumes ht: "psize = unat (GET_HASH_SIZE_BY_HASH_TYPE htype)"
    and pw: "unat pl \<le> length p" "okk (unat pl)" and okm: "okm psize"
  defines "f \<equiv> P (take (unat pl) p)"
  shows "cbs_keyed (take (unat pl) p) cbs \<Longrightarrow> length U = 128 \<Longrightarrow> length T = 128 \<Longrightarrow>
    \<exists>cbs' U' T'. pbkdf2_iters htype cbs p pl U T i iters = Some (MBCRYPT_STATUS_OK, cbs', U', T')
      \<and> cbs_keyed (take (unat pl) p) cbs' \<and> length U' = 128 \<and> length T' = 128
      \<and> take psize T' = foldl xor_bytes (take psize T)
          (map (\<lambda>j. (f ^^ Suc j) (take psize U)) [0..<unat iters - unat i])"
proof (induction "unat iters - unat i" arbitrary: cbs U T i)
  case 0
  then have "\<not> i < iters" by (simp add: word_less_nat_alt)
  then show ?case using 0 by (simp add: pbkdf2_iters.simps)
next
  case (Suc n)
  let ?p = "take (unat pl) p" and ?n = "GET_HASH_SIZE_BY_HASH_TYPE htype"
  have i: "i < iters" using Suc.hyps(2) by (simp add: word_less_nat_alt)
  have i1: "unat (i + 1) = unat i + 1"
    using i unat_u32_lt [of iters] by (simp add: unat_add_u32 word_less_nat_alt)
  have ps: "psize \<le> 64" "0 < psize" "?n \<noteq> 0"
    using hash_size_bounds [of htype] ht by auto
  obtain c1 where 1: "p_hmac_update cbs (Some U) ?n = Some (MBCRYPT_STATUS_OK, c1)"
      "cbs_in (\<lambda>c. holds c ?p (take psize U)) c1"
    using p_update [OF Suc.prems(1) ps(3), of U] Suc.prems(2) ps ht by auto
  let ?U = "f (take psize U) @ drop psize U"
  obtain c2 where 2: "p_hmac_final c1 U = Some (MBCRYPT_STATUS_OK, c2, ?U)" "cbs_in ready c2"
    using p_final [OF 1(2), of U] okm Suc.prems(2) ps by (auto simp: f_def min_absorb2)
  obtain c3 where 3: "p_hmac_init c2 (Some p) pl = Some (MBCRYPT_STATUS_OK, c3)" "cbs_keyed ?p c3"
    using p_init [OF 2(2) pw] by auto
  have U: "length ?U = 128" "take psize ?U = f (take psize U)"
    using Suc.prems(2) ps length_P by (simp_all add: f_def)
  define T1 where "T1 = xor_bytes (take psize T) (f (take psize U)) @ drop psize T"
  have T1: "mem_xor_secured (Some T) (Some ?U) ?n = Some (Some T1)" "length T1 = 128"
      "take psize T1 = xor_bytes (take psize T) (f (take psize U))"
    using mem_xor_secured_Some [of ?n T ?U] ps Suc.prems(3) U ht length_P
    by (simp_all add: T1_def f_def)
  have n: "n = unat iters - unat (i + 1)" using Suc.hyps(2) i1 by simp
  obtain c4 U' T' where 4: "pbkdf2_iters htype c3 p pl ?U T1 (i + 1) iters =
        Some (MBCRYPT_STATUS_OK, c4, U', T')" "cbs_keyed ?p c4" "length U' = 128" "length T' = 128"
      "take psize T' = foldl xor_bytes (take psize T1) (map (\<lambda>j. (f ^^ Suc j) (f (take psize U))) [0..<n])"
    using Suc.hyps(1) [OF n 3(2) U(1) T1(2)] U(2) n by auto
  have step: "pbkdf2_iters htype cbs p pl U T i iters = pbkdf2_iters htype c3 p pl ?U T1 (i + 1) iters"
    using 1 2 3 T1 i ht by (subst pbkdf2_iters.simps) (simp add: Let_def)
  have "map (\<lambda>j. (f ^^ Suc j) u) [0..<Suc n] = f u # map (\<lambda>j. (f ^^ Suc j) (f u)) [0..<n]" for u
    by (simp add: map_upt_Suc funpow_swap1 del: upt_Suc)
  then show ?case
    using 4 T1 unfolding step Suc.hyps(2) [symmetric] by (simp del: upt_Suc funpow.simps)
qed

lemma block_F:
  assumes ht: "psize = unat (GET_HASH_SIZE_BY_HASH_TYPE htype)"
    and pw: "unat pl \<le> length p" "okk (unat pl)"
    and salt: "unat sl \<le> length s" "sl \<noteq> 0" "okm (unat sl + 4)" and okm: "okm psize"
    and cbs: "cbs_in ready cbs" and len: "length U = 128" "length T = 128"
    and ctr: "ctr = ctr_bytes n" and iters: "iters \<noteq> 0"
  shows "\<exists>cbs' U' T'. pbkdf2_block htype cbs p pl s sl iters ctr U T =
      Some (MBCRYPT_STATUS_OK, cbs', U', T') \<and> cbs_in ready cbs' \<and> length U' = 128 \<and> length T' = 128
    \<and> take psize T' = pbkdf2_F P (take (unat pl) p) (take (unat sl) s) (unat iters) (n mod 16777216)"
proof -
  let ?p = "take (unat pl) p" and ?s = "take (unat sl) s"
  have ps: "psize \<le> 64" using hash_size_bounds [of htype] ht by auto
  have lc: "length ctr = 4" by (simp add: ctr ctr_bytes_def)
  obtain c1 where 1: "p_hmac_init cbs (Some p) pl = Some (MBCRYPT_STATUS_OK, c1)" "cbs_keyed ?p c1"
    using p_init [OF cbs pw] by auto
  obtain c2 where 2: "p_hmac_update c1 (Some s) sl = Some (MBCRYPT_STATUS_OK, c2)"
      "cbs_in (\<lambda>c. holds c ?p ?s) c2"
    using p_update [OF 1(2) salt(2,1)] by auto
  obtain c3 where 3: "p_hmac_update c2 (Some ctr) 4 = Some (MBCRYPT_STATUS_OK, c3)"
      "cbs_in (\<lambda>c. holds c ?p (?s @ ctr)) c3"
    using p_update [OF 2(2), of 4 ctr] lc by auto
  let ?u = "P ?p (?s @ ctr)"
  obtain c4 where 4: "p_hmac_final c3 T = Some (MBCRYPT_STATUS_OK, c4, ?u @ drop psize T)"
      "cbs_in ready c4"
    using p_final [OF 3(2), of T] salt lc ps len by (auto simp: min_absorb2)
  let ?T = "?u @ drop psize T" and ?U = "?u @ drop psize U"
  have T: "length ?T = 128" "length ?U = 128" "take psize ?T = ?u" "take psize ?U = ?u"
    using ps len length_P by simp_all
  have cp: "memcpy_at U 0 ?T psize = Some ?U"
    using ps len length_P T by (simp add: mem_simps)
  obtain c5 where 5: "p_hmac_init c4 (Some p) pl = Some (MBCRYPT_STATUS_OK, c5)" "cbs_keyed ?p c5"
    using p_init [OF 4(2) pw] by auto
  have "1 \<le> unat iters" using iters by (simp add: Suc_le_eq unat_gt_0)
  then obtain c6 U' T' where 6: "pbkdf2_iters htype c5 p pl ?U ?T 1 iters =
        Some (MBCRYPT_STATUS_OK, c6, U', T')" "cbs_keyed ?p c6" "length U' = 128" "length T' = 128"
      "take psize T' = foldl xor_bytes ?u (map (\<lambda>j. (P ?p ^^ Suc j) ?u) [0..<unat iters - 1])"
    using iters_fold [OF ht pw okm 5(2) T(2,1), of 1 iters] T(3,4) by auto
  have "take psize T' = pbkdf2_F P ?p ?s (unat iters) (n mod 16777216)"
    using 6(5) by (simp add: pbkdf2_F_def Let_def ctr ctr_bytes_mod)
  moreover have "cbs_in ready c6" using 6(2) by (rule cbs_ready)
  ultimately show ?thesis
    using 1 2 3 4 5 6 cp ht by (auto simp: pbkdf2_block_def)
qed

end

lemma block_count:
  assumes "0 < (h :: nat)" and "0 < n"
  shows "(n + h - 1) div h = Suc ((n - min n h + h - 1) div h)"
proof (cases "n \<le> h")
  case True
  then have "(n + h - 1) div h = 1" using assms by (simp add: div_nat_eqI)
  moreover have "(h - 1) div h = 0" using assms by simp
  ultimately show ?thesis using True by simp
next
  case False
  then have "n + h - 1 = (n - h + h - 1) + h" using assms by simp
  then have "(n + h - 1) div h = Suc ((n - h + h - 1) div h)"
    using assms(1) by (metis Suc_eq_plus1 div_add_self2 less_not_refl2)
  then show ?thesis using False by (simp add: min_def)
qed

context prf_api
begin

lemma length_pbkdf2_F: "length (pbkdf2_F P pw s c i) = psize"
proof -
  have "length (foldl xor_bytes u us) = psize"
    if "length u = psize" "\<forall>v \<in> set us. length v = psize" for u us
    using that by (induction us arbitrary: u) simp_all
  then show ?thesis by (simp add: pbkdf2_F_def Let_def length_P)
qed

lemma blocks_out:
  assumes ht: "psize = unat (GET_HASH_SIZE_BY_HASH_TYPE htype)"
    and pw: "unat pl \<le> length p" "okk (unat pl)"
    and salt: "unat sl \<le> length s" "sl \<noteq> 0" "okm (unat sl + 4)" and okm: "okm psize"
    and iters: "iters \<noteq> 0"
  defines "F \<equiv> pbkdf2_F P (take (unat pl) p) (take (unat sl) s) (unat iters)"
  shows "cbs_in ready cbs \<Longrightarrow> length U = 128 \<Longrightarrow> length T = 128 \<Longrightarrow> off + unat n \<le> length out \<Longrightarrow>
    \<exists>cbs'. pbkdf2_blocks htype cbs p pl s sl iters (ctr_bytes idx) U T out off n =
      Some (MBCRYPT_STATUS_OK, cbs',
        take off out @ take (unat n) (concat (map (\<lambda>i. F ((idx + i) mod 16777216))
          [0..<(unat n + psize - 1) div psize])) @ drop (off + unat n) out)"
proof (induction "unat n" arbitrary: cbs U T off n out idx rule: less_induct)
  case less
  have ps: "0 < psize" "psize \<le> 64" using hash_size_bounds [of htype] ht by auto
  show ?case
  proof (cases "n = 0")
    case True
    then show ?thesis by (simp add: pbkdf2_blocks.simps)
  next
    case False
    let ?n = "GET_HASH_SIZE_BY_HASH_TYPE htype"
    define use_len where "use_len = (if n < ?n then n else ?n)"
    have ul: "unat use_len = min (unat n) psize"
      by (auto simp: use_len_def ht word_less_nat_alt min_def)
    have npos: "0 < unat n" using False by (simp add: unat_gt_0)
    have rest: "unat (n - use_len) = unat n - min (unat n) psize"
      by (subst unat_sub_u32) (simp_all add: word_le_nat_alt ul)
    obtain c1 U1 T1 where 1: "pbkdf2_block htype cbs p pl s sl iters (ctr_bytes idx) U T =
          Some (MBCRYPT_STATUS_OK, c1, U1, T1)"
        "cbs_in ready c1" "length U1 = 128" "length T1 = 128" "take psize T1 = F (idx mod 16777216)"
      using block_F [OF ht pw salt okm less.prems(1-3) refl iters] unfolding F_def by blast
    let ?k = "min (unat n) psize" and ?f = "F (idx mod 16777216)"
    let ?out = "take off out @ take ?k ?f @ drop (off + ?k) out"
    have "take ?k T1 = take ?k (take psize T1)" by (simp add: min_def)
    then have cp: "memcpy_at out off T1 ?k = Some ?out"
      using less.prems(4) 1(4,5) ps by (simp add: memcpy_at_Some)
    have lf: "length ?f = psize" by (simp add: F_def length_pbkdf2_F)
    have off': "off + ?k + unat (n - use_len) \<le> length ?out"
      using less.prems(4) lf rest by simp
    let ?G = "\<lambda>j. F ((Suc idx + j) mod 16777216)"
    let ?m = "(unat n - ?k + psize - 1) div psize"
    let ?r = "take (unat n - ?k) (concat (map ?G [0..<?m]))"
    obtain c2 where 2: "pbkdf2_blocks htype c1 p pl s sl iters (ctr_bytes (Suc idx)) U1 T1 ?out
          (off + ?k) (n - use_len) =
        Some (MBCRYPT_STATUS_OK, c2, take (off + ?k) ?out @ ?r @ drop (off + ?k + (unat n - ?k)) ?out)"
      using less.hyps [OF _ 1(2-4) off', of "Suc idx"] rest npos ps by auto
    have step: "pbkdf2_blocks htype cbs p pl s sl iters (ctr_bytes idx) U T out off n =
        pbkdf2_blocks htype c1 p pl s sl iters (ctr_bytes (Suc idx)) U1 T1 ?out (off + ?k) (n - use_len)"
      using False 1(1) cp ul
      by (subst pbkdf2_blocks.simps) (simp add: ctr_loop_Suc Let_def flip: use_len_def)
    have "take (off + ?k) ?out = take off out @ take ?k ?f"
      and "drop (off + ?k + (unat n - ?k)) ?out = drop (off + unat n) out"
      using less.prems(4) lf by (simp_all add: min_absorb2 add.commute)
    moreover have "take (unat n) (concat (map (\<lambda>i. F ((idx + i) mod 16777216)) [0..<Suc ?m])) =
        take ?k ?f @ ?r"
      using lf by (simp add: map_upt_Suc min_def del: upt_Suc)
    ultimately show ?thesis
      using 2 unfolding step block_count [OF ps(1) npos] by simp
  qed
qed

theorem pbkdf2_wrapped_out:
  assumes ht: "psize = unat (GET_HASH_SIZE_BY_HASH_TYPE htype)"
    and pw: "unat pl \<le> length p" "pl \<noteq> 0" "okk (unat pl)"
    and salt: "unat sl \<le> length s" "sl \<noteq> 0" "okm (unat sl + 4)" and okm: "okm psize"
    and iters: "iters \<noteq> 0" and cbs: "cbs_in ready cbs"
    and loc: "length U = 128" "length T = 128" and out: "n \<noteq> 0" "unat n \<le> length out"
  shows "\<exists>cbs'. mbcrypt_pbkdf2_hmac U T htype (Some cbs) (Some p) pl (Some s) sl iters (Some out) n =
    Some (MBCRYPT_STATUS_OK, cbs',
      Some (pbkdf2_wrapped P psize (take (unat pl) p) (take (unat sl) s) (unat iters) (unat n)
        @ drop (unat n) out))"
proof -
  have "replicate 4 (0 :: u8) = [0, 0, 0, 0]" by (simp add: numeral_eq_Suc)
  then have "(replicate 4 0)[3 := 1] = ctr_bytes 1" by (simp add: ctr_bytes_eq numeral_3_eq_3)
  then show ?thesis
    using blocks_out [OF ht pw(1,3) salt okm iters cbs loc, of 0 n out 1] out pw(2) salt(2) iters
    by (auto simp: mbcrypt_pbkdf2_hmac_def pbkdf2_wrapped_def)
qed

end

subsection \<open>The counter repeats\<close>

lemma concat_equal_blocks:
  assumes "\<forall>i < m. length (f i) = h" and "i < m"
  shows "take h (drop (i * h) (concat (map f [0..<m]))) = f i"
proof -
  have len: "length (concat (map f [0..<j])) = j * h" if "j \<le> m" for j
    using that assms(1) by (induction j) simp_all
  have "[0..<m] = [0..<i] @ i # [Suc i..<m]"
    using assms(2) by (metis less_imp_le_nat upt_add_eq_append le_add_diff_inverse upt_conv_Cons zero_le)
  then have "concat (map f [0..<m]) = concat (map f [0..<i]) @ f i @ concat (map f [Suc i..<m])"
    by simp
  then show ?thesis using len [of i] assms by (simp add: min_absorb2)
qed

text \<open>From the block with index \<open>2\<^sup>2\<^sup>4\<close> on, the blocks of the code repeat from the start.\<close>

lemma pbkdf2_wrapped_repeats:
  assumes len: "\<And>i. length (pbkdf2_F prf pw salt c i) = hlen" and "0 < hlen"
    and dk: "(i + 16777217) * hlen \<le> dklen"
  shows "take hlen (drop ((i + 16777216) * hlen) (pbkdf2_wrapped prf hlen pw salt c dklen)) =
    take hlen (drop (i * hlen) (pbkdf2_wrapped prf hlen pw salt c dklen))"
proof -
  define m where "m = (dklen + hlen - 1) div hlen"
  define f where "f = (\<lambda>i. pbkdf2_F prf pw salt c ((i + 1) mod 16777216))"
  have m: "i + 16777217 \<le> m"
    using dk assms(2) unfolding m_def by (simp add: less_eq_div_iff_mult_less_eq)
  have lf: "\<forall>i < m. length (f i) = hlen" by (simp add: f_def len)
  have W: "pbkdf2_wrapped prf hlen pw salt c dklen = take dklen (concat (map f [0..<m]))"
    by (simp add: pbkdf2_wrapped_def m_def f_def)
  have blk: "take hlen (drop (j * hlen) (pbkdf2_wrapped prf hlen pw salt c dklen)) = f j"
    if "j < m" "(j + 1) * hlen \<le> dklen" for j
  proof -
    have "hlen \<le> dklen - j * hlen" using that(2) by simp
    then show ?thesis
      using concat_equal_blocks [OF lf that(1)] by (simp add: W drop_take min_absorb1)
  qed
  have "(i + 16777216 + 1) mod 16777216 = (i + 1) mod 16777216"
    using mod_add_self2 [of "i + 1" 16777216] by (simp only: ac_simps)
  then have "f (i + 16777216) = f i" by (simp only: f_def)
  moreover have "(i + 1) * hlen \<le> dklen"
  proof -
    have "(i + 1) * hlen \<le> (i + 16777217) * hlen" by (rule mult_le_mono1) simp
    then show ?thesis using dk by simp
  qed
  moreover have "(i + 16777216 + 1) * hlen \<le> dklen" using dk by (simp only: add.assoc) simp
  ultimately show ?thesis
    using blk [of "i + 16777216"] blk [of i] m by simp
qed

lemma length_pbkdf2_wrapped:
  assumes "\<And>i. length (pbkdf2_F prf pw salt c i) = hlen" and "0 < hlen"
  shows "length (pbkdf2_wrapped prf hlen pw salt c dklen) = dklen"
proof -
  have "length (concat (map (\<lambda>i. pbkdf2_F prf pw salt c ((i + 1) mod 16777216)) [0..<m])) = m * hlen" for m
    by (induction m) (simp_all add: assms(1))
  moreover have "dklen \<le> (dklen + hlen - 1) div hlen * hlen"
  proof -
    have "(dklen + hlen - 1) mod hlen < hlen" using assms(2) by simp
    then show ?thesis using div_mult_mod_eq [of "dklen + hlen - 1" hlen] assms(2) by linarith
  qed
  ultimately show ?thesis by (simp add: pbkdf2_wrapped_def)
qed

end
