(* ===== verification/Kbkdf.thy ===== *)
theory Kbkdf
  imports Prf "HOL-Library.Signed_Division"
begin

text \<open>
  KBKDF, \<open>src/kbkdf.c\<close> and \<open>includes/kbkdf.h\<close>: the key derivation of NIST SP 800-108 in counter,
  feedback and double-pipeline mode over the callbacks of a keyed function. Lengths of derived
  keys are in bits, the other lengths in bytes. \<open>Kbkdf_Counter\<close> has the specification and
  counter mode, \<open>Kbkdf_Chained\<close> the other two modes, \<open>Kbkdf_Api\<close> the entry point.
\<close>

subsection \<open>Options, masks and the bit shift\<close>

record mbcrypt_kbkdf_opts_t =
  ctr_rlen :: u32
  ctr_rpos :: i32

datatype mbcrypt_kbkdf_mode_e =
    MBCRYPT_KBKDF_MODE_COUNTER
  | MBCRYPT_KBKDF_MODE_FEEDBACK
  | MBCRYPT_KBKDF_MODE_DOUBLE_PIPELINE

fun kbkdf_mode_code :: "mbcrypt_kbkdf_mode_e \<Rightarrow> u32" where
  "kbkdf_mode_code MBCRYPT_KBKDF_MODE_COUNTER = 0"
| "kbkdf_mode_code MBCRYPT_KBKDF_MODE_FEEDBACK = 1"
| "kbkdf_mode_code MBCRYPT_KBKDF_MODE_DOUBLE_PIPELINE = 2"

definition bit_mask_left :: bytes where
  "bit_mask_left = [0, 0x80, 0x80 + 0x40, 0x80 + 0x40 + 0x20, 0x80 + 0x40 + 0x20 + 0x10,
     0x80 + 0x40 + 0x20 + 0x10 + 0x08, 0x80 + 0x40 + 0x20 + 0x10 + 0x08 + 0x04,
     0x80 + 0x40 + 0x20 + 0x10 + 0x08 + 0x04 + 0x02,
     0x80 + 0x40 + 0x20 + 0x10 + 0x08 + 0x04 + 0x02 + 0x01]"

definition bit_mask_right :: bytes where
  "bit_mask_right = [0, 0x01, 0x02 + 0x01, 0x04 + 0x02 + 0x01, 0x08 + 0x04 + 0x02 + 0x01,
     0x10 + 0x08 + 0x04 + 0x02 + 0x01, 0x20 + 0x10 + 0x08 + 0x04 + 0x02 + 0x01,
     0x40 + 0x20 + 0x10 + 0x08 + 0x04 + 0x02 + 0x01,
     0x80 + 0x40 + 0x20 + 0x10 + 0x08 + 0x04 + 0x02 + 0x01]"

text \<open>
  The loop of \<open>_shift_array_right\<close> over \<open>n\<close> bytes from index \<open>i\<close> of the array that \<open>array\<close>
  points into. The source requires \<open>1 \<le> shift \<le> 7\<close>.
\<close>

fun shift_array_right :: "bytes \<Rightarrow> nat \<Rightarrow> nat \<Rightarrow> nat \<Rightarrow> u8 \<Rightarrow> bytes ub" where
  "shift_array_right arr i 0 shift carry = Some arr"
| "shift_array_right arr i (Suc n) shift carry = do {
     temp \<leftarrow> rd arr i;
     arr \<leftarrow> wr arr i (drop_bit shift temp OR carry);
     shift_array_right arr (i + 1) n shift (push_bit (8 - shift) temp)
   }"

text \<open>The mask on the last byte of the key, \<open>key_out[pos] &= BIT_MASK_LEFT (key_out_len % 8)\<close>.\<close>

definition kbkdf_mask :: "bytes \<Rightarrow> nat \<Rightarrow> u32 \<Rightarrow> bytes ub" where
  "kbkdf_mask key_out pos key_out_len = do {
     b \<leftarrow> rd key_out pos;
     mask \<leftarrow> rd bit_mask_left (unat (key_out_len mod 8));
     wr key_out pos (b AND mask)
   }"

text \<open>\<open>hmac_final (ctx, key_out)\<close> with \<open>key_out\<close> advanced by \<open>off\<close> bytes.\<close>

definition kbkdf_final_at :: "'s mbcrypt_hmac_callbacks_t \<Rightarrow> bytes \<Rightarrow> nat \<Rightarrow>
    (mbcrypt_status_e \<times> 's mbcrypt_hmac_callbacks_t \<times> bytes) ub" where
  "kbkdf_final_at cbs key_out off =
     (if off \<le> length key_out then do {
        (st, cbs, tail) \<leftarrow> p_hmac_final cbs (drop off key_out);
        Some (st, cbs, take off key_out @ tail)
      } else None)"

text \<open>\<open>hmac_update (ctx, data + off, n)\<close>.\<close>

definition kbkdf_update_at :: "'s mbcrypt_hmac_callbacks_t \<Rightarrow> bytes \<Rightarrow> nat \<Rightarrow> u32 \<Rightarrow>
    (mbcrypt_status_e \<times> 's mbcrypt_hmac_callbacks_t) ub" where
  "kbkdf_update_at cbs data off n =
     (if off \<le> length data then p_hmac_update cbs (Some (drop off data)) n else None)"

text \<open>
  The same inside the condition \<open>(ret = hmac_update (\<dots>) != MBCRYPT_STATUS_OK)\<close>: the comparison
  binds tighter than the assignment, so the status becomes the truth value.
\<close>

definition kbkdf_update_ne_at :: "'s mbcrypt_hmac_callbacks_t \<Rightarrow> bytes \<Rightarrow> nat \<Rightarrow> u32 \<Rightarrow>
    (mbcrypt_status_e \<times> 's mbcrypt_hmac_callbacks_t) ub" where
  "kbkdf_update_ne_at cbs data off n = do {
     (st, cbs) \<leftarrow> kbkdf_update_at cbs data off n;
     Some (status_ne_ok st, cbs)
   }"

subsection \<open>Counter mode\<close>

text \<open>The counter of block \<open>i\<close> in five bytes, the last one 0.\<close>

definition kbkdf_ctr :: "nat \<Rightarrow> bytes ub" where
  "kbkdf_ctr i = do {
     ctr \<leftarrow> PUT_UINT32_BE (of_nat i) (replicate 5 0) 0;
     wr ctr 4 0
   }"

text \<open>
  The counter at a bit position inside a byte: it is shifted right by \<open>rpos_modulo\<close> bits and the
  bits of \<open>fixed_input[rpos]\<close> around it are put in.
\<close>

definition kbkdf_shift_ctr :: "mbcrypt_kbkdf_opts_t \<Rightarrow> bytes \<Rightarrow> bytes \<Rightarrow> u32 \<Rightarrow> u8 \<Rightarrow> bytes ub" where
  "kbkdf_shift_ctr opts ctr fixed_input rpos rpos_modulo = do {
     b \<leftarrow> rd fixed_input (unat rpos);
     left \<leftarrow> rd bit_mask_left (unat rpos_modulo);
     ctr \<leftarrow> shift_array_right ctr (4 - unat (ctr_rlen opts)) (unat (ctr_rlen opts) + 1)
       (unat rpos_modulo) (b AND left);
     right \<leftarrow> rd bit_mask_right (8 - unat rpos_modulo);
     c \<leftarrow> rd ctr 4;
     wr ctr 4 (c OR (b AND right))
   }"

text \<open>
  The block up to the call of \<open>hmac_final\<close>, which the source has twice: in the loop and for the
  last block.
\<close>

definition kbkdf_counter_input ::
    "'s mbcrypt_hmac_callbacks_t \<Rightarrow> bytes \<Rightarrow> u32 \<Rightarrow> bytes \<Rightarrow> u32 \<Rightarrow> mbcrypt_kbkdf_opts_t \<Rightarrow> nat \<Rightarrow>
     (mbcrypt_status_e \<times> 's mbcrypt_hmac_callbacks_t) ub" where
  "kbkdf_counter_input cbs key_in key_in_len fixed_input fixed_input_len opts i =
     (let rpos_modulo = word_of_int (sint (ctr_rpos opts) smod 8) :: u8;
          rpos = word_of_int (sint (ctr_rpos opts) sdiv 8) :: u32;
          rpos_fixed = rpos + (if 0 < rpos_modulo then 1 else 0)
      in do {
        ctr \<leftarrow> kbkdf_ctr i;
        MBCRYPT_CHECK_RES (p_hmac_init cbs (Some key_in) key_in_len) (\<lambda>cbs.
        MBCRYPT_CHECK_RES
          (if 0 < rpos then kbkdf_update_at cbs fixed_input 0 rpos
           else Some (MBCRYPT_STATUS_OK, cbs)) (\<lambda>cbs.
        MBCRYPT_CHECK_RES
          (if 0 < ctr_rlen opts then do {
             ctr \<leftarrow> (if 0 < rpos_modulo then kbkdf_shift_ctr opts ctr fixed_input rpos rpos_modulo
                     else Some ctr);
             kbkdf_update_at cbs ctr (4 - unat (ctr_rlen opts))
               (ctr_rlen opts + (if 0 < rpos_modulo then 1 else 0))
           } else Some (MBCRYPT_STATUS_OK, cbs)) (\<lambda>cbs.
        if rpos_fixed \<noteq> fixed_input_len
        then kbkdf_update_ne_at cbs fixed_input (unat rpos_fixed) (fixed_input_len - rpos_fixed)
        else Some (MBCRYPT_STATUS_OK, cbs))))
      })"

text \<open>
  The loop \<open>for (i = 1; i <= full_blocks; ++i, key_out += hmac_size)\<close>; the result has the offsets
  of \<open>key_out\<close> and \<open>key_out_last\<close>.
\<close>

function kbkdf_counter_loop ::
    "mbcrypt_hash_type_e \<Rightarrow> 's mbcrypt_hmac_callbacks_t \<Rightarrow> bytes \<Rightarrow> u32 \<Rightarrow> bytes \<Rightarrow> u32 \<Rightarrow>
     mbcrypt_kbkdf_opts_t \<Rightarrow> nat \<Rightarrow> nat \<Rightarrow> bytes \<Rightarrow> nat \<Rightarrow> nat \<Rightarrow>
     (mbcrypt_status_e \<times> 's mbcrypt_hmac_callbacks_t \<times> bytes \<times> nat \<times> nat) ub" where
  "kbkdf_counter_loop htype cbs key_in key_in_len fixed_input fixed_input_len opts i full_blocks
       key_out off key_out_last =
     (if i \<le> full_blocks then do {
        (st, cbs) \<leftarrow> kbkdf_counter_input cbs key_in key_in_len fixed_input fixed_input_len opts i;
        if st \<noteq> MBCRYPT_STATUS_OK then Some (st, cbs, key_out, off, key_out_last) else do {
          (st, cbs, key_out) \<leftarrow> kbkdf_final_at cbs key_out off;
          if st \<noteq> MBCRYPT_STATUS_OK then Some (st, cbs, key_out, off, key_out_last) else
            kbkdf_counter_loop htype cbs key_in key_in_len fixed_input fixed_input_len opts (i + 1)
              full_blocks key_out (off + unat (GET_HASH_SIZE_BY_HASH_TYPE htype)) off
        }
      } else Some (MBCRYPT_STATUS_OK, cbs, key_out, off, key_out_last))"
  by pat_completeness auto
termination
  by (relation "measure (\<lambda>(_, _, _, _, _, _, _, i, full_blocks, _). Suc full_blocks - i)") auto

declare kbkdf_counter_loop.simps [simp del]

text \<open>
  The last, incomplete block: \<open>leftover\<close> bytes of it go to the end of the key. The array
  \<open>last_block\<close> is uninitialised in C; the bytes that are copied are those that
  \<open>hmac_final\<close> wrote.
\<close>

definition kbkdf_last_block :: "'s mbcrypt_hmac_callbacks_t \<Rightarrow> bytes \<Rightarrow> nat \<Rightarrow> u32 \<Rightarrow> u32 \<Rightarrow> u32 \<Rightarrow>
    (mbcrypt_status_e \<times> 's mbcrypt_hmac_callbacks_t \<times> bytes) ub" where
  "kbkdf_last_block cbs key_out off leftover modul key_out_len = do {
     (st, cbs, last_block) \<leftarrow> p_hmac_final cbs (replicate 64 0);
     if st \<noteq> MBCRYPT_STATUS_OK then Some (st, cbs, key_out) else do {
       key_out \<leftarrow> memcpy_at key_out off last_block (unat leftover);
       key_out \<leftarrow> (if modul \<noteq> 0 then kbkdf_mask key_out (off + unat leftover - 1) key_out_len
                   else Some key_out);
       Some (MBCRYPT_STATUS_OK, cbs, key_out)
     }
   }"

definition mbcrypt_kbkdf_counter ::
    "mbcrypt_hash_type_e \<Rightarrow> 's mbcrypt_hmac_callbacks_t \<Rightarrow> bytes \<Rightarrow> u32 \<Rightarrow> bytes \<Rightarrow> u32 \<Rightarrow>
     bytes \<Rightarrow> u32 \<Rightarrow> mbcrypt_kbkdf_opts_t \<Rightarrow>
     (mbcrypt_status_e \<times> 's mbcrypt_hmac_callbacks_t \<times> bytes) ub" where
  "mbcrypt_kbkdf_counter htype cbs key_in key_in_len fixed_input fixed_input_len
       key_out key_out_len opts =
     (if 4 < ctr_rlen opts then Some (MBCRYPT_STATUS_FAIL, cbs, key_out)
      else
        let hmac_size = GET_HASH_SIZE_BY_HASH_TYPE htype;
            modul = (if 1 < key_out_len mod 8 then 1 else 0);
            full_blocks = (key_out_len div 8 + modul) div hmac_size;
            leftover = (key_out_len div 8 + modul) mod hmac_size
        in do {
          (st, cbs, key_out, off, key_out_last) \<leftarrow> kbkdf_counter_loop htype cbs key_in key_in_len
            fixed_input fixed_input_len opts 1 (unat full_blocks) key_out 0 0;
          if st \<noteq> MBCRYPT_STATUS_OK then Some (st, cbs, key_out)
          else if leftover \<noteq> 0 then do {
            (st, cbs) \<leftarrow> kbkdf_counter_input cbs key_in key_in_len fixed_input fixed_input_len opts
              (unat full_blocks + 1);
            if st \<noteq> MBCRYPT_STATUS_OK then Some (st, cbs, key_out)
            else kbkdf_last_block cbs key_out off leftover modul key_out_len
          } else do {
            key_out \<leftarrow> (if modul \<noteq> 0 then kbkdf_mask key_out (key_out_last + unat hmac_size - 1) key_out_len
                        else Some key_out);
            Some (MBCRYPT_STATUS_OK, cbs, key_out)
          }
        })"

subsection \<open>Feedback mode\<close>

text \<open>The counter bytes, \<open>hmac_update (ctx, ctr + (RLEN - ctr_rlen), ctr_rlen)\<close>, under a condition.\<close>

definition kbkdf_update_ctr_if :: "bool \<Rightarrow> 's mbcrypt_hmac_callbacks_t \<Rightarrow> bytes \<Rightarrow>
    mbcrypt_kbkdf_opts_t \<Rightarrow> (mbcrypt_status_e \<times> 's mbcrypt_hmac_callbacks_t) ub" where
  "kbkdf_update_ctr_if b cbs ctr opts =
     (if b \<and> 0 < ctr_rlen opts
      then kbkdf_update_at cbs ctr (4 - unat (ctr_rlen opts)) (ctr_rlen opts)
      else Some (MBCRYPT_STATUS_OK, cbs))"

text \<open>
  The fixed input, with the counter inside it if \<open>ctr_rpos > 0\<close>. The test against
  \<open>fixed_input_len\<close> compares a position in bits with a length in bytes.
\<close>

definition kbkdf_update_fixed ::
    "'s mbcrypt_hmac_callbacks_t \<Rightarrow> bytes \<Rightarrow> bytes \<Rightarrow> u32 \<Rightarrow> mbcrypt_kbkdf_opts_t \<Rightarrow>
     (mbcrypt_status_e \<times> 's mbcrypt_hmac_callbacks_t) ub" where
  "kbkdf_update_fixed cbs ctr fixed_input fixed_input_len opts =
     (if 0 < sint (ctr_rpos opts) \<and> 0 < ctr_rlen opts then
        let pos = word_of_int (sint (ctr_rpos opts) sdiv 8) :: u32 in
        MBCRYPT_CHECK_RES (kbkdf_update_at cbs fixed_input 0 pos) (\<lambda>cbs.
        MBCRYPT_CHECK_RES (kbkdf_update_ctr_if True cbs ctr opts) (\<lambda>cbs.
        if sint (ctr_rpos opts) \<noteq> int (unat fixed_input_len)
        then kbkdf_update_ne_at cbs fixed_input (unat pos) (fixed_input_len - pos)
        else Some (MBCRYPT_STATUS_OK, cbs)))
      else kbkdf_update_at cbs fixed_input 0 fixed_input_len)"

text \<open>
  A block up to the call of \<open>hmac_final\<close>; \<open>k\<close> is what \<open>k_i_1\<close> points to and \<open>k_len\<close> is
  \<open>k_i_1_len\<close>. The source has it twice.
\<close>

definition kbkdf_feedback_input ::
    "'s mbcrypt_hmac_callbacks_t \<Rightarrow> bytes \<Rightarrow> u32 \<Rightarrow> bytes \<Rightarrow> u32 \<Rightarrow> bytes \<Rightarrow> u32 \<Rightarrow>
     mbcrypt_kbkdf_opts_t \<Rightarrow> nat \<Rightarrow> (mbcrypt_status_e \<times> 's mbcrypt_hmac_callbacks_t) ub" where
  "kbkdf_feedback_input cbs key_in key_in_len k k_len fixed_input fixed_input_len opts i = do {
     ctr \<leftarrow> kbkdf_ctr i;
     MBCRYPT_CHECK_RES (p_hmac_init cbs (Some key_in) key_in_len) (\<lambda>cbs.
     MBCRYPT_CHECK_RES (kbkdf_update_ctr_if (ctr_rpos opts = - 1) cbs ctr opts) (\<lambda>cbs.
     MBCRYPT_CHECK_RES
       (if 0 < k_len then kbkdf_update_ne_at cbs k 0 k_len else Some (MBCRYPT_STATUS_OK, cbs)) (\<lambda>cbs.
     MBCRYPT_CHECK_RES (kbkdf_update_ctr_if (ctr_rpos opts = 0) cbs ctr opts) (\<lambda>cbs.
     kbkdf_update_fixed cbs ctr fixed_input fixed_input_len opts))))
   }"

function kbkdf_feedback_loop ::
    "mbcrypt_hash_type_e \<Rightarrow> 's mbcrypt_hmac_callbacks_t \<Rightarrow> bytes \<Rightarrow> u32 \<Rightarrow> bytes \<Rightarrow> u32 \<Rightarrow> bytes \<Rightarrow> u32 \<Rightarrow>
     mbcrypt_kbkdf_opts_t \<Rightarrow> nat \<Rightarrow> nat \<Rightarrow> bytes \<Rightarrow> nat \<Rightarrow> nat \<Rightarrow>
     (mbcrypt_status_e \<times> 's mbcrypt_hmac_callbacks_t \<times> bytes \<times> bytes \<times> u32 \<times> nat \<times> nat) ub" where
  "kbkdf_feedback_loop htype cbs key_in key_in_len k k_len fixed_input fixed_input_len opts i
       full_blocks key_out off key_out_last =
     (if i \<le> full_blocks then do {
        (st, cbs) \<leftarrow> kbkdf_feedback_input cbs key_in key_in_len k k_len fixed_input fixed_input_len opts i;
        if st \<noteq> MBCRYPT_STATUS_OK then Some (st, cbs, key_out, k, k_len, off, key_out_last) else do {
          (st, cbs, key_out) \<leftarrow> kbkdf_final_at cbs key_out off;
          if st \<noteq> MBCRYPT_STATUS_OK then Some (st, cbs, key_out, k, k_len, off, key_out_last) else
            let hmac_size = GET_HASH_SIZE_BY_HASH_TYPE htype in
            kbkdf_feedback_loop htype cbs key_in key_in_len (drop off key_out) hmac_size
              fixed_input fixed_input_len opts (i + 1) full_blocks key_out (off + unat hmac_size) off
        }
      } else Some (MBCRYPT_STATUS_OK, cbs, key_out, k, k_len, off, key_out_last))"
  by pat_completeness auto
termination
  by (relation "measure (\<lambda>(_, _, _, _, _, _, _, _, _, i, full_blocks, _). Suc full_blocks - i)") auto

declare kbkdf_feedback_loop.simps [simp del]

definition mbcrypt_kbkdf_feedback ::
    "mbcrypt_hash_type_e \<Rightarrow> 's mbcrypt_hmac_callbacks_t \<Rightarrow> bytes \<Rightarrow> u32 \<Rightarrow> bytes \<Rightarrow> u32 \<Rightarrow> bytes \<Rightarrow> u32 \<Rightarrow>
     bytes \<Rightarrow> u32 \<Rightarrow> mbcrypt_kbkdf_opts_t \<Rightarrow>
     (mbcrypt_status_e \<times> 's mbcrypt_hmac_callbacks_t \<times> bytes) ub" where
  "mbcrypt_kbkdf_feedback htype cbs key_in key_in_len iv_in iv_in_len fixed_input fixed_input_len
       key_out key_out_len opts =
     (if 4 < ctr_rlen opts then Some (MBCRYPT_STATUS_FAIL, cbs, key_out)
      else
        let hmac_size = GET_HASH_SIZE_BY_HASH_TYPE htype;
            modul = (if 1 < key_out_len mod 8 then 1 else 0);
            full_blocks = (key_out_len div 8 + modul) div hmac_size;
            leftover = (key_out_len div 8 + modul) mod hmac_size;
            k_len = (if 0 < iv_in_len then iv_in_len else 0)
        in do {
          (st, cbs, key_out, k, k_len, off, key_out_last) \<leftarrow> kbkdf_feedback_loop htype cbs key_in key_in_len
            iv_in k_len fixed_input fixed_input_len opts 1 (unat full_blocks) key_out 0 0;
          if st \<noteq> MBCRYPT_STATUS_OK then Some (st, cbs, key_out)
          else if leftover \<noteq> 0 then do {
            (st, cbs) \<leftarrow> kbkdf_feedback_input cbs key_in key_in_len k k_len fixed_input fixed_input_len
              opts (unat full_blocks + 1);
            if st \<noteq> MBCRYPT_STATUS_OK then Some (st, cbs, key_out)
            else kbkdf_last_block cbs key_out off leftover modul key_out_len
          } else do {
            key_out \<leftarrow> (if modul \<noteq> 0 then kbkdf_mask key_out (key_out_last + unat hmac_size - 1) key_out_len
                        else Some key_out);
            Some (MBCRYPT_STATUS_OK, cbs, key_out)
          }
        })"

subsection \<open>Double-pipeline mode\<close>

text \<open>
  A block up to the last \<open>hmac_final\<close>: \<open>a\<close> is what \<open>A_i_1\<close> points to and \<open>A_len\<close> its length; the
  result has the new value of the array \<open>A\<close>.
\<close>

definition kbkdf_double_input ::
    "mbcrypt_hash_type_e \<Rightarrow> 's mbcrypt_hmac_callbacks_t \<Rightarrow> bytes \<Rightarrow> u32 \<Rightarrow> bytes \<Rightarrow> u32 \<Rightarrow> bytes \<Rightarrow> bytes \<Rightarrow> u32 \<Rightarrow>
     mbcrypt_kbkdf_opts_t \<Rightarrow> nat \<Rightarrow> (mbcrypt_status_e \<times> 's mbcrypt_hmac_callbacks_t \<times> bytes) ub" where
  "kbkdf_double_input htype cbs key_in key_in_len a A_len A fixed_input fixed_input_len opts i = do {
     ctr \<leftarrow> kbkdf_ctr i;
     (st, cbs) \<leftarrow> MBCRYPT_CHECK_RES (p_hmac_init cbs (Some key_in) key_in_len) (\<lambda>cbs.
       p_hmac_update cbs (Some a) A_len);
     if st \<noteq> MBCRYPT_STATUS_OK then Some (st, cbs, A) else do {
       (st, cbs, A) \<leftarrow> p_hmac_final cbs A;
       if st \<noteq> MBCRYPT_STATUS_OK then Some (st, cbs, A) else do {
         (st, cbs) \<leftarrow>
           MBCRYPT_CHECK_RES (p_hmac_init cbs (Some key_in) key_in_len) (\<lambda>cbs.
           MBCRYPT_CHECK_RES (p_hmac_update cbs (Some A) (GET_HASH_SIZE_BY_HASH_TYPE htype)) (\<lambda>cbs.
           MBCRYPT_CHECK_RES (kbkdf_update_ctr_if (ctr_rpos opts = - 1) cbs ctr opts) (\<lambda>cbs.
           MBCRYPT_CHECK_RES (kbkdf_update_ctr_if (ctr_rpos opts = 0) cbs ctr opts) (\<lambda>cbs.
           kbkdf_update_fixed cbs ctr fixed_input fixed_input_len opts))));
         Some (st, cbs, A)
       }
     }
   }"

function kbkdf_double_loop ::
    "mbcrypt_hash_type_e \<Rightarrow> 's mbcrypt_hmac_callbacks_t \<Rightarrow> bytes \<Rightarrow> u32 \<Rightarrow> bytes \<Rightarrow> u32 \<Rightarrow> bytes \<Rightarrow> bytes \<Rightarrow> u32 \<Rightarrow>
     mbcrypt_kbkdf_opts_t \<Rightarrow> nat \<Rightarrow> nat \<Rightarrow> bytes \<Rightarrow> nat \<Rightarrow> nat \<Rightarrow>
     (mbcrypt_status_e \<times> 's mbcrypt_hmac_callbacks_t \<times> bytes \<times> bytes \<times> u32 \<times> nat \<times> nat) ub" where
  "kbkdf_double_loop htype cbs key_in key_in_len a A_len A fixed_input fixed_input_len opts i
       full_blocks key_out off key_out_last =
     (if i \<le> full_blocks then do {
        (st, cbs, A) \<leftarrow> kbkdf_double_input htype cbs key_in key_in_len a A_len A fixed_input
          fixed_input_len opts i;
        if st \<noteq> MBCRYPT_STATUS_OK then Some (st, cbs, key_out, a, A_len, off, key_out_last) else do {
          (st, cbs, key_out) \<leftarrow> kbkdf_final_at cbs key_out off;
          if st \<noteq> MBCRYPT_STATUS_OK then Some (st, cbs, key_out, a, A_len, off, key_out_last) else
            let hmac_size = GET_HASH_SIZE_BY_HASH_TYPE htype in
            kbkdf_double_loop htype cbs key_in key_in_len A hmac_size A fixed_input fixed_input_len
              opts (i + 1) full_blocks key_out (off + unat hmac_size) off
        }
      } else Some (MBCRYPT_STATUS_OK, cbs, key_out, a, A_len, off, key_out_last))"
  by pat_completeness auto
termination
  by (relation "measure (\<lambda>(_, _, _, _, _, _, _, _, _, _, i, full_blocks, _). Suc full_blocks - i)") auto

declare kbkdf_double_loop.simps [simp del]

text \<open>
  In the branch for a last, incomplete block, a \<open>goto\<close> to the exit stands unconditionally after
  the second call: the rest of the branch is never reached, and the status is that call's.
\<close>

definition mbcrypt_kbkdf_double_pipeline ::
    "mbcrypt_hash_type_e \<Rightarrow> 's mbcrypt_hmac_callbacks_t \<Rightarrow> bytes \<Rightarrow> u32 \<Rightarrow> bytes \<Rightarrow> u32 \<Rightarrow>
     bytes \<Rightarrow> u32 \<Rightarrow> mbcrypt_kbkdf_opts_t \<Rightarrow>
     (mbcrypt_status_e \<times> 's mbcrypt_hmac_callbacks_t \<times> bytes) ub" where
  "mbcrypt_kbkdf_double_pipeline htype cbs key_in key_in_len fixed_input fixed_input_len
       key_out key_out_len opts =
     (if 4 < ctr_rlen opts then Some (MBCRYPT_STATUS_FAIL, cbs, key_out)
      else
        let hmac_size = GET_HASH_SIZE_BY_HASH_TYPE htype;
            modul = (if 1 < key_out_len mod 8 then 1 else 0);
            full_blocks = (key_out_len div 8 + modul) div hmac_size;
            leftover = (key_out_len div 8 + modul) mod hmac_size
        in do {
          (st, cbs, key_out, a, A_len, off, key_out_last) \<leftarrow> kbkdf_double_loop htype cbs key_in
            key_in_len fixed_input fixed_input_len (replicate 64 0) fixed_input fixed_input_len opts 1
            (unat full_blocks) key_out 0 0;
          if st \<noteq> MBCRYPT_STATUS_OK then Some (st, cbs, key_out)
          else if leftover \<noteq> 0 then do {
            (st, cbs) \<leftarrow> MBCRYPT_CHECK_RES (p_hmac_init cbs (Some key_in) key_in_len) (\<lambda>cbs.
              p_hmac_update cbs (Some a) A_len);
            Some (st, cbs, key_out)
          } else do {
            key_out \<leftarrow> (if modul \<noteq> 0 then kbkdf_mask key_out (key_out_last + unat hmac_size - 1) key_out_len
                        else Some key_out);
            Some (MBCRYPT_STATUS_OK, cbs, key_out)
          }
        })"

subsection \<open>The entry point\<close>

definition kbkdf ::
    "u32 \<Rightarrow> mbcrypt_hash_type_e \<Rightarrow> 's mbcrypt_hmac_callbacks_t ptr \<Rightarrow> bytes ptr \<Rightarrow> u32 \<Rightarrow>
     bytes ptr \<Rightarrow> u32 \<Rightarrow> bytes ptr \<Rightarrow> u32 \<Rightarrow> bytes ptr \<Rightarrow> u32 \<Rightarrow> mbcrypt_kbkdf_opts_t ptr \<Rightarrow>
     (mbcrypt_status_e \<times> 's mbcrypt_hmac_callbacks_t ptr \<times> bytes ptr) ub" where
  "kbkdf mode htype cbs key_in key_in_len iv_in iv_in_len fixed_input fixed_input_len
       key_out key_out_len opts =
     (case (key_in, iv_in, fixed_input, key_out) of
        (Some key_in, Some iv_in, Some fixed_input, Some key_out) \<Rightarrow> do {
          cbs \<leftarrow> cbs;
          if hmac_final cbs = None \<or> hmac_init cbs = None \<or> hmac_update cbs = None
          then Some (MBCRYPT_STATUS_FAIL_NULL_PTR, Some cbs, Some key_out)
          else
            let tmp_opts = (case opts of None \<Rightarrow> \<lparr>ctr_rlen = 4, ctr_rpos = 0\<rparr> | Some opts \<Rightarrow> opts)
            in do {
              (st, cbs, key_out) \<leftarrow>
                (if mode = kbkdf_mode_code MBCRYPT_KBKDF_MODE_COUNTER then
                   mbcrypt_kbkdf_counter htype cbs key_in key_in_len fixed_input fixed_input_len
                     key_out key_out_len tmp_opts
                 else if mode = kbkdf_mode_code MBCRYPT_KBKDF_MODE_FEEDBACK then
                   mbcrypt_kbkdf_feedback htype cbs key_in key_in_len iv_in iv_in_len fixed_input
                     fixed_input_len key_out key_out_len tmp_opts
                 else if mode = kbkdf_mode_code MBCRYPT_KBKDF_MODE_DOUBLE_PIPELINE then
                   mbcrypt_kbkdf_double_pipeline htype cbs key_in key_in_len fixed_input
                     fixed_input_len key_out key_out_len tmp_opts
                 else Some (MBCRYPT_STATUS_FAIL_NOT_IMPLEMENTED, cbs, key_out));
              Some (st, Some cbs, Some key_out)
            }
        }
      | _ \<Rightarrow> Some (MBCRYPT_STATUS_FAIL_NULL_PTR, cbs, key_out))"

end
