(* ===== verification/Kbkdf_Counter.thy ===== *)
theory Kbkdf_Counter
  imports Kbkdf
begin

text \<open>
  The specification of NIST SP 800-108 and counter mode: over every keyed function that keeps the
  contract \<open>prf_api\<close>, the code derives the specified key.
\<close>

subsection \<open>The specification\<close>

text \<open>
  The leftmost \<open>L\<close> bits of a string of blocks: whole bytes, and the high bits of one more byte if
  \<open>L\<close> is no multiple of eight.
\<close>

definition leading_bits :: "nat \<Rightarrow> u8 \<Rightarrow> u8" where
  "leading_bits k x = push_bit (8 - k) (drop_bit (8 - k) x)"

definition leftmost_bits :: "nat \<Rightarrow> bytes \<Rightarrow> bytes" where
  "leftmost_bits L bs = take (L div 8) bs @
     (if L mod 8 = 0 then [] else [leading_bits (L mod 8) (bs ! (L div 8))])"

definition kbkdf_blocks :: "(nat \<Rightarrow> bytes) \<Rightarrow> nat \<Rightarrow> bytes" where
  "kbkdf_blocks K n = concat (map K [1..<n + 1])"

text \<open>
  SP 800-108: block \<open>i\<close> of counter mode with the counter of \<open>r\<close> bytes after the first \<open>p\<close> bytes of
  the fixed input.
\<close>

definition kbkdf_counter_K ::
    "(bytes \<Rightarrow> bytes \<Rightarrow> bytes) \<Rightarrow> bytes \<Rightarrow> bytes \<Rightarrow> nat \<Rightarrow> nat \<Rightarrow> nat \<Rightarrow> bytes" where
  "kbkdf_counter_K prf ki fixd p r i = prf ki (take p fixd @ be_bytes r i @ drop p fixd)"

text \<open>Feedback mode; \<open>ins i k\<close> is the data of block \<open>i\<close> after the block \<open>k\<close>.\<close>

fun kbkdf_feedback_K ::
    "(bytes \<Rightarrow> bytes \<Rightarrow> bytes) \<Rightarrow> bytes \<Rightarrow> bytes \<Rightarrow> (nat \<Rightarrow> bytes \<Rightarrow> bytes) \<Rightarrow> nat \<Rightarrow> bytes" where
  "kbkdf_feedback_K prf ki iv ins 0 = iv"
| "kbkdf_feedback_K prf ki iv ins (Suc i) =
     prf ki (ins (Suc i) (kbkdf_feedback_K prf ki iv ins i))"

text \<open>Double-pipeline mode: a chain of values \<open>A\<close>, and one block from each.\<close>

fun kbkdf_double_A :: "(bytes \<Rightarrow> bytes \<Rightarrow> bytes) \<Rightarrow> bytes \<Rightarrow> bytes \<Rightarrow> nat \<Rightarrow> bytes" where
  "kbkdf_double_A prf ki fixd 0 = fixd"
| "kbkdf_double_A prf ki fixd (Suc i) = prf ki (kbkdf_double_A prf ki fixd i)"

text \<open>
  SP 800-108 with a counter of \<open>r\<close> bytes: \<open>L\<close> bits take \<open>n = \<lceil>L / h\<rceil>\<close> blocks of \<open>h = 8 * hlen\<close> bits.
  Counter mode is an error if the counter cannot count them, \<open>n > 2\<^sup>8\<^sup>r - 1\<close>. In the other modes the
  counter is optional: \<open>r = 0\<close> leaves it out, and a counter that is there must count the blocks. The
  standard's other bound, \<open>n < 2\<^sup>3\<^sup>2\<close>, holds for every \<open>L\<close> that a 32-bit length can give.
\<close>

definition sp800_108_blocks :: "nat \<Rightarrow> nat \<Rightarrow> nat" where
  "sp800_108_blocks hlen L = (L + 8 * hlen - 1) div (8 * hlen)"

definition sp800_108_counter_mode ::
    "(bytes \<Rightarrow> bytes \<Rightarrow> bytes) \<Rightarrow> nat \<Rightarrow> bytes \<Rightarrow> bytes \<Rightarrow> nat \<Rightarrow> nat \<Rightarrow> nat \<Rightarrow> bytes option" where
  "sp800_108_counter_mode prf hlen ki fixd p r L =
     (let n = sp800_108_blocks hlen L
      in if n < 256 ^ r then Some (leftmost_bits L (kbkdf_blocks (kbkdf_counter_K prf ki fixd p r) n))
         else None)"

definition sp800_108_chained :: "nat \<Rightarrow> nat \<Rightarrow> (nat \<Rightarrow> bytes) \<Rightarrow> nat \<Rightarrow> bytes option" where
  "sp800_108_chained hlen r K L =
     (let n = sp800_108_blocks hlen L
      in if r = 0 \<or> n < 256 ^ r then Some (leftmost_bits L (kbkdf_blocks K n)) else None)"

text \<open>
  The key that the code writes: the number of bytes it takes, and the mask on the last one. It
  rounds up only if \<open>L mod 8 > 1\<close>.
\<close>

definition kbkdf_nbytes :: "nat \<Rightarrow> nat" where
  "kbkdf_nbytes L = L div 8 + (if 1 < L mod 8 then 1 else 0)"

definition kbkdf_key :: "(nat \<Rightarrow> bytes) \<Rightarrow> nat \<Rightarrow> nat \<Rightarrow> bytes" where
  "kbkdf_key K hlen L =
     (let n = kbkdf_nbytes L; b = take n (kbkdf_blocks K ((n + hlen - 1) div hlen))
      in if 1 < L mod 8 then b[n - 1 := b ! (n - 1) AND bit_mask_left ! (L mod 8)] else b)"

text \<open>The mask table of the code keeps the leading bits of a byte.\<close>

lemma leading_bits_mask: "x AND push_bit n (drop_bit n (- 1)) = push_bit n (drop_bit n (x :: u8))"
  by (rule bit_word_eqI) (auto simp: bit_simps)

lemma bit_mask_left_leading:
  assumes "k < 8"
  shows "x AND bit_mask_left ! k = leading_bits k x"
proof -
  have "k \<in> {0, 1, 2, 3, 4, 5, 6, 7}" using assms by auto
  then have "bit_mask_left ! k = push_bit (8 - k) (drop_bit (8 - k) (- 1))"
    by (auto simp: bit_mask_left_def mask_eq_exp_minus_1 push_bit_eq_mult)
  then show ?thesis by (simp only: leading_bits_def leading_bits_mask)
qed

lemma length_kbkdf_blocks:
  "\<forall>i. length (K i) = h \<Longrightarrow> length (kbkdf_blocks K n) = n * h"
  unfolding kbkdf_blocks_def by (induction n) simp_all

lemma kbkdf_blocks_Suc: "kbkdf_blocks K (Suc n) = kbkdf_blocks K n @ K (Suc n)"
  by (simp add: kbkdf_blocks_def)

lemma take_kbkdf_blocks:
  assumes "\<forall>i. length (K i) = h" and "q \<le> n"
  shows "take (q * h) (kbkdf_blocks K n) = kbkdf_blocks K q"
  using assms(2)
proof (induction n rule: dec_induct)
  case base
  then show ?case using length_kbkdf_blocks [OF assms(1), of q] by simp
next
  case (step n)
  then show ?case
    using length_kbkdf_blocks [OF assms(1), of n] by (simp add: kbkdf_blocks_Suc mult_le_mono1)
qed

text \<open>Unless a single bit is left over, the code takes the leftmost \<open>L\<close> bits.\<close>

lemma kbkdf_key_leftmost:
  assumes K: "\<forall>i. length (K i) = h" and "0 < h" and L: "L mod 8 \<noteq> 1"
  shows "kbkdf_key K h L = leftmost_bits L (kbkdf_blocks K ((kbkdf_nbytes L + h - 1) div h))"
proof -
  let ?n = "kbkdf_nbytes L" and ?B = "kbkdf_blocks K ((kbkdf_nbytes L + h - 1) div h)"
  have "?n \<le> (?n + h - 1) div h * h"
  proof -
    have "(?n + h - 1) mod h < h" using assms(2) by simp
    then show ?thesis using div_mult_mod_eq [of "?n + h - 1" h] assms(2) by linarith
  qed
  then have len: "?n \<le> length ?B" using length_kbkdf_blocks [OF K] by simp
  show ?thesis
  proof (cases "1 < L mod 8")
    case True
    then have n: "?n = Suc (L div 8)" by (simp add: kbkdf_nbytes_def)
    then have "take ?n ?B = take (L div 8) ?B @ [?B ! (L div 8)]"
      using len by (simp add: take_Suc_conv_app_nth)
    then show ?thesis
      using True n len
      by (simp add: kbkdf_key_def leftmost_bits_def Let_def list_update_append nth_append
          bit_mask_left_leading)
  next
    case False
    then have "L mod 8 = 0" using L by linarith
    then show ?thesis by (simp add: kbkdf_key_def leftmost_bits_def kbkdf_nbytes_def Let_def)
  qed
qed

subsection \<open>The counter bytes\<close>

lemma kbkdf_ctr_eq: "kbkdf_ctr i = Some (be_bytes 4 i @ [0])"
proof -
  have r: "replicate 5 (0 :: u8) = replicate 4 0 @ [0]" by (simp add: numeral_eq_Suc)
  have "be_bytes 4 (unat (of_nat i :: u32)) = be_bytes 4 i"
    using be_bytes_mod [of 4 i] by (simp add: unat_of_nat)
  then show ?thesis
    by (simp add: kbkdf_ctr_def PUT_UINT32_BE_eq wr_def r list_update_append)
qed

lemma drop_be_bytes: "r \<le> 4 \<Longrightarrow> drop (4 - r) (be_bytes 4 i) = be_bytes r i"
  using be_bytes_append [of "4 - r" r i] by simp

lemma rpos_aligned:
  assumes "sint (x :: i32) = 8 * int p"
  shows "word_of_int (sint x smod 8) = (0 :: u8)" "word_of_int (sint x sdiv 8) = (of_nat p :: u32)"
    "unat (of_nat p :: u32) = p"
proof -
  have "sint x < 2147483648" using sint_lt [of x] by simp
  then have "p < 268435456" using assms by linarith
  then show "unat (of_nat p :: u32) = p" by (simp add: unat_of_nat)
  show "word_of_int (sint x smod 8) = (0 :: u8)" "word_of_int (sint x sdiv 8) = (of_nat p :: u32)"
    by (simp_all add: assms signed_modulo_int_def signed_divide_int_def sgn_if)
qed

lemma key_out_len_nbytes:
  "unat (n div 8 + (if 1 < n mod 8 then 1 else 0 :: u32)) = kbkdf_nbytes (unat n)"
proof -
  have "unat (n div 8) = unat n div 8" by (simp add: unat_div_distrib)
  moreover have "1 < n mod 8 \<longleftrightarrow> 1 < unat n mod 8"
    by (simp add: word_less_nat_alt unat_mod_distrib)
  moreover have "unat n div 8 < 536870912" using unat_u32_lt [of n] by linarith
  ultimately show ?thesis by (simp add: kbkdf_nbytes_def unat_add_u32)
qed

subsection \<open>Counter mode computes the specification\<close>

context prf_api
begin

lemma update_at:
  assumes "cbs_in (\<lambda>c. holds c k m) cbs" and "n \<noteq> 0" and "off + unat n \<le> length d"
  shows "\<exists>cbs'. kbkdf_update_at cbs d off n = Some (MBCRYPT_STATUS_OK, cbs')
    \<and> cbs_in (\<lambda>c. holds c k (m @ take (unat n) (drop off d))) cbs'"
  using p_update [OF assms(1,2), of "drop off d"] assms(3) by (simp add: kbkdf_update_at_def)

lemma update_ne_at:
  assumes "cbs_in (\<lambda>c. holds c k m) cbs" and "n \<noteq> 0" and "off + unat n \<le> length d"
  shows "\<exists>cbs'. kbkdf_update_ne_at cbs d off n = Some (MBCRYPT_STATUS_OK, cbs')
    \<and> cbs_in (\<lambda>c. holds c k (m @ take (unat n) (drop off d))) cbs'"
  using update_at [OF assms] by (auto simp: kbkdf_update_ne_at_def status_ne_ok_def)

lemma final_at:
  assumes "cbs_in (\<lambda>c. holds c k m) cbs" and "okm (length m)" and "off + psize \<le> length out"
  shows "\<exists>cbs'. kbkdf_final_at cbs out off =
      Some (MBCRYPT_STATUS_OK, cbs', take off out @ P k m @ drop (off + psize) out) \<and> cbs_in ready cbs'"
proof -
  have "psize \<le> length (drop off out)" using assms(3) by simp
  from p_final [OF assms(1,2) this] obtain cbs' where
    "p_hmac_final cbs (drop off out) = Some (MBCRYPT_STATUS_OK, cbs', P k m @ drop (off + psize) out)"
    "cbs_in ready cbs'" by (auto simp: add.commute)
  then show ?thesis using assms(3) by (simp add: kbkdf_final_at_def)
qed

lemma counter_input:
  assumes cbs: "cbs_in ready cbs" and ki: "unat kl \<le> length ki" "okk (unat kl)"
    and fi: "unat fl \<le> length fi" and r: "ctr_rlen opts \<le> 4"
    and p: "sint (ctr_rpos opts) = 8 * int p" "p \<le> unat fl"
  shows "\<exists>cbs'. kbkdf_counter_input cbs ki kl fi fl opts i = Some (MBCRYPT_STATUS_OK, cbs')
    \<and> cbs_in (\<lambda>c. holds c (take (unat kl) ki) (take p (take (unat fl) fi)
        @ be_bytes (unat (ctr_rlen opts)) i @ drop p (take (unat fl) fi))) cbs'"
proof -
  let ?k = "take (unat kl) ki" and ?f = "take (unat fl) fi" and ?r = "unat (ctr_rlen opts)"
  let ?ctr = "be_bytes 4 i @ [0]" and ?p = "of_nat p :: u32"
  note pos = rpos_aligned [OF p(1)]
  have r4: "?r \<le> 4" using r by (simp add: word_le_nat_alt)
  obtain c1 where 1: "p_hmac_init cbs (Some ki) kl = Some (MBCRYPT_STATUS_OK, c1)"
      "cbs_in (\<lambda>c. holds c ?k []) c1"
    using p_init [OF cbs ki] by auto
  have p0: "0 < ?p \<longleftrightarrow> 0 < p" unfolding word_less_nat_alt pos(3) by simp
  obtain c2 where 2: "(if 0 < ?p then kbkdf_update_at c1 fi 0 ?p else Some (MBCRYPT_STATUS_OK, c1)) =
      Some (MBCRYPT_STATUS_OK, c2)" "cbs_in (\<lambda>c. holds c ?k (take p ?f)) c2"
  proof (cases "p = 0")
    case True
    then show ?thesis using that [of c1] 1(2) by simp
  next
    case False
    then have "?p \<noteq> 0" using p0 by (simp add: word_gt_0)
    moreover have "take p fi = take p ?f" using p(2) by (simp add: min_absorb1)
    ultimately show ?thesis
      using update_at [OF 1(2), of ?p 0 fi] that p(2) fi pos(3) by (auto simp: word_gt_0)
  qed
  have ctr: "take ?r (drop (4 - ?r) ?ctr) = be_bytes ?r i"
    using r4 drop_be_bytes [OF r4, of i] by simp
  obtain c3 where 3: "(if 0 < ctr_rlen opts then kbkdf_update_at c2 ?ctr (4 - ?r) (ctr_rlen opts)
      else Some (MBCRYPT_STATUS_OK, c2)) = Some (MBCRYPT_STATUS_OK, c3)"
      "cbs_in (\<lambda>c. holds c ?k (take p ?f @ be_bytes ?r i)) c3"
  proof (cases "ctr_rlen opts = 0")
    case True
    then show ?thesis using that [of c2] 2(2) by (simp add: be_bytes_def)
  next
    case False
    then show ?thesis
      using update_at [OF 2(2), of "ctr_rlen opts" "4 - ?r" ?ctr] ctr r4 that
      by (auto simp: word_gt_0)
  qed
  have sub: "unat (fl - ?p) = unat fl - p" using p(2) pos(3) by (simp add: unat_sub_u32 word_le_nat_alt)
  obtain c4 where 4: "(if ?p \<noteq> fl then kbkdf_update_ne_at c3 fi (unat ?p) (fl - ?p)
      else Some (MBCRYPT_STATUS_OK, c3)) = Some (MBCRYPT_STATUS_OK, c4)"
      "cbs_in (\<lambda>c. holds c ?k (take p ?f @ be_bytes ?r i @ drop p ?f)) c4"
  proof (cases "?p = fl")
    case True
    then have "p = unat fl" using pos(3) by simp
    then show ?thesis using that [of c3] 3(2) True by simp
  next
    case False
    then show ?thesis
      using update_ne_at [OF 3(2), of "fl - ?p" p fi] sub p(2) fi pos(3) that
      by (auto simp: drop_take)
  qed
  have "kbkdf_counter_input cbs ki kl fi fl opts i = Some (MBCRYPT_STATUS_OK, c4)"
    by (simp only: kbkdf_counter_input_def kbkdf_ctr_eq Let_def pos(1,2) less_irrefl if_False
        add_0_right Option.bind.simps 1(1) 2(1) 3(1) 4(1) CHECK_RES_simps)
  then show ?thesis using 4(2) by blast
qed

end

context prf_api
begin

lemma counter_loop:
  assumes ht: "psize = unat (GET_HASH_SIZE_BY_HASH_TYPE htype)"
    and inp: "\<And>cbs i. cbs_in ready cbs \<Longrightarrow>
      \<exists>cbs'. kbkdf_counter_input cbs ki kl fi fl opts i = Some (MBCRYPT_STATUS_OK, cbs')
        \<and> cbs_in (\<lambda>c. holds c k (D i)) cbs'"
    and okm: "\<And>i. okm (length (D i))"
  defines "K \<equiv> \<lambda>i. P k (D i)"
  shows "cbs_in ready cbs \<Longrightarrow> off = n * psize \<Longrightarrow> off + m * psize \<le> length out \<Longrightarrow>
    \<exists>cbs'. kbkdf_counter_loop htype cbs ki kl fi fl opts (Suc n) (n + m) out off lst =
      Some (MBCRYPT_STATUS_OK, cbs',
        take off out @ concat (map K [Suc n..<Suc (n + m)]) @ drop (off + m * psize) out,
        off + m * psize, if m = 0 then lst else off + m * psize - psize) \<and> cbs_in ready cbs'"
proof (induction m arbitrary: cbs n off out lst)
  case 0
  then show ?case by (simp add: kbkdf_counter_loop.simps)
next
  case (Suc m)
  obtain c1 where 1: "kbkdf_counter_input cbs ki kl fi fl opts (Suc n) = Some (MBCRYPT_STATUS_OK, c1)"
      "cbs_in (\<lambda>c. holds c k (D (Suc n))) c1"
    using inp [OF Suc.prems(1)] by blast
  let ?out = "take off out @ K (Suc n) @ drop (off + psize) out"
  have room: "off + psize \<le> length out" using Suc.prems(3) by simp
  obtain c2 where 2: "kbkdf_final_at c1 out off = Some (MBCRYPT_STATUS_OK, c2, ?out)" "cbs_in ready c2"
    using final_at [OF 1(2) okm room] unfolding K_def by blast
  have lK: "length (K (Suc n)) = psize" by (simp add: K_def length_P)
  have lo: "off + psize + m * psize \<le> length ?out" using Suc.prems(3) lK by simp
  obtain c3 where 3: "kbkdf_counter_loop htype c2 ki kl fi fl opts (Suc (Suc n)) (Suc n + m) ?out
      (off + psize) off = Some (MBCRYPT_STATUS_OK, c3,
        take (off + psize) ?out @ concat (map K [Suc (Suc n)..<Suc (Suc n + m)])
          @ drop (off + psize + m * psize) ?out,
        off + psize + m * psize, if m = 0 then off else off + psize + m * psize - psize)"
      "cbs_in ready c3"
    using Suc.IH [OF 2(2) _ lo, of "Suc n" off] Suc.prems(2) by auto
  have step: "kbkdf_counter_loop htype cbs ki kl fi fl opts (Suc n) (n + Suc m) out off lst =
      kbkdf_counter_loop htype c2 ki kl fi fl opts (Suc (Suc n)) (Suc n + m) ?out (off + psize) off"
    using 1(1) 2(1) ht by (subst kbkdf_counter_loop.simps) simp
  have "take (off + psize) ?out = take off out @ K (Suc n)"
    and "drop (off + psize + m * psize) ?out = drop (off + psize + m * psize) out"
    using room lK by (simp_all add: add.commute)
  moreover have "[Suc n..<Suc (n + Suc m)] = Suc n # [Suc (Suc n)..<Suc (Suc n + m)]"
    by (simp add: upt_conv_Cons del: upt_Suc)
  ultimately show ?case
    using 3 unfolding step by (simp add: add.assoc del: upt_Suc)
qed

text \<open>The last block: its first \<open>leftover\<close> bytes go to the key, the mask to the last of them.\<close>

lemma last_block:
  assumes cbs: "cbs_in (\<lambda>c. holds c k d) cbs" and okm: "okm (length d)" and ps: "psize \<le> 64"
    and lo: "unat leftover \<le> psize" "0 < unat leftover" and room: "off + unat leftover \<le> length out"
    and md: "modul \<noteq> 0 \<longleftrightarrow> 1 < unat L mod 8"
  defines "out' \<equiv> take off out @ take (unat leftover) (P k d) @ drop (off + unat leftover) out"
    and "pos \<equiv> off + unat leftover - 1"
  shows "\<exists>cbs'. kbkdf_last_block cbs out off leftover modul L = Some (MBCRYPT_STATUS_OK, cbs',
    if 1 < unat L mod 8 then out'[pos := out' ! pos AND bit_mask_left ! (unat L mod 8)] else out')"
proof -
  obtain c1 where 1: "p_hmac_final cbs (replicate 64 0) =
      Some (MBCRYPT_STATUS_OK, c1, P k d @ replicate (64 - psize) 0)"
    using p_final [OF cbs okm, of "replicate 64 0"] ps by auto
  have "memcpy_at out off (P k d @ replicate (64 - psize) 0) (unat leftover) = Some out'"
    using room lo ps by (simp add: memcpy_at_Some length_P out'_def)
  moreover have "unat (L mod 8) = unat L mod 8" by (simp add: unat_mod_distrib)
  moreover have "pos < length out'" using room lo length_P by (simp add: out'_def pos_def)
  moreover have "unat L mod 8 < length bit_mask_left" by (simp add: bit_mask_left_def)
  ultimately show ?thesis
    using 1 md unfolding pos_def
    by (simp add: kbkdf_last_block_def kbkdf_mask_def rd_Some wr_Some)
qed

end

lemma ceiling_div:
  assumes "0 < (h :: nat)"
  shows "(n + h - 1) div h = n div h + (if n mod h = 0 then 0 else 1)"
proof -
  let ?r = "n mod h"
  have "(r + h - 1) div h = (if r = 0 then 0 else 1)" if "r < h" for r
    using assms that by (auto intro!: div_nat_eqI)
  then have "(?r + h - 1) div h = (if ?r = 0 then 0 else 1)" using assms by simp
  moreover have eq: "n + h - 1 = (?r + h - 1) + h * (n div h)"
    using assms mod_mult_div_eq [of n h] by linarith
  moreover have "(?r + h - 1 + h * (n div h)) div h = n div h + (?r + h - 1) div h"
    by (rule div_mult_self2) (use assms in simp)
  ultimately show ?thesis by (simp only:)
qed

lemma kbkdf_key_split:
  assumes K: "\<forall>i. length (K i) = h" and h: "0 < h"
  shows "take n (kbkdf_blocks K ((n + h - 1) div h)) =
    kbkdf_blocks K (n div h) @ take (n mod h) (K (Suc (n div h)))"
proof -
  have lb: "length (kbkdf_blocks K (n div h)) = n div h * h" by (rule length_kbkdf_blocks [OF K])
  have n: "n - n div h * h = n mod h" by (simp add: minus_div_mult_eq_mod)
  have le: "n div h * h \<le> n" by simp
  show ?thesis
  proof (cases "n mod h = 0")
    case True
    then show ?thesis using lb n le unfolding ceiling_div [OF h] by simp
  next
    case False
    then show ?thesis using lb n le unfolding ceiling_div [OF h] by (simp add: kbkdf_blocks_Suc)
  qed
qed

lemma masked_key:
  assumes K: "\<forall>i. length (K i) = h" and h: "0 < h" and n: "n = kbkdf_nbytes L"
    and out: "out' = kbkdf_blocks K (n div h) @ take (n mod h) (K (Suc (n div h))) @ rest"
  shows "(if 1 < L mod 8 then out'[n - 1 := out' ! (n - 1) AND bit_mask_left ! (L mod 8)] else out') =
    kbkdf_key K h L @ rest"
proof -
  let ?b = "take n (kbkdf_blocks K ((n + h - 1) div h))"
  have b: "?b = kbkdf_blocks K (n div h) @ take (n mod h) (K (Suc (n div h)))"
    by (rule kbkdf_key_split [OF K h])
  have o: "out' = ?b @ rest" unfolding b out by simp
  have "n mod h \<le> h" using h by simp
  then have "length ?b = n" unfolding b using K length_kbkdf_blocks [OF K, of "n div h"] by simp
  moreover have "1 < L mod 8 \<Longrightarrow> 0 < n" by (simp add: n kbkdf_nbytes_def)
  ultimately show ?thesis
    unfolding o kbkdf_key_def n [symmetric] Let_def
    by (auto simp: list_update_append nth_append)
qed

text \<open>
  The end of counter and feedback mode, after a loop that has written the full blocks: the
  incomplete block, or the mask alone.
\<close>

context prf_api
begin

lemma finish_key:
  assumes ht: "psize = unat (GET_HASH_SIZE_BY_HASH_TYPE htype)"
    and K: "\<forall>i. length (K i) = psize" and n: "n = kbkdf_nbytes (unat L)"
    and nd: "unat full_blocks = n div psize" "unat leftover = n mod psize"
    and md: "modul \<noteq> 0 \<longleftrightarrow> 1 < unat L mod 8"
    and out: "out1 = kbkdf_blocks K (n div psize) @ rest" "n \<le> length out1"
    and inp: "leftover \<noteq> 0 \<Longrightarrow> \<exists>cbs'. inp = Some (MBCRYPT_STATUS_OK, cbs')
      \<and> cbs_in (\<lambda>c. holds c k d) cbs' \<and> okm (length d) \<and> P k d = K (Suc (n div psize))"
    and lst: "0 < n div psize \<Longrightarrow> lst = n div psize * psize - psize"
  shows "\<exists>cbs'. (if leftover \<noteq> 0 then do {
        (st, cbs) \<leftarrow> inp;
        if st \<noteq> MBCRYPT_STATUS_OK then Some (st, cbs, out1)
        else kbkdf_last_block cbs out1 (n div psize * psize) leftover modul L
      } else do {
        out1 \<leftarrow> (if modul \<noteq> 0
          then kbkdf_mask out1 (lst + unat (GET_HASH_SIZE_BY_HASH_TYPE htype) - 1) L else Some out1);
        Some (MBCRYPT_STATUS_OK, cbs, out1)
      }) = Some (MBCRYPT_STATUS_OK, cbs', kbkdf_key K psize (unat L) @ drop n out1)"
proof -
  have ps: "0 < psize" "psize \<le> 64" using hash_size_bounds [of htype] ht by auto
  let ?q = "n div psize" and ?r = "n mod psize"
  have lb: "length (kbkdf_blocks K ?q) = ?q * psize" by (rule length_kbkdf_blocks [OF K])
  have n_eq: "?q * psize + ?r = n" by simp
  have "?r < psize" using ps by simp
  note key = masked_key [OF K ps(1) n]
  show ?thesis
  proof (cases "leftover = 0")
    case False
    then obtain c1 where 1: "inp = Some (MBCRYPT_STATUS_OK, c1)" "cbs_in (\<lambda>c. holds c k d) c1"
        "okm (length d)" "P k d = K (Suc ?q)" using inp by blast
    have r: "0 < unat leftover" "unat leftover \<le> psize" "?q * psize + unat leftover \<le> length out1"
      subgoal using False by (simp add: unat_gt_0)
      using nd \<open>?r < psize\<close> out(2) n_eq by simp_all
    let ?out' = "take (?q * psize) out1 @ take (unat leftover) (P k d) @ drop (?q * psize + unat leftover) out1"
    have "?out' = kbkdf_blocks K ?q @ take ?r (K (Suc ?q)) @ drop n out1"
      using out(1) lb n_eq by (simp add: 1(4) nd(2))
    from key [OF this] have "(if 1 < unat L mod 8 then
        ?out'[n - 1 := ?out' ! (n - 1) AND bit_mask_left ! (unat L mod 8)] else ?out') =
      kbkdf_key K psize (unat L) @ drop n out1" .
    then show ?thesis
      using last_block [OF 1(2,3) ps(2) r(2,1,3) md] False 1(1) n_eq nd(2) by auto
  next
    case True
    then have r0: "?r = 0" using nd(2) by simp
    then have nq: "?q * psize = n" using n_eq by simp
    have o: "out1 = kbkdf_blocks K ?q @ take ?r (K (Suc ?q)) @ drop n out1"
      using out(1) lb r0 nq by simp
    show ?thesis
    proof (cases "1 < unat L mod 8")
      case False
      then show ?thesis using True md key [OF o] by simp
    next
      case m: True
      then have "0 < n" by (simp add: n kbkdf_nbytes_def)
      then have "0 < ?q" using nq by (cases ?q) auto
      then have "psize \<le> n" by (simp add: div_greater_zero_iff)
      then have pos: "lst + psize - 1 = n - 1" using lst nq \<open>0 < ?q\<close> by simp
      have "unat (L mod 8) = unat L mod 8" by (simp add: unat_mod_distrib)
      moreover have "unat L mod 8 < length bit_mask_left" by (simp add: bit_mask_left_def)
      moreover have "n - 1 < length out1" using out(2) \<open>0 < n\<close> by simp
      ultimately show ?thesis
        using True m md key [OF o] pos ht [symmetric] by (simp add: kbkdf_mask_def rd_Some wr_Some)
    qed
  qed
qed

end

lemma unat_div_mod_u32:
  fixes x y :: u32
  shows "unat (x div y) = unat x div unat y" "unat (x mod y) = unat x mod unat y"
  by (simp_all add: unat_div_distrib unat_mod_distrib)

lemma modul_iff: "(if 1 < (L :: u32) mod 8 then 1 else 0 :: u32) \<noteq> 0 \<longleftrightarrow> 1 < unat L mod 8"
  by (simp add: word_less_nat_alt unat_mod_distrib)

context prf_api
begin

theorem counter_key:
  assumes ht: "psize = unat (GET_HASH_SIZE_BY_HASH_TYPE htype)"
    and cbs: "cbs_in ready cbs" and ki: "unat kl \<le> length ki" "okk (unat kl)"
    and fi: "unat fl \<le> length fi" and r: "ctr_rlen opts \<le> 4"
    and p: "sint (ctr_rpos opts) = 8 * int p" "p \<le> unat fl"
    and okm: "okm (unat fl + unat (ctr_rlen opts))"
    and out: "kbkdf_nbytes (unat L) \<le> length out"
  shows "\<exists>cbs'. mbcrypt_kbkdf_counter htype cbs ki kl fi fl out L opts = Some (MBCRYPT_STATUS_OK, cbs',
    kbkdf_key (kbkdf_counter_K P (take (unat kl) ki) (take (unat fl) fi) p (unat (ctr_rlen opts)))
      psize (unat L) @ drop (kbkdf_nbytes (unat L)) out)"
proof -
  let ?k = "take (unat kl) ki" and ?f = "take (unat fl) fi" and ?r = "unat (ctr_rlen opts)"
  let ?D = "\<lambda>i. take p ?f @ be_bytes ?r i @ drop p ?f"
  let ?K = "kbkdf_counter_K P ?k ?f p ?r"
  let ?n = "kbkdf_nbytes (unat L)"
  define modul where "modul = (if 1 < L mod 8 then 1 else 0 :: u32)"
  define full_blocks where "full_blocks = (L div 8 + modul) div GET_HASH_SIZE_BY_HASH_TYPE htype"
  define leftover where "leftover = (L div 8 + modul) mod GET_HASH_SIZE_BY_HASH_TYPE htype"
  have nb: "unat (L div 8 + modul) = ?n" unfolding modul_def by (rule key_out_len_nbytes)
  have nd: "unat full_blocks = ?n div psize" "unat leftover = ?n mod psize"
    unfolding full_blocks_def leftover_def unat_div_mod_u32 nb ht by simp_all
  have K: "?K = (\<lambda>i. P ?k (?D i))" by (simp add: fun_eq_iff kbkdf_counter_K_def)
  have lK: "\<forall>i. length (?K i) = psize" by (simp add: K length_P)
  have lD: "okm (length (?D i))" for i using okm fi p(2) by (simp add: min_absorb1 min_absorb2 add.commute)
  note inp = counter_input [OF _ ki fi r p]
  let ?q = "?n div psize"
  let ?out1 = "kbkdf_blocks ?K ?q @ drop (?q * psize) out"
  have room: "?q * psize \<le> length out" using out by (meson div_times_less_eq_dividend le_trans)
  obtain c1 where 1: "kbkdf_counter_loop htype cbs ki kl fi fl opts 1 ?q out 0 0 =
      Some (MBCRYPT_STATUS_OK, c1, ?out1, ?q * psize, if ?q = 0 then 0 else ?q * psize - psize)"
      "cbs_in ready c1"
    using counter_loop [OF ht inp lD cbs, of 0 0 ?q out 0] room
    by (auto simp: kbkdf_blocks_def K simp del: upt_Suc)
  obtain c2 where 2: "kbkdf_counter_input c1 ki kl fi fl opts (Suc ?q) = Some (MBCRYPT_STATUS_OK, c2)"
      "cbs_in (\<lambda>c. holds c ?k (?D (Suc ?q))) c2"
    using inp [OF 1(2)] by blast
  have lb: "length (kbkdf_blocks ?K ?q) = ?q * psize" by (rule length_kbkdf_blocks [OF lK])
  have d1: "?n \<le> length ?out1" "drop ?n ?out1 = drop ?n out" using lb out room by simp_all
  obtain c3 where 3: "(if leftover \<noteq> 0 then do {
        (st, cbs) \<leftarrow> kbkdf_counter_input c1 ki kl fi fl opts (Suc ?q);
        if st \<noteq> MBCRYPT_STATUS_OK then Some (st, cbs, ?out1)
        else kbkdf_last_block cbs ?out1 (?q * psize) leftover modul L
      } else do {
        out1 \<leftarrow> (if modul \<noteq> 0 then kbkdf_mask ?out1 ((if ?q = 0 then 0 else ?q * psize - psize)
          + unat (GET_HASH_SIZE_BY_HASH_TYPE htype) - 1) L else Some ?out1);
        Some (MBCRYPT_STATUS_OK, c1, out1)
      }) = Some (MBCRYPT_STATUS_OK, c3, kbkdf_key ?K psize (unat L) @ drop ?n ?out1)"
    using finish_key [OF ht lK refl nd, of modul ?out1 _ "kbkdf_counter_input c1 ki kl fi fl opts (Suc ?q)"
        ?k "?D (Suc ?q)" "if ?q = 0 then 0 else ?q * psize - psize" c1]
      modul_iff [of L, folded modul_def] d1(1) 2 lD K by auto
  have r4: "\<not> 4 < ctr_rlen opts" using r by simp
  have "mbcrypt_kbkdf_counter htype cbs ki kl fi fl out L opts =
      Some (MBCRYPT_STATUS_OK, c3, kbkdf_key ?K psize (unat L) @ drop ?n out)"
    unfolding mbcrypt_kbkdf_counter_def Let_def modul_def [symmetric] full_blocks_def [symmetric]
      leftover_def [symmetric] if_not_P [OF r4] nd(1)
    by (simp only: 1(1) Option.bind.simps prod.case simp_thms if_False
        Suc_eq_plus1 [symmetric] 3 d1(2))
  then show ?thesis by blast
qed

end

end
