(* ===== verification/Kbkdf_Chained.thy ===== *)
theory Kbkdf_Chained
  imports Kbkdf_Counter
begin

text \<open>
  Feedback and double-pipeline mode, in which a block depends on the one before, over every keyed
  function that keeps the contract \<open>prf_api\<close>.
\<close>

subsection \<open>Feedback mode computes the specification\<close>

text \<open>
  The data of block \<open>i\<close> after the block \<open>k\<close>: the counter before it (position \<open>-1\<close>) or inside the
  fixed input at a whole byte.
\<close>

definition kbkdf_ins :: "int \<Rightarrow> nat \<Rightarrow> bytes \<Rightarrow> nat \<Rightarrow> bytes \<Rightarrow> bytes" where
  "kbkdf_ins pos r fixd i k =
     (if pos = - 1 then be_bytes r i @ k @ fixd
      else k @ take (nat pos div 8) fixd @ be_bytes r i @ drop (nat pos div 8) fixd)"

text \<open>
  The positions for which feedback and double-pipeline mode do that: before everything, before the
  fixed input, or strictly inside it, except the one for which the position in bits is the length
  in bytes.
\<close>

definition kbkdf_pos_ok :: "mbcrypt_kbkdf_opts_t \<Rightarrow> u32 \<Rightarrow> bool" where
  "kbkdf_pos_ok opts fl \<longleftrightarrow> fl \<noteq> 0 \<and> ctr_rlen opts \<le> 4 \<and>
     (sint (ctr_rpos opts) = - 1 \<or> sint (ctr_rpos opts) = 0 \<or>
      (\<exists>p. sint (ctr_rpos opts) = 8 * int p \<and> 0 < p \<and> p < unat fl \<and> 8 * p \<noteq> unat fl))"

lemma unat_pos_neq_0: "0 < unat x \<Longrightarrow> x \<noteq> 0"
  by auto

lemma minus_1_iff: "x = - 1 \<longleftrightarrow> sint (x :: i32) = - 1"
proof -
  have "sint (- 1 :: i32) = - 1" by simp
  then show ?thesis by (metis signed_word_eqI)
qed

lemma zero_iff: "x = 0 \<longleftrightarrow> sint (x :: i32) = 0"
  by (metis signed_0 signed_word_eqI)

context prf_api
begin

lemma update_ctr_if:
  assumes "cbs_in (\<lambda>c. holds c k m) cbs" and "ctr_rlen opts \<le> 4"
  shows "\<exists>cbs'. kbkdf_update_ctr_if b cbs (be_bytes 4 i @ [0]) opts = Some (MBCRYPT_STATUS_OK, cbs')
    \<and> cbs_in (\<lambda>c. holds c k (m @ (if b then be_bytes (unat (ctr_rlen opts)) i else []))) cbs'"
proof (cases "b \<and> 0 < ctr_rlen opts")
  case True
  let ?r = "unat (ctr_rlen opts)" and ?ctr = "be_bytes 4 i @ [0]"
  have r4: "?r \<le> 4" using assms(2) by (simp add: word_le_nat_alt)
  have "take ?r (drop (4 - ?r) ?ctr) = be_bytes ?r i" using r4 drop_be_bytes [OF r4, of i] by simp
  then show ?thesis
    using update_at [OF assms(1), of "ctr_rlen opts" "4 - ?r" ?ctr] r4 True
    by (auto simp: kbkdf_update_ctr_if_def word_gt_0)
next
  case False
  then have "b \<Longrightarrow> be_bytes (unat (ctr_rlen opts)) i = []" by (simp add: word_gt_0 be_bytes_def)
  then show ?thesis using assms(1) False by (auto simp: kbkdf_update_ctr_if_def)
qed

lemma update_fixed:
  assumes cbs: "cbs_in (\<lambda>c. holds c k m) cbs" and fi: "unat fl \<le> length fi"
    and ok: "kbkdf_pos_ok opts fl"
  defines "pos \<equiv> sint (ctr_rpos opts)" and "r \<equiv> unat (ctr_rlen opts)"
  shows "\<exists>cbs'. kbkdf_update_fixed cbs (be_bytes 4 i @ [0]) fi fl opts = Some (MBCRYPT_STATUS_OK, cbs')
    \<and> cbs_in (\<lambda>c. holds c k (m @ (if 0 < pos
        then take (nat pos div 8) (take (unat fl) fi) @ be_bytes r i @ drop (nat pos div 8) (take (unat fl) fi)
        else take (unat fl) fi))) cbs'"
proof (cases "0 < pos \<and> 0 < ctr_rlen opts")
  case False
  have "fl \<noteq> 0" using ok by (simp add: kbkdf_pos_ok_def)
  moreover have "0 < pos \<Longrightarrow> be_bytes r i = []" using False by (simp add: r_def word_gt_0 be_bytes_def)
  then have "(if 0 < pos then take (nat pos div 8) (take (unat fl) fi) @ be_bytes r i
      @ drop (nat pos div 8) (take (unat fl) fi) else take (unat fl) fi) = take (unat fl) fi"
    by (simp del: take_take)
  moreover have "kbkdf_update_fixed cbs (be_bytes 4 i @ [0]) fi fl opts = kbkdf_update_at cbs fi 0 fl"
    unfolding kbkdf_update_fixed_def if_not_P [OF False [unfolded pos_def]] ..
  ultimately show ?thesis using update_at [OF cbs, of fl 0 fi] fi by simp
next
  case True
  then obtain p where p: "pos = 8 * int p" "0 < p" "p < unat fl" "8 * p \<noteq> unat fl"
    using ok by (auto simp: kbkdf_pos_ok_def pos_def)
  let ?p = "of_nat p :: u32" and ?f = "take (unat fl) fi"
  note al = rpos_aligned [of "ctr_rpos opts" p, folded pos_def, OF p(1)]
  have r4: "ctr_rlen opts \<le> 4" using ok by (simp add: kbkdf_pos_ok_def)
  have p0: "?p \<noteq> 0" by (rule unat_pos_neq_0) (unfold al(3), rule p(2))
  have sub: "unat (fl - ?p) = unat fl - p" using p(3) al(3) by (simp add: unat_sub_u32 word_le_nat_alt)
  have s0: "fl - ?p \<noteq> 0" by (rule unat_pos_neq_0) (unfold sub, use p(3) in simp)
  obtain c1 where 1: "kbkdf_update_at cbs fi 0 ?p = Some (MBCRYPT_STATUS_OK, c1)"
      "cbs_in (\<lambda>c. holds c k (m @ take p ?f)) c1"
    using update_at [OF cbs p0, of 0 fi, unfolded al(3)] p(3) fi by (auto simp: min_absorb1)
  obtain c2 where 2: "kbkdf_update_ctr_if True c1 (be_bytes 4 i @ [0]) opts = Some (MBCRYPT_STATUS_OK, c2)"
      "cbs_in (\<lambda>c. holds c k ((m @ take p ?f) @ be_bytes r i)) c2"
    using update_ctr_if [OF 1(2) r4, of True i] unfolding r_def by auto
  have dp: "take (unat fl - p) (drop p fi) = drop p ?f" by (simp add: drop_take)
  obtain c3 where 3: "kbkdf_update_ne_at c2 fi p (fl - ?p) = Some (MBCRYPT_STATUS_OK, c3)"
      "cbs_in (\<lambda>c. holds c k (((m @ take p ?f) @ be_bytes r i) @ drop p ?f)) c3"
    using update_ne_at [OF 2(2) s0, of p fi] sub p(3) fi dp by auto
  have ne: "pos \<noteq> int (unat fl)" using p(1,4) by linarith
  have "kbkdf_update_fixed cbs (be_bytes 4 i @ [0]) fi fl opts = Some (MBCRYPT_STATUS_OK, c3)"
    using True 1(1) 2(1) 3(1) ne
    by (simp only: kbkdf_update_fixed_def pos_def [symmetric] al(2,3) Let_def simp_thms if_True
        CHECK_RES_simps)
  moreover have "nat pos div 8 = p" using p(1) by simp
  ultimately show ?thesis using 3(2) True by simp
qed

lemma feedback_input:
  assumes cbs: "cbs_in ready cbs" and ki: "unat kl \<le> length ki" "okk (unat kl)"
    and fi: "unat fl \<le> length fi" and ok: "kbkdf_pos_ok opts fl"
    and kb: "unat k_len \<le> length kb"
  shows "\<exists>cbs'. kbkdf_feedback_input cbs ki kl kb k_len fi fl opts i = Some (MBCRYPT_STATUS_OK, cbs')
    \<and> cbs_in (\<lambda>c. holds c (take (unat kl) ki) (kbkdf_ins (sint (ctr_rpos opts))
        (unat (ctr_rlen opts)) (take (unat fl) fi) i (take (unat k_len) kb))) cbs'"
proof -
  let ?k = "take (unat kl) ki" and ?r = "unat (ctr_rlen opts)" and ?v = "take (unat k_len) kb"
  let ?pos = "sint (ctr_rpos opts)" and ?ctr = "be_bytes 4 i @ [0]"
  have r4: "ctr_rlen opts \<le> 4" using ok by (simp add: kbkdf_pos_ok_def)
  obtain c1 where 1: "p_hmac_init cbs (Some ki) kl = Some (MBCRYPT_STATUS_OK, c1)"
      "cbs_in (\<lambda>c. holds c ?k []) c1"
    using p_init [OF cbs ki] by auto
  let ?m2 = "if ctr_rpos opts = - 1 then be_bytes ?r i else []"
  obtain c2 where 2: "kbkdf_update_ctr_if (ctr_rpos opts = - 1) c1 ?ctr opts = Some (MBCRYPT_STATUS_OK, c2)"
      "cbs_in (\<lambda>c. holds c ?k ?m2) c2"
    using update_ctr_if [OF 1(2) r4, of "ctr_rpos opts = - 1" i] by auto
  obtain c3 where 3: "(if 0 < k_len then kbkdf_update_ne_at c2 kb 0 k_len else Some (MBCRYPT_STATUS_OK, c2)) =
        Some (MBCRYPT_STATUS_OK, c3)" "cbs_in (\<lambda>c. holds c ?k (?m2 @ ?v)) c3"
  proof (cases "k_len = 0")
    case True
    then show ?thesis using that [of c2] 2(2) by simp
  next
    case False
    then show ?thesis using update_ne_at [OF 2(2) False, of 0 kb] kb that by (auto simp: word_gt_0)
  qed
  let ?m4 = "if ctr_rpos opts = 0 then be_bytes ?r i else []"
  obtain c4 where 4: "kbkdf_update_ctr_if (ctr_rpos opts = 0) c3 ?ctr opts = Some (MBCRYPT_STATUS_OK, c4)"
      "cbs_in (\<lambda>c. holds c ?k ((?m2 @ ?v) @ ?m4)) c4"
    using update_ctr_if [OF 3(2) r4, of "ctr_rpos opts = 0" i] by auto
  obtain c5 where 5: "kbkdf_update_fixed c4 ?ctr fi fl opts = Some (MBCRYPT_STATUS_OK, c5)"
      "cbs_in (\<lambda>c. holds c ?k (((?m2 @ ?v) @ ?m4) @ (if 0 < ?pos
        then take (nat ?pos div 8) (take (unat fl) fi) @ be_bytes ?r i @ drop (nat ?pos div 8) (take (unat fl) fi)
        else take (unat fl) fi))) c5"
    using update_fixed [OF 4(2) fi ok, of i] by auto
  have "kbkdf_feedback_input cbs ki kl kb k_len fi fl opts i = Some (MBCRYPT_STATUS_OK, c5)"
    by (simp only: kbkdf_feedback_input_def kbkdf_ctr_eq Option.bind.simps CHECK_RES_simps
        1(1) 2(1) 3(1) 4(1) 5(1))
  moreover have "((?m2 @ ?v) @ ?m4) @ (if 0 < ?pos
        then take (nat ?pos div 8) (take (unat fl) fi) @ be_bytes ?r i @ drop (nat ?pos div 8) (take (unat fl) fi)
        else take (unat fl) fi) = kbkdf_ins ?pos ?r (take (unat fl) fi) i ?v"
    unfolding minus_1_iff zero_iff using ok by (auto simp: kbkdf_ins_def kbkdf_pos_ok_def)
  ultimately show ?thesis using 5(2) by simp
qed

end

context prf_api
begin

lemma feedback_loop:
  fixes iv :: bytes
  assumes ht: "psize = unat (GET_HASH_SIZE_BY_HASH_TYPE htype)"
    and ki: "unat kl \<le> length ki" "okk (unat kl)"
    and fi: "unat fl \<le> length fi" and ok: "kbkdf_pos_ok opts fl"
  defines "ins \<equiv> kbkdf_ins (sint (ctr_rpos opts)) (unat (ctr_rlen opts)) (take (unat fl) fi)"
  defines "K \<equiv> kbkdf_feedback_K P (take (unat kl) ki) iv ins"
  assumes okm: "\<And>i. okm (length (ins (Suc i) (K i)))"
  shows "cbs_in ready cbs \<Longrightarrow> off = n * psize \<Longrightarrow> off + m * psize \<le> length out \<Longrightarrow>
    unat k_len \<le> length kb \<Longrightarrow> take (unat k_len) kb = K n \<Longrightarrow>
    \<exists>cbs' kb' k_len'. kbkdf_feedback_loop htype cbs ki kl kb k_len fi fl opts (Suc n) (n + m) out off lst =
      Some (MBCRYPT_STATUS_OK, cbs',
        take off out @ concat (map K [Suc n..<Suc (n + m)]) @ drop (off + m * psize) out, kb', k_len',
        off + m * psize, if m = 0 then lst else off + m * psize - psize) \<and> cbs_in ready cbs'
      \<and> unat k_len' \<le> length kb' \<and> take (unat k_len') kb' = K (n + m)"
proof (induction m arbitrary: cbs n off out lst kb k_len)
  case 0
  then show ?case by (simp add: kbkdf_feedback_loop.simps)
next
  case (Suc m)
  let ?hs = "GET_HASH_SIZE_BY_HASH_TYPE htype"
  obtain c1 where 1: "kbkdf_feedback_input cbs ki kl kb k_len fi fl opts (Suc n) = Some (MBCRYPT_STATUS_OK, c1)"
      "cbs_in (\<lambda>c. holds c (take (unat kl) ki) (ins (Suc n) (K n))) c1"
    using feedback_input [OF Suc.prems(1) ki fi ok Suc.prems(4), of "Suc n"] Suc.prems(5)
    unfolding ins_def by auto
  have KS: "K (Suc n) = P (take (unat kl) ki) (ins (Suc n) (K n))" by (simp add: K_def)
  let ?out = "take off out @ K (Suc n) @ drop (off + psize) out"
  have room: "off + psize \<le> length out" using Suc.prems(3) by simp
  obtain c2 where 2: "kbkdf_final_at c1 out off = Some (MBCRYPT_STATUS_OK, c2, ?out)" "cbs_in ready c2"
    using final_at [OF 1(2) okm room] unfolding KS by blast
  have lK: "length (K (Suc n)) = psize" by (simp add: KS length_P)
  have lo: "off + psize + m * psize \<le> length ?out" using Suc.prems(3) lK by simp
  have kb: "drop off ?out = K (Suc n) @ drop (off + psize) out" using room by simp
  have "unat ?hs \<le> length (drop off ?out)" "take (unat ?hs) (drop off ?out) = K (Suc n)"
    unfolding kb ht [symmetric] using lK by simp_all
  then obtain c3 kb' k_len' where 3: "kbkdf_feedback_loop htype c2 ki kl (drop off ?out) ?hs fi fl opts
      (Suc (Suc n)) (Suc n + m) ?out (off + psize) off = Some (MBCRYPT_STATUS_OK, c3,
        take (off + psize) ?out @ concat (map K [Suc (Suc n)..<Suc (Suc n + m)])
          @ drop (off + psize + m * psize) ?out, kb', k_len',
        off + psize + m * psize, if m = 0 then off else off + psize + m * psize - psize)"
      "cbs_in ready c3" "unat k_len' \<le> length kb'" "take (unat k_len') kb' = K (Suc n + m)"
    using Suc.IH [OF 2(2) _ lo, of "Suc n" ?hs "drop off ?out" off] Suc.prems(2) by auto
  have step: "kbkdf_feedback_loop htype cbs ki kl kb k_len fi fl opts (Suc n) (n + Suc m) out off lst =
      kbkdf_feedback_loop htype c2 ki kl (drop off ?out) ?hs fi fl opts (Suc (Suc n)) (Suc n + m) ?out
        (off + psize) off"
    using 1(1) 2(1) ht by (subst kbkdf_feedback_loop.simps) (simp add: Let_def)
  have "take (off + psize) ?out = take off out @ K (Suc n)"
    and "drop (off + psize + m * psize) ?out = drop (off + psize + m * psize) out"
    using room lK by (simp_all add: add.commute)
  moreover have "[Suc n..<Suc (n + Suc m)] = Suc n # [Suc (Suc n)..<Suc (Suc n + m)]"
    by (simp add: upt_conv_Cons del: upt_Suc)
  ultimately show ?case
    using 3 unfolding step by (simp add: add.assoc del: upt_Suc)
qed

theorem feedback_key:
  assumes ht: "psize = unat (GET_HASH_SIZE_BY_HASH_TYPE htype)"
    and cbs: "cbs_in ready cbs" and ki: "unat kl \<le> length ki" "okk (unat kl)"
    and fi: "unat fl \<le> length fi" and ok: "kbkdf_pos_ok opts fl" and iv: "unat il \<le> length iv"
    and out: "kbkdf_nbytes (unat L) \<le> length out"
  defines "ins \<equiv> kbkdf_ins (sint (ctr_rpos opts)) (unat (ctr_rlen opts)) (take (unat fl) fi)"
  defines "K \<equiv> kbkdf_feedback_K P (take (unat kl) ki) (take (unat il) iv) ins"
  assumes okm: "\<And>i. okm (length (ins (Suc i) (K i)))"
  shows "\<exists>cbs'. mbcrypt_kbkdf_feedback htype cbs ki kl iv il fi fl out L opts =
    Some (MBCRYPT_STATUS_OK, cbs', kbkdf_key K psize (unat L) @ drop (kbkdf_nbytes (unat L)) out)"
proof -
  let ?k = "take (unat kl) ki" and ?n = "kbkdf_nbytes (unat L)"
  define modul where "modul = (if 1 < L mod 8 then 1 else 0 :: u32)"
  define full_blocks where "full_blocks = (L div 8 + modul) div GET_HASH_SIZE_BY_HASH_TYPE htype"
  define leftover where "leftover = (L div 8 + modul) mod GET_HASH_SIZE_BY_HASH_TYPE htype"
  have nb: "unat (L div 8 + modul) = ?n" unfolding modul_def by (rule key_out_len_nbytes)
  have nd: "unat full_blocks = ?n div psize" "unat leftover = ?n mod psize"
    unfolding full_blocks_def leftover_def unat_div_mod_u32 nb ht by simp_all
  define K1 where "K1 = (\<lambda>i. P ?k (ins i (K (i - 1))))"
  have KS: "K (Suc i) = K1 (Suc i)" for i by (simp add: K_def K1_def)
  have KK: "kbkdf_blocks K j = kbkdf_blocks K1 j" for j
    unfolding kbkdf_blocks_def by (intro arg_cong [where f = concat] map_cong refl) (auto simp: KS dest!: Suc_le_D)
  have key: "kbkdf_key K psize (unat L) = kbkdf_key K1 psize (unat L)"
    by (simp only: kbkdf_key_def KK)
  have lK: "\<forall>i. length (K1 i) = psize" by (simp add: K1_def length_P)
  let ?q = "?n div psize"
  let ?out1 = "kbkdf_blocks K1 ?q @ drop (?q * psize) out"
  have room: "?q * psize \<le> length out" using out by (meson div_times_less_eq_dividend order_trans)
  have il: "(if 0 < il then il else 0) = il" by (simp add: word_gt_0)
  have Kq: "concat (map K [Suc 0..<Suc ?q]) = kbkdf_blocks K1 ?q"
    using KK [of ?q] by (simp add: kbkdf_blocks_def del: upt_Suc)
  obtain c1 kb k_len where 1: "kbkdf_feedback_loop htype cbs ki kl iv il fi fl opts 1 ?q out 0 0 =
      Some (MBCRYPT_STATUS_OK, c1, ?out1, kb, k_len, ?q * psize, if ?q = 0 then 0 else ?q * psize - psize)"
      "cbs_in ready c1" "unat k_len \<le> length kb" "take (unat k_len) kb = K ?q"
    using feedback_loop [OF ht ki fi ok okm [unfolded K_def ins_def], folded ins_def, folded K_def,
        of cbs 0 0 ?q out il iv 0, unfolded add_0 Kq] cbs room iv
    by (auto simp del: upt_Suc simp: K_def)
  let ?inp = "kbkdf_feedback_input c1 ki kl kb k_len fi fl opts (Suc ?q)"
  obtain c2 where 2: "?inp = Some (MBCRYPT_STATUS_OK, c2)" "cbs_in (\<lambda>c. holds c ?k (ins (Suc ?q) (K ?q))) c2"
    using feedback_input [OF 1(2) ki fi ok 1(3), of "Suc ?q"] unfolding 1(4) ins_def [symmetric] by blast
  have lb: "length (kbkdf_blocks K1 ?q) = ?q * psize" by (rule length_kbkdf_blocks [OF lK])
  have d1: "?n \<le> length ?out1" "drop ?n ?out1 = drop ?n out" using lb out room by simp_all
  have PK: "P ?k (ins (Suc ?q) (K ?q)) = K1 (Suc ?q)" by (simp add: K1_def)
  obtain c3 where 3: "(if leftover \<noteq> 0 then do {
        (st, cbs) \<leftarrow> ?inp;
        if st \<noteq> MBCRYPT_STATUS_OK then Some (st, cbs, ?out1)
        else kbkdf_last_block cbs ?out1 (?q * psize) leftover modul L
      } else do {
        out1 \<leftarrow> (if modul \<noteq> 0 then kbkdf_mask ?out1 ((if ?q = 0 then 0 else ?q * psize - psize)
          + unat (GET_HASH_SIZE_BY_HASH_TYPE htype) - 1) L else Some ?out1);
        Some (MBCRYPT_STATUS_OK, c1, out1)
      }) = Some (MBCRYPT_STATUS_OK, c3, kbkdf_key K1 psize (unat L) @ drop ?n ?out1)"
    using finish_key [OF ht lK refl nd, of modul ?out1 _ ?inp ?k "ins (Suc ?q) (K ?q)"
        "if ?q = 0 then 0 else ?q * psize - psize" c1]
      modul_iff [of L, folded modul_def] d1(1) 2 okm PK by auto
  have r4: "\<not> 4 < ctr_rlen opts" using ok by (simp add: kbkdf_pos_ok_def not_less)
  have "mbcrypt_kbkdf_feedback htype cbs ki kl iv il fi fl out L opts =
      Some (MBCRYPT_STATUS_OK, c3, kbkdf_key K1 psize (unat L) @ drop ?n out)"
    unfolding mbcrypt_kbkdf_feedback_def Let_def modul_def [symmetric] full_blocks_def [symmetric]
      leftover_def [symmetric] if_not_P [OF r4] nd(1)
    by (simp only: il 1(1) Option.bind.simps prod.case simp_thms if_False
        Suc_eq_plus1 [symmetric] 3 d1(2))
  then show ?thesis unfolding key by blast
qed

end


subsection \<open>Double-pipeline mode\<close>

text \<open>
  The block from \<open>A(i)\<close>. The code does not do that for position \<open>-1\<close>, where it puts the counter after
  \<open>A(i)\<close> as for position 0: the lemmas are about the position \<open>max 0 (ctr_rpos opts)\<close>.
\<close>

definition kbkdf_double_K ::
    "(bytes \<Rightarrow> bytes \<Rightarrow> bytes) \<Rightarrow> bytes \<Rightarrow> bytes \<Rightarrow> int \<Rightarrow> nat \<Rightarrow> nat \<Rightarrow> bytes" where
  "kbkdf_double_K prf ki fixd pos r i =
     prf ki (kbkdf_ins pos r fixd i (kbkdf_double_A prf ki fixd i))"

context prf_api
begin

lemma double_input:
  assumes ht: "psize = unat (GET_HASH_SIZE_BY_HASH_TYPE htype)"
    and cbs: "cbs_in ready cbs" and ki: "unat kl \<le> length ki" "okk (unat kl)"
    and fi: "unat fl \<le> length fi" and ok: "kbkdf_pos_ok opts fl"
    and a: "unat a_len \<le> length a" "a_len \<noteq> 0" and A: "psize \<le> length A" and okm: "okm (unat a_len)"
  defines "A' \<equiv> P (take (unat kl) ki) (take (unat a_len) a)"
  shows "\<exists>cbs'. kbkdf_double_input htype cbs ki kl a a_len A fi fl opts i =
      Some (MBCRYPT_STATUS_OK, cbs', A' @ drop psize A)
    \<and> cbs_in (\<lambda>c. holds c (take (unat kl) ki) (kbkdf_ins (max 0 (sint (ctr_rpos opts)))
        (unat (ctr_rlen opts)) (take (unat fl) fi) i A')) cbs'"
proof -
  let ?k = "take (unat kl) ki" and ?r = "unat (ctr_rlen opts)" and ?hs = "GET_HASH_SIZE_BY_HASH_TYPE htype"
  let ?pos = "sint (ctr_rpos opts)" and ?ctr = "be_bytes 4 i @ [0]" and ?A = "A' @ drop psize A"
  have r4: "ctr_rlen opts \<le> 4" using ok by (simp add: kbkdf_pos_ok_def)
  obtain c1 where 1: "p_hmac_init cbs (Some ki) kl = Some (MBCRYPT_STATUS_OK, c1)"
      "cbs_in (\<lambda>c. holds c ?k []) c1"
    using p_init [OF cbs ki] by auto
  obtain c2 where 2: "p_hmac_update c1 (Some a) a_len = Some (MBCRYPT_STATUS_OK, c2)"
      "cbs_in (\<lambda>c. holds c ?k (take (unat a_len) a)) c2"
    using p_update [OF 1(2) a(2,1)] by auto
  obtain c3 where 3: "p_hmac_final c2 A = Some (MBCRYPT_STATUS_OK, c3, ?A)" "cbs_in ready c3"
    using p_final [OF 2(2) _ A] okm a(1) unfolding A'_def by auto
  obtain c4 where 4: "p_hmac_init c3 (Some ki) kl = Some (MBCRYPT_STATUS_OK, c4)"
      "cbs_in (\<lambda>c. holds c ?k []) c4"
    using p_init [OF 3(2) ki] by auto
  have lA: "length A' = unat ?hs" by (simp add: A'_def length_P ht)
  have "0 < unat ?hs" by (rule hash_size_bounds)
  then have "?hs \<noteq> 0" by (rule unat_pos_neq_0)
  moreover have "unat ?hs \<le> length ?A" using lA by simp
  ultimately obtain c5 where 5: "p_hmac_update c4 (Some ?A) ?hs = Some (MBCRYPT_STATUS_OK, c5)"
      "cbs_in (\<lambda>c. holds c ?k A') c5"
    using p_update [OF 4(2), of ?hs ?A] lA by auto
  let ?m6 = "if ctr_rpos opts = - 1 then be_bytes ?r i else []"
  obtain c6 where 6: "kbkdf_update_ctr_if (ctr_rpos opts = - 1) c5 ?ctr opts = Some (MBCRYPT_STATUS_OK, c6)"
      "cbs_in (\<lambda>c. holds c ?k (A' @ ?m6)) c6"
    using update_ctr_if [OF 5(2) r4, of "ctr_rpos opts = - 1" i] by auto
  let ?m7 = "if ctr_rpos opts = 0 then be_bytes ?r i else []"
  obtain c7 where 7: "kbkdf_update_ctr_if (ctr_rpos opts = 0) c6 ?ctr opts = Some (MBCRYPT_STATUS_OK, c7)"
      "cbs_in (\<lambda>c. holds c ?k ((A' @ ?m6) @ ?m7)) c7"
    using update_ctr_if [OF 6(2) r4, of "ctr_rpos opts = 0" i] by auto
  let ?m8 = "if 0 < ?pos
      then take (nat ?pos div 8) (take (unat fl) fi) @ be_bytes ?r i @ drop (nat ?pos div 8) (take (unat fl) fi)
      else take (unat fl) fi"
  obtain c8 where 8: "kbkdf_update_fixed c7 ?ctr fi fl opts = Some (MBCRYPT_STATUS_OK, c8)"
      "cbs_in (\<lambda>c. holds c ?k (((A' @ ?m6) @ ?m7) @ ?m8)) c8"
    using update_fixed [OF 7(2) fi ok, of i] by auto
  have "kbkdf_double_input htype cbs ki kl a a_len A fi fl opts i = Some (MBCRYPT_STATUS_OK, c8, ?A)"
    by (simp only: kbkdf_double_input_def kbkdf_ctr_eq Option.bind.simps prod.case CHECK_RES_simps
        1(1) 2(1) 3(1) 4(1) 5(1) 6(1) 7(1) 8(1) simp_thms if_False)
  moreover have "((A' @ ?m6) @ ?m7) @ ?m8 = kbkdf_ins (max 0 ?pos) ?r (take (unat fl) fi) i A'"
    unfolding minus_1_iff zero_iff using ok by (auto simp: kbkdf_ins_def kbkdf_pos_ok_def)
  ultimately show ?thesis using 8(2) by simp
qed

lemma double_loop:
  assumes ht: "psize = unat (GET_HASH_SIZE_BY_HASH_TYPE htype)"
    and ki: "unat kl \<le> length ki" "okk (unat kl)"
    and fi: "unat fl \<le> length fi" and ok: "kbkdf_pos_ok opts fl"
  defines "A \<equiv> kbkdf_double_A P (take (unat kl) ki) (take (unat fl) fi)"
    and "K \<equiv> kbkdf_double_K P (take (unat kl) ki) (take (unat fl) fi) (max 0 (sint (ctr_rpos opts)))
      (unat (ctr_rlen opts))"
  assumes okm: "\<And>i. okm (length (A i))"
      "\<And>i. okm (length (kbkdf_ins (max 0 (sint (ctr_rpos opts))) (unat (ctr_rlen opts))
        (take (unat fl) fi) (Suc i) (A (Suc i))))"
  shows "cbs_in ready cbs \<Longrightarrow> off = n * psize \<Longrightarrow> off + m * psize \<le> length out \<Longrightarrow>
    unat a_len \<le> length a \<Longrightarrow> a_len \<noteq> 0 \<Longrightarrow> take (unat a_len) a = A n \<Longrightarrow> psize \<le> length buf \<Longrightarrow>
    \<exists>cbs' a' a_len'. kbkdf_double_loop htype cbs ki kl a a_len buf fi fl opts (Suc n) (n + m) out off lst =
      Some (MBCRYPT_STATUS_OK, cbs',
        take off out @ concat (map K [Suc n..<Suc (n + m)]) @ drop (off + m * psize) out, a', a_len',
        off + m * psize, if m = 0 then lst else off + m * psize - psize) \<and> cbs_in ready cbs'
      \<and> unat a_len' \<le> length a' \<and> a_len' \<noteq> 0"
proof (induction m arbitrary: cbs n off out lst a a_len buf)
  case 0
  then show ?case by (simp add: kbkdf_double_loop.simps)
next
  case (Suc m)
  let ?hs = "GET_HASH_SIZE_BY_HASH_TYPE htype" and ?buf = "A (Suc n) @ drop psize buf"
  have oka: "okm (unat a_len)" using okm(1) [of n] Suc.prems(4,6) by (metis length_take min.absorb2)
  have AS: "P (take (unat kl) ki) (take (unat a_len) a) = A (Suc n)"
    unfolding Suc.prems(6) by (simp add: A_def)
  note inp = double_input [OF ht Suc.prems(1) ki fi ok Suc.prems(4,5,7) oka, of "Suc n", unfolded AS]
  obtain c1 where 1: "kbkdf_double_input htype cbs ki kl a a_len buf fi fl opts (Suc n) =
        Some (MBCRYPT_STATUS_OK, c1, ?buf)"
      "cbs_in (\<lambda>c. holds c (take (unat kl) ki) (kbkdf_ins (max 0 (sint (ctr_rpos opts)))
        (unat (ctr_rlen opts)) (take (unat fl) fi) (Suc n) (A (Suc n)))) c1"
    using inp by blast
  let ?out = "take off out @ K (Suc n) @ drop (off + psize) out"
  have room: "off + psize \<le> length out" using Suc.prems(3) by simp
  obtain c2 where 2: "kbkdf_final_at c1 out off = Some (MBCRYPT_STATUS_OK, c2, ?out)" "cbs_in ready c2"
    using final_at [OF 1(2) okm(2) room] unfolding K_def kbkdf_double_K_def A_def by blast
  have lK: "length (K (Suc n)) = psize" by (simp add: K_def kbkdf_double_K_def length_P)
  have lA: "length (A (Suc n)) = psize" by (simp add: A_def length_P)
  have lo: "off + psize + m * psize \<le> length ?out" using Suc.prems(3) lK by simp
  have "0 < unat ?hs" by (rule hash_size_bounds)
  then have hs0: "?hs \<noteq> 0" by (rule unat_pos_neq_0)
  have b: "unat ?hs \<le> length ?buf" "take (unat ?hs) ?buf = A (Suc n)" "psize \<le> length ?buf"
    unfolding ht [symmetric] using lA by simp_all
  obtain c3 a' a_len' where 3: "kbkdf_double_loop htype c2 ki kl ?buf ?hs ?buf fi fl opts
      (Suc (Suc n)) (Suc n + m) ?out (off + psize) off = Some (MBCRYPT_STATUS_OK, c3,
        take (off + psize) ?out @ concat (map K [Suc (Suc n)..<Suc (Suc n + m)])
          @ drop (off + psize + m * psize) ?out, a', a_len',
        off + psize + m * psize, if m = 0 then off else off + psize + m * psize - psize)"
      "cbs_in ready c3" "unat a_len' \<le> length a'" "a_len' \<noteq> 0"
    using Suc.IH [OF 2(2) _ lo b(1) hs0 b(2,3), of off] Suc.prems(2) by auto
  have step: "kbkdf_double_loop htype cbs ki kl a a_len buf fi fl opts (Suc n) (n + Suc m) out off lst =
      kbkdf_double_loop htype c2 ki kl ?buf ?hs ?buf fi fl opts (Suc (Suc n)) (Suc n + m) ?out
        (off + psize) off"
    using 1(1) 2(1) ht by (subst kbkdf_double_loop.simps) (simp add: Let_def)
  have "take (off + psize) ?out = take off out @ K (Suc n)"
    and "drop (off + psize + m * psize) ?out = drop (off + psize + m * psize) out"
    using room lK by (simp_all add: add.commute)
  moreover have "[Suc n..<Suc (n + Suc m)] = Suc n # [Suc (Suc n)..<Suc (Suc n + m)]"
    by (simp add: upt_conv_Cons del: upt_Suc)
  ultimately show ?case
    using 3 unfolding step by (simp add: add.assoc del: upt_Suc)
qed

end

text \<open>
  The code derives the key if it fills whole blocks; if it does not, the code reports success and
  leaves the tail of the key unwritten.
\<close>

context prf_api
begin

theorem double_key:
  assumes ht: "psize = unat (GET_HASH_SIZE_BY_HASH_TYPE htype)"
    and cbs: "cbs_in ready cbs" and ki: "unat kl \<le> length ki" "okk (unat kl)"
    and fi: "unat fl \<le> length fi" and ok: "kbkdf_pos_ok opts fl"
    and out: "kbkdf_nbytes (unat L) \<le> length out"
  defines "A \<equiv> kbkdf_double_A P (take (unat kl) ki) (take (unat fl) fi)"
    and "K \<equiv> kbkdf_double_K P (take (unat kl) ki) (take (unat fl) fi) (max 0 (sint (ctr_rpos opts)))
      (unat (ctr_rlen opts))"
    and "n \<equiv> kbkdf_nbytes (unat L)"
  assumes okm: "\<And>i. okm (length (A i))"
      "\<And>i. okm (length (kbkdf_ins (max 0 (sint (ctr_rpos opts))) (unat (ctr_rlen opts))
        (take (unat fl) fi) (Suc i) (A (Suc i))))"
  shows "\<exists>cbs'. mbcrypt_kbkdf_double_pipeline htype cbs ki kl fi fl out L opts = Some (MBCRYPT_STATUS_OK, cbs',
    if n mod psize = 0 then kbkdf_key K psize (unat L) @ drop n out
    else kbkdf_blocks K (n div psize) @ drop (n div psize * psize) out)"
proof -
  define modul where "modul = (if 1 < L mod 8 then 1 else 0 :: u32)"
  define full_blocks where "full_blocks = (L div 8 + modul) div GET_HASH_SIZE_BY_HASH_TYPE htype"
  define leftover where "leftover = (L div 8 + modul) mod GET_HASH_SIZE_BY_HASH_TYPE htype"
  have nb: "unat (L div 8 + modul) = n" unfolding modul_def n_def by (rule key_out_len_nbytes)
  have nd: "unat full_blocks = n div psize" "unat leftover = n mod psize"
    unfolding full_blocks_def leftover_def unat_div_mod_u32 nb ht by simp_all
  have lK: "\<forall>i. length (K i) = psize" by (simp add: K_def kbkdf_double_K_def length_P)
  let ?q = "n div psize"
  let ?out1 = "kbkdf_blocks K ?q @ drop (?q * psize) out"
  have room: "?q * psize \<le> length out" using out [folded n_def] by (meson div_times_less_eq_dividend order_trans)
  have fl0: "fl \<noteq> 0" using ok by (simp add: kbkdf_pos_ok_def)
  have "psize \<le> 64" unfolding ht by (rule hash_size_bounds)
  then have buf: "psize \<le> length (replicate 64 (0 :: u8))" by simp
  have Kq: "concat (map K [Suc 0..<Suc ?q]) = kbkdf_blocks K ?q"
    by (simp add: kbkdf_blocks_def del: upt_Suc)
  obtain c1 a a_len where 1: "kbkdf_double_loop htype cbs ki kl fi fl (replicate 64 0) fi fl opts 1 ?q out 0 0 =
      Some (MBCRYPT_STATUS_OK, c1, ?out1, a, a_len, ?q * psize, if ?q = 0 then 0 else ?q * psize - psize)"
      "cbs_in ready c1" "unat a_len \<le> length a" "a_len \<noteq> 0"
    using double_loop [OF ht ki fi ok okm [unfolded A_def], folded A_def K_def,
        of cbs 0 0 ?q out fl fi "replicate 64 0" 0, unfolded add_0 Kq] cbs room fi fl0 buf
    by (auto simp del: upt_Suc simp: A_def)
  have lb: "length (kbkdf_blocks K ?q) = ?q * psize" by (rule length_kbkdf_blocks [OF lK])
  have r4: "\<not> 4 < ctr_rlen opts" using ok by (simp add: kbkdf_pos_ok_def not_less)
  show ?thesis
  proof (cases "leftover = 0")
    case True
    then have r0: "n mod psize = 0" using nd(2) by simp
    have "n \<le> length ?out1" "drop n ?out1 = drop n out" using lb out room by (simp_all add: n_def)
    then obtain c3 where "do {
        out1 \<leftarrow> (if modul \<noteq> 0 then kbkdf_mask ?out1 ((if ?q = 0 then 0 else ?q * psize - psize)
          + unat (GET_HASH_SIZE_BY_HASH_TYPE htype) - 1) L else Some ?out1);
        Some (MBCRYPT_STATUS_OK, c1, out1)
      } = Some (MBCRYPT_STATUS_OK, c3, kbkdf_key K psize (unat L) @ drop n out)"
      using finish_key [OF ht lK n_def [THEN meta_eq_to_obj_eq] nd, of modul ?out1
          "drop (?q * psize) out" None
          "[]" "[]" "if ?q = 0 then 0 else ?q * psize - psize" c1]
        modul_iff [of L, folded modul_def] True by auto
    then have "mbcrypt_kbkdf_double_pipeline htype cbs ki kl fi fl out L opts =
        Some (MBCRYPT_STATUS_OK, c3, kbkdf_key K psize (unat L) @ drop n out)"
      unfolding mbcrypt_kbkdf_double_pipeline_def Let_def modul_def [symmetric] full_blocks_def [symmetric]
        leftover_def [symmetric] if_not_P [OF r4] nd(1)
      by (simp only: 1(1) Option.bind.simps prod.case simp_thms if_False True)
    then show ?thesis using r0 by auto
  next
    case False
    then have "0 < unat leftover" by (simp add: unat_gt_0)
    then have r0: "n mod psize \<noteq> 0" using nd(2) by simp
    obtain c2 where 2: "p_hmac_init c1 (Some ki) kl = Some (MBCRYPT_STATUS_OK, c2)"
        "cbs_in (\<lambda>c. holds c (take (unat kl) ki) []) c2"
      using p_init [OF 1(2) ki] by auto
    obtain c3 where 3: "p_hmac_update c2 (Some a) a_len = Some (MBCRYPT_STATUS_OK, c3)"
      using p_update [OF 2(2) 1(4,3)] by auto
    have "mbcrypt_kbkdf_double_pipeline htype cbs ki kl fi fl out L opts = Some (MBCRYPT_STATUS_OK, c3, ?out1)"
      unfolding mbcrypt_kbkdf_double_pipeline_def Let_def modul_def [symmetric] full_blocks_def [symmetric]
        leftover_def [symmetric] if_not_P [OF r4] nd(1)
      by (simp only: 1(1) 2(1) 3 CHECK_RES_simps Option.bind.simps prod.case simp_thms if_False if_True
          False not_False_eq_True)
    then show ?thesis using r0 by auto
  qed
qed

end

end
