(* ===== verification/Kbkdf_Api.thy ===== *)
theory Kbkdf_Api
  imports Kbkdf_Chained
begin

text \<open>
  The entry point \<open>kbkdf\<close>: the number of blocks as the standard counts them, the calls of the
  three modes, what is rejected, and the bit that is lost.
\<close>

lemma length_kbkdf_ins: "length (kbkdf_ins pos r fixd i k) = length k + r + length fixd"
  by (auto simp: kbkdf_ins_def min_def)

text \<open>Without a single left-over bit, the bytes and the blocks are those of SP 800-108.\<close>

lemma kbkdf_nbytes_ceiling: "L mod 8 \<noteq> 1 \<Longrightarrow> kbkdf_nbytes L = (L + 7) div 8"
  using ceiling_div [of 8 L] by (auto simp: kbkdf_nbytes_def)

lemma kbkdf_blocks_ceiling:
  assumes "0 < h" and "L mod 8 \<noteq> 1"
  shows "(kbkdf_nbytes L + h - 1) div h = (L + 8 * h - 1) div (8 * h)"
proof -
  have "kbkdf_nbytes L + h - 1 = (L + 7 + 8 * (h - 1)) div 8"
    using assms by (simp add: kbkdf_nbytes_ceiling)
  also have "L + 7 + 8 * (h - 1) = L + 8 * h - 1" using assms by (cases h) auto
  finally show ?thesis by (simp add: div_mult2_eq)
qed

lemma kbkdf_key_spec:
  assumes "\<forall>i. length (K i) = h" and "0 < h" and "L mod 8 \<noteq> 1"
  shows "kbkdf_key K h L @ drop (kbkdf_nbytes L) out =
    leftmost_bits L (kbkdf_blocks K (sp800_108_blocks h L)) @ drop ((L + 7) div 8) out"
  unfolding sp800_108_blocks_def kbkdf_key_leftmost [OF assms] kbkdf_blocks_ceiling [OF assms(2,3)]
  unfolding kbkdf_nbytes_ceiling [OF assms(3)] ..

lemma kbkdf_calls:
  assumes "hmac_init cbs \<noteq> None" and "hmac_update cbs \<noteq> None" and "hmac_final cbs \<noteq> None"
  shows "kbkdf 0 t (Some cbs) (Some ki) kl (Some iv) il (Some fi) fl (Some out) L (Some opts) =
      do { (st, cbs, out) \<leftarrow> mbcrypt_kbkdf_counter t cbs ki kl fi fl out L opts; Some (st, Some cbs, Some out) }"
    and "kbkdf 1 t (Some cbs) (Some ki) kl (Some iv) il (Some fi) fl (Some out) L (Some opts) =
      do { (st, cbs, out) \<leftarrow> mbcrypt_kbkdf_feedback t cbs ki kl iv il fi fl out L opts; Some (st, Some cbs, Some out) }"
    and "kbkdf 2 t (Some cbs) (Some ki) kl (Some iv) il (Some fi) fl (Some out) L (Some opts) =
      do { (st, cbs, out) \<leftarrow> mbcrypt_kbkdf_double_pipeline t cbs ki kl fi fl out L opts; Some (st, Some cbs, Some out) }"
  using assms by (auto simp: kbkdf_def Let_def)

lemma nat_mod_8_1: "n mod 8 = 1 \<Longrightarrow> (n - 1) div 8 = n div 8 \<and> (n - 1) mod 8 = 0" for n :: nat
proof -
  assume "n mod 8 = 1"
  then have "n = 8 * (n div 8) + 1" using mult_div_mod_eq [of 8 n] by simp
  then obtain k where "n = 8 * k + 1" by blast
  then show ?thesis by simp
qed

text \<open>The leftover bit of a length \<open>8 m + 1\<close> does not reach the code.\<close>

lemma single_bit:
  fixes L :: u32
  assumes "L mod 8 = 1"
  shows "(L - 1) div 8 = L div 8" "(L - 1) mod 8 = 0"
proof -
  have "unat (L mod 8) = unat (1 :: u32)" using assms by (rule arg_cong)
  then have m: "unat L mod 8 = 1" unfolding unat_div_mod_u32 by simp
  then have "L \<noteq> 0" by auto
  then have s: "unat (L - 1) = unat L - 1" by (rule unat_minus_one)
  have "(unat L - 1) div 8 = unat L div 8" "(unat L - 1) mod 8 = 0"
    using nat_mod_8_1 [OF m] by simp_all
  then have "unat ((L - 1) div 8) = unat (L div 8)" "unat ((L - 1) mod 8) = unat (0 :: u32)"
    unfolding unat_div_mod_u32 s by simp_all
  then show "(L - 1) div 8 = L div 8" "(L - 1) mod 8 = 0"
    unfolding word_unat_eq_iff .
qed

lemma not_0_neq_0: "(0 :: u32) \<noteq> 0 \<longleftrightarrow> False"
  by simp

lemma kbkdf_last_block_no_mask:
  "kbkdf_last_block cbs out off lo 0 L = kbkdf_last_block cbs out off lo 0 L'"
  unfolding kbkdf_last_block_def not_0_neq_0 if_False ..

text \<open>
  C36. A length of \<open>8 m + 1\<close> bits is treated as \<open>8 m\<close> bits in every mode: the test
  \<open>key_out_len % 8 > 1\<close> loses a single left-over bit, so the byte that should carry it is not
  written although the call reports success.
\<close>

theorem kbkdf_loses_single_bit:
  assumes "L mod 8 = 1"
  shows "kbkdf mode t cbs ki kl iv il fi fl out L opts = kbkdf mode t cbs ki kl iv il fi fl out (L - 1) opts"
proof -
  note L = single_bit [OF assms] assms
  have not: "(1 :: u32) < 1 \<longleftrightarrow> False" "(1 :: u32) < 0 \<longleftrightarrow> False" by simp_all
  have counter: "mbcrypt_kbkdf_counter t cb k kl f fl o1 L op = mbcrypt_kbkdf_counter t cb k kl f fl o1 (L - 1) op"
    for cb k f o1 op
    unfolding mbcrypt_kbkdf_counter_def L not if_False Let_def not_0_neq_0
      kbkdf_last_block_no_mask [of _ _ _ _ L "L - 1"] ..
  have feedback: "mbcrypt_kbkdf_feedback t cb k kl v il f fl o1 L op =
      mbcrypt_kbkdf_feedback t cb k kl v il f fl o1 (L - 1) op" for cb k v f o1 op
    unfolding mbcrypt_kbkdf_feedback_def L not if_False Let_def not_0_neq_0
      kbkdf_last_block_no_mask [of _ _ _ _ L "L - 1"] ..
  have double: "mbcrypt_kbkdf_double_pipeline t cb k kl f fl o1 L op =
      mbcrypt_kbkdf_double_pipeline t cb k kl f fl o1 (L - 1) op" for cb k f o1 op
    unfolding mbcrypt_kbkdf_double_pipeline_def L not if_False Let_def not_0_neq_0 ..
  show ?thesis unfolding kbkdf_def counter feedback double ..
qed

theorem kbkdf_loses_single_bit_witness:
  "\<forall>mode t (cbs :: u32 mbcrypt_hmac_callbacks_t ptr) ki kl iv il fi fl out opts.
     kbkdf mode t cbs ki kl iv il fi fl out 257 opts = kbkdf mode t cbs ki kl iv il fi fl out 256 opts"
  by (intro allI) (rule kbkdf_loses_single_bit [of 257, simplified])

text \<open>
  Double-pipeline mode has no position \<open>-1\<close>: the counter that belongs before everything is put
  after \<open>A(i)\<close>, as for position 0.
\<close>

lemma double_input_position:
  fixes cbs :: "'s mbcrypt_hmac_callbacks_t"
  shows "kbkdf_double_input t cbs ki kl a al A fi fl \<lparr>ctr_rlen = r, ctr_rpos = - 1\<rparr> i =
   kbkdf_double_input t cbs ki kl a al A fi fl \<lparr>ctr_rlen = r, ctr_rpos = 0\<rparr> i"
proof -
  have ctr: "MBCRYPT_CHECK_RES (kbkdf_update_ctr_if True cb ctr \<lparr>ctr_rlen = r, ctr_rpos = - 1\<rparr>) (\<lambda>cb.
      MBCRYPT_CHECK_RES (kbkdf_update_ctr_if False cb ctr \<lparr>ctr_rlen = r, ctr_rpos = - 1\<rparr>) f) =
    MBCRYPT_CHECK_RES (kbkdf_update_ctr_if False cb ctr \<lparr>ctr_rlen = r, ctr_rpos = 0\<rparr>) (\<lambda>cb.
      MBCRYPT_CHECK_RES (kbkdf_update_ctr_if True cb ctr \<lparr>ctr_rlen = r, ctr_rpos = 0\<rparr>) f)"
    for cb :: "'s mbcrypt_hmac_callbacks_t" and ctr f
    by (simp add: kbkdf_update_ctr_if_def)
  have fixd: "kbkdf_update_fixed cb ctr fi fl \<lparr>ctr_rlen = r, ctr_rpos = - 1\<rparr> =
      kbkdf_update_fixed cb ctr fi fl \<lparr>ctr_rlen = r, ctr_rpos = 0\<rparr>" for cb :: "'s mbcrypt_hmac_callbacks_t" and ctr
    by (simp add: kbkdf_update_fixed_def)
  have eqs: "(- 1 = (- 1 :: i32)) = True" "(- 1 = (0 :: i32)) = False" "(0 = (- 1 :: i32)) = False"
      "(0 = (0 :: i32)) = True" by simp_all
  show ?thesis
    unfolding kbkdf_double_input_def mbcrypt_kbkdf_opts_t.select_convs eqs fixd ctr ..
qed

lemma double_loop_position:
  fixes cbs :: "'s mbcrypt_hmac_callbacks_t"
  shows "kbkdf_double_loop t cbs ki kl a al A fi fl \<lparr>ctr_rlen = r, ctr_rpos = - 1\<rparr> i n out off lst =
   kbkdf_double_loop t cbs ki kl a al A fi fl \<lparr>ctr_rlen = r, ctr_rpos = 0\<rparr> i n out off lst"
proof (induction "Suc n - i" arbitrary: cbs a al A i out off lst)
  case 0
  then show ?case by (simp add: kbkdf_double_loop.simps)
next
  case (Suc m)
  have IH: "kbkdf_double_loop t c ki kl b bl B fi fl \<lparr>ctr_rlen = r, ctr_rpos = - 1\<rparr> (i + 1) n o1 o2 l =
      kbkdf_double_loop t c ki kl b bl B fi fl \<lparr>ctr_rlen = r, ctr_rpos = 0\<rparr> (i + 1) n o1 o2 l"
    for c :: "'s mbcrypt_hmac_callbacks_t" and b bl B o1 o2 l
    by (rule Suc.hyps(1)) (use Suc.hyps(2) in simp)
  show ?case
    unfolding kbkdf_double_loop.simps [of _ _ _ _ _ _ _ _ _ _ i] double_input_position IH ..
qed

theorem kbkdf_double_position:
  fixes cbs :: "'s mbcrypt_hmac_callbacks_t ptr"
  shows "kbkdf 2 t cbs ki kl iv il fi fl out L (Some \<lparr>ctr_rlen = r, ctr_rpos = - 1\<rparr>) =
   kbkdf 2 t cbs ki kl iv il fi fl out L (Some \<lparr>ctr_rlen = r, ctr_rpos = 0\<rparr>)"
proof -
  have "mbcrypt_kbkdf_double_pipeline t cb k kl f fl o1 L \<lparr>ctr_rlen = r, ctr_rpos = - 1\<rparr> =
      mbcrypt_kbkdf_double_pipeline t cb k kl f fl o1 L \<lparr>ctr_rlen = r, ctr_rpos = 0\<rparr>"
    for cb :: "'s mbcrypt_hmac_callbacks_t" and k f o1
    unfolding mbcrypt_kbkdf_double_pipeline_def double_loop_position mbcrypt_kbkdf_opts_t.select_convs ..
  then show ?thesis by (simp add: kbkdf_def Let_def split: option.split cong: if_cong)
qed

text \<open>
  What \<open>kbkdf\<close> rejects: a null key, vector, fixed input or output, and callbacks with a
  missing function, with \<open>MBCRYPT_STATUS_FAIL_NULL_PTR\<close>; a mode that is none of the three with
  \<open>MBCRYPT_STATUS_FAIL_NOT_IMPLEMENTED\<close>; a counter of more than four bytes with
  \<open>MBCRYPT_STATUS_FAIL\<close>. The output and the context stay as they are.
\<close>

theorem kbkdf_rejects:
  "kbkdf mode t cbs None kl iv il fi fl out L opts = Some (MBCRYPT_STATUS_FAIL_NULL_PTR, cbs, out)
   \<and> kbkdf mode t cbs ki kl None il fi fl out L opts = Some (MBCRYPT_STATUS_FAIL_NULL_PTR, cbs, out)
   \<and> kbkdf mode t cbs ki kl iv il None fl out L opts = Some (MBCRYPT_STATUS_FAIL_NULL_PTR, cbs, out)
   \<and> kbkdf mode t cbs ki kl iv il fi fl None L opts = Some (MBCRYPT_STATUS_FAIL_NULL_PTR, cbs, None)
   \<and> kbkdf mode t (Some (cb\<lparr>hmac_init := None\<rparr>)) (Some k) kl (Some v) il (Some f) fl (Some o1) L opts =
       Some (MBCRYPT_STATUS_FAIL_NULL_PTR, Some (cb\<lparr>hmac_init := None\<rparr>), Some o1)
   \<and> kbkdf mode t (Some (cb\<lparr>hmac_update := None\<rparr>)) (Some k) kl (Some v) il (Some f) fl (Some o1) L opts =
       Some (MBCRYPT_STATUS_FAIL_NULL_PTR, Some (cb\<lparr>hmac_update := None\<rparr>), Some o1)
   \<and> kbkdf mode t (Some (cb\<lparr>hmac_final := None\<rparr>)) (Some k) kl (Some v) il (Some f) fl (Some o1) L opts =
       Some (MBCRYPT_STATUS_FAIL_NULL_PTR, Some (cb\<lparr>hmac_final := None\<rparr>), Some o1)
   \<and> kbkdf 3 t (Some (cb\<lparr>hmac_init := Some i, hmac_update := Some u, hmac_final := Some fn\<rparr>)) (Some k) kl
         (Some v) il (Some f) fl (Some o1) L opts =
       Some (MBCRYPT_STATUS_FAIL_NOT_IMPLEMENTED,
         Some (cb\<lparr>hmac_init := Some i, hmac_update := Some u, hmac_final := Some fn\<rparr>), Some o1)
   \<and> kbkdf 0 t (Some (cb\<lparr>hmac_init := Some i, hmac_update := Some u, hmac_final := Some fn\<rparr>)) (Some k) kl
         (Some v) il (Some f) fl (Some o1) L (Some \<lparr>ctr_rlen = 5, ctr_rpos = p\<rparr>) =
       Some (MBCRYPT_STATUS_FAIL,
         Some (cb\<lparr>hmac_init := Some i, hmac_update := Some u, hmac_final := Some fn\<rparr>), Some o1)"
  by (simp add: kbkdf_def Let_def mbcrypt_kbkdf_counter_def split: option.split)

end
