(* ===== verification/Kbkdf_Hmac.thy ===== *)
theory Kbkdf_Hmac
  imports Hmac Kbkdf_Api
begin

text \<open>
  \<open>kbkdf\<close> called with the library's own HMAC over SHA-256: counter, feedback and double-pipeline
  mode of SP 800-108.
\<close>

abbreviation kbkdf_prf :: "bytes \<Rightarrow> bytes \<Rightarrow> bytes" where
  "kbkdf_prf \<equiv> hmac_spec fips_sha256 64"

abbreviation kbkdf_cbs where
  "kbkdf_cbs c ks \<equiv> hmac_callbacks (hmac_context MBCRYPT_HASH_TYPE_SHA256 (sha256_callbacks c) ks)"

lemma kbkdf_cbs_set:
  "hmac_init (kbkdf_cbs c ks) \<noteq> None" "hmac_update (kbkdf_cbs c ks) \<noteq> None"
  "hmac_final (kbkdf_cbs c ks) \<noteq> None"
  by (simp_all add: hmac_callbacks_def)

lemma length_kbkdf_prf: "length (kbkdf_prf k m) = 32"
  using prf_api.length_P [OF hmac_sha256.hmac.prf_api_axioms] by (simp add: get_hash_block_size_by_hash_type_def)

lemma kbkdf_counter_call:
  assumes "length ks = 128" and "unat kl \<le> length ki" and "unat fl \<le> length fi"
    and "ctr_rlen opts \<le> 4" and "sint (ctr_rpos opts) = 8 * int p" and "p \<le> unat fl"
    and "kbkdf_nbytes (unat L) \<le> length out"
  shows "\<exists>cbs'. mbcrypt_kbkdf_counter MBCRYPT_HASH_TYPE_SHA256 (kbkdf_cbs c ks) ki kl fi fl out L opts =
    Some (MBCRYPT_STATUS_OK, cbs', kbkdf_key (kbkdf_counter_K kbkdf_prf (take (unat kl) ki)
      (take (unat fl) fi) p (unat (ctr_rlen opts))) 32 (unat L) @ drop (kbkdf_nbytes (unat L)) out)"
proof -
  have "unat fl + unat (ctr_rlen opts) + 64 < 2305843009213693952"
    using unat_u32_lt [of fl] unat_u32_lt [of "ctr_rlen opts"] by linarith
  then show ?thesis
    using prf_api.counter_key [OF hmac_sha256.hmac.prf_api_axioms, of MBCRYPT_HASH_TYPE_SHA256
        "kbkdf_cbs c ks" kl ki fl fi opts p L out] sha256_context_ready [OF assms(1), of c]
      assms unat_u32_lt [of kl]
    by (simp add: get_hash_block_size_by_hash_type_def)
qed

lemma length_kbkdf_chain:
  "length (kbkdf_feedback_K kbkdf_prf k iv ins i) \<le> max 32 (length iv)"
  "length (kbkdf_double_A kbkdf_prf k fixd i) \<le> max 32 (length fixd)"
  by (cases i; simp add: length_kbkdf_prf)+

lemma kbkdf_feedback_call:
  assumes "length ks = 128" and "unat kl \<le> length ki" and "unat il \<le> length iv" and "unat fl \<le> length fi"
    and "kbkdf_pos_ok opts fl" and "kbkdf_nbytes (unat L) \<le> length out"
  shows "\<exists>cbs'. mbcrypt_kbkdf_feedback MBCRYPT_HASH_TYPE_SHA256 (kbkdf_cbs c ks) ki kl iv il fi fl out L opts =
    Some (MBCRYPT_STATUS_OK, cbs', kbkdf_key (kbkdf_feedback_K kbkdf_prf (take (unat kl) ki)
      (take (unat il) iv) (kbkdf_ins (sint (ctr_rpos opts)) (unat (ctr_rlen opts)) (take (unat fl) fi)))
      32 (unat L) @ drop (kbkdf_nbytes (unat L)) out)"
proof -
  let ?ins = "kbkdf_ins (sint (ctr_rpos opts)) (unat (ctr_rlen opts)) (take (unat fl) fi)"
  let ?K = "kbkdf_feedback_K kbkdf_prf (take (unat kl) ki) (take (unat il) iv) ?ins"
  have ok: "64 + length (?ins (Suc i) (?K i)) < 2305843009213693952" for i
  proof -
    have "length (?K i) \<le> max 32 (length (take (unat il) iv))" by (rule length_kbkdf_chain)
    then have "length (?K i) \<le> 4294967296" using unat_u32_lt [of il] by auto
    then show ?thesis
      using unat_u32_lt [of fl] unat_u32_lt [of "ctr_rlen opts"] by (simp add: length_kbkdf_ins)
  qed
  show ?thesis
    using prf_api.feedback_key [OF hmac_sha256.hmac.prf_api_axioms, of MBCRYPT_HASH_TYPE_SHA256
        "kbkdf_cbs c ks" kl ki fl fi opts il iv L out] sha256_context_ready [OF assms(1), of c]
      assms unat_u32_lt [of kl] ok
    by (simp add: get_hash_block_size_by_hash_type_def)
qed

lemma kbkdf_double_call:
  assumes "length ks = 128" and "unat kl \<le> length ki" and "unat fl \<le> length fi"
    and "kbkdf_pos_ok opts fl" and "kbkdf_nbytes (unat L) \<le> length out"
  defines "K \<equiv> kbkdf_double_K kbkdf_prf (take (unat kl) ki) (take (unat fl) fi)
      (max 0 (sint (ctr_rpos opts))) (unat (ctr_rlen opts))" and "n \<equiv> kbkdf_nbytes (unat L)"
  shows "\<exists>cbs'. mbcrypt_kbkdf_double_pipeline MBCRYPT_HASH_TYPE_SHA256 (kbkdf_cbs c ks) ki kl fi fl out L opts =
    Some (MBCRYPT_STATUS_OK, cbs',
      if n mod 32 = 0 then kbkdf_key K 32 (unat L) @ drop n out
      else kbkdf_blocks K (n div 32) @ drop (n div 32 * 32) out)"
proof -
  let ?A = "kbkdf_double_A kbkdf_prf (take (unat kl) ki) (take (unat fl) fi)"
  let ?ins = "kbkdf_ins (max 0 (sint (ctr_rpos opts))) (unat (ctr_rlen opts)) (take (unat fl) fi)"
  have lA: "length (?A i) \<le> 4294967296" for i
    using length_kbkdf_chain(2) [of "take (unat kl) ki" "take (unat fl) fi" i] unat_u32_lt [of fl] by auto
  then have ok: "64 + length (?A i) < 2305843009213693952" for i
    using order.strict_trans1 [of "64 + length (?A i)" "64 + 4294967296"] by simp
  have ok2: "64 + length (?ins (Suc i) (?A (Suc i))) < 2305843009213693952" for i
    using lA [of "Suc i"] unat_u32_lt [of fl] unat_u32_lt [of "ctr_rlen opts"]
    by (simp add: length_kbkdf_ins)
  have B: "unat (get_hash_block_size_by_hash_type MBCRYPT_HASH_TYPE_SHA256) = 64"
    by (simp add: get_hash_block_size_by_hash_type_def)
  show ?thesis
    unfolding K_def n_def
    by (rule prf_api.double_key [OF hmac_sha256.hmac.prf_api_axioms, unfolded B])
      (use sha256_context_ready [OF assms(1), of c] assms(2-5) unat_u32_lt [of kl] ok ok2 in simp_all)
qed

lemma kbkdf_key_spec_32:
  assumes "\<forall>i. length (K i) = 32" and "L mod 8 \<noteq> 1"
  shows "kbkdf_key K 32 L @ drop (kbkdf_nbytes L) out =
    leftmost_bits L (kbkdf_blocks K (sp800_108_blocks 32 L)) @ drop ((L + 7) div 8) out"
  using kbkdf_key_spec [OF assms(1) _ assms(2), of out] by simp

text \<open>
  C15. Counter mode is right: whenever SP 800-108 gives a key of \<open>L\<close> bits, that is, the counter of
  \<open>ctr_rlen\<close> bytes can count the blocks, \<open>kbkdf\<close> over HMAC-SHA-256 returns \<open>MBCRYPT_STATUS_OK\<close> and
  writes that key. The position of the counter is at a whole byte of the fixed input or at its end,
  the counter has at most four bytes, and \<open>L mod 8 \<noteq> 1\<close>.
\<close>

theorem kbkdf_counter_hmac_sha256:
  assumes "length ks = 128" and "unat kl \<le> length ki" and "unat fl \<le> length fi"
    and "ctr_rlen opts \<le> 4" and "sint (ctr_rpos opts) = 8 * int p" and "p \<le> unat fl"
    and "unat L mod 8 \<noteq> 1" and "(unat L + 7) div 8 \<le> length out"
    and "sp800_108_counter_mode (hmac_spec fips_sha256 64) 32 (take (unat kl) ki) (take (unat fl) fi) p
      (unat (ctr_rlen opts)) (unat L) = Some dk"
  shows "\<exists>cbs'. kbkdf (kbkdf_mode_code MBCRYPT_KBKDF_MODE_COUNTER) MBCRYPT_HASH_TYPE_SHA256
      (Some (hmac_callbacks (hmac_context MBCRYPT_HASH_TYPE_SHA256 (sha256_callbacks c) ks)))
      (Some ki) kl (Some iv) il (Some fi) fl (Some out) L (Some opts) =
    Some (MBCRYPT_STATUS_OK, Some cbs', Some (dk @ drop ((unat L + 7) div 8) out))"
proof -
  let ?K = "kbkdf_counter_K kbkdf_prf (take (unat kl) ki) (take (unat fl) fi) p (unat (ctr_rlen opts))"
  have K: "\<forall>i. length (?K i) = 32" by (simp add: kbkdf_counter_K_def length_kbkdf_prf)
  have dk: "dk = leftmost_bits (unat L) (kbkdf_blocks ?K (sp800_108_blocks 32 (unat L)))"
    using assms(9) by (simp add: sp800_108_counter_mode_def Let_def split: if_splits)
  have "kbkdf_nbytes (unat L) \<le> length out" using kbkdf_nbytes_ceiling [OF assms(7)] assms(8) by simp
  from kbkdf_counter_call [OF assms(1-6) this, of c] show ?thesis
    unfolding kbkdf_key_spec_32 [OF K assms(7)] dk
    by (auto simp: kbkdf_calls [OF kbkdf_cbs_set])
qed

theorem kbkdf_counter_hmac_sha256_witness:
  "\<exists>cbs'. kbkdf (kbkdf_mode_code MBCRYPT_KBKDF_MODE_COUNTER) MBCRYPT_HASH_TYPE_SHA256
      (Some (hmac_callbacks (hmac_context MBCRYPT_HASH_TYPE_SHA256 (sha256_callbacks sha256_any_ctx)
        (replicate 128 0))))
      (Some [1, 2, 3]) 3 (Some []) 0 (Some [4, 5]) 2 (Some (replicate 80 0)) 516
      (Some \<lparr>ctr_rlen = 1, ctr_rpos = 8\<rparr>) =
    Some (MBCRYPT_STATUS_OK, Some cbs', Some (leftmost_bits 516
      (kbkdf_blocks (kbkdf_counter_K (hmac_spec fips_sha256 64) [1, 2, 3] [4, 5] 1 1) 3) @ replicate 15 0))"
  using kbkdf_counter_hmac_sha256 [of "replicate 128 0" 3 "[1, 2, 3]" 2 "[4, 5]"
      "\<lparr>ctr_rlen = 1, ctr_rpos = 8\<rparr>" 1 516 "replicate 80 0" _ sha256_any_ctx "[]" 0]
  by (simp add: sp800_108_counter_mode_def sp800_108_blocks_def)

text \<open>
  C16. Feedback mode is right: whenever SP 800-108 gives a key of \<open>L\<close> bits, \<open>kbkdf\<close> over
  HMAC-SHA-256 returns \<open>MBCRYPT_STATUS_OK\<close> and writes it, each block computed from the one before and
  the first from the initial vector. The fixed input is not empty, the counter has at most four bytes
  and is before everything, before the fixed input or at a whole byte strictly inside it, but not at
  the position whose number of bits is the length of the fixed input in bytes; and \<open>L mod 8 \<noteq> 1\<close>.
\<close>

theorem kbkdf_feedback_hmac_sha256:
  assumes "length ks = 128" and "unat kl \<le> length ki" and "unat il \<le> length iv" and "unat fl \<le> length fi"
    and "kbkdf_pos_ok opts fl" and "unat L mod 8 \<noteq> 1" and "(unat L + 7) div 8 \<le> length out"
    and "sp800_108_chained 32 (unat (ctr_rlen opts))
      (kbkdf_feedback_K (hmac_spec fips_sha256 64) (take (unat kl) ki) (take (unat il) iv)
        (kbkdf_ins (sint (ctr_rpos opts)) (unat (ctr_rlen opts)) (take (unat fl) fi))) (unat L) = Some dk"
  shows "\<exists>cbs'. kbkdf (kbkdf_mode_code MBCRYPT_KBKDF_MODE_FEEDBACK) MBCRYPT_HASH_TYPE_SHA256
      (Some (hmac_callbacks (hmac_context MBCRYPT_HASH_TYPE_SHA256 (sha256_callbacks c) ks)))
      (Some ki) kl (Some iv) il (Some fi) fl (Some out) L (Some opts) =
    Some (MBCRYPT_STATUS_OK, Some cbs', Some (dk @ drop ((unat L + 7) div 8) out))"
proof -
  let ?ins = "kbkdf_ins (sint (ctr_rpos opts)) (unat (ctr_rlen opts)) (take (unat fl) fi)"
  let ?K0 = "kbkdf_feedback_K kbkdf_prf (take (unat kl) ki) (take (unat il) iv) ?ins"
  define K where "K = (\<lambda>i. kbkdf_prf (take (unat kl) ki) (?ins i (?K0 (i - 1))))"
  have KS: "?K0 (Suc i) = K (Suc i)" for i by (simp add: K_def)
  have bl: "kbkdf_blocks ?K0 j = kbkdf_blocks K j" for j
    by (induction j) (simp_all only: kbkdf_blocks_Suc KS, simp add: kbkdf_blocks_def)
  have key: "kbkdf_key ?K0 32 (unat L) = kbkdf_key K 32 (unat L)" unfolding kbkdf_key_def bl ..
  have K: "\<forall>i. length (K i) = 32" by (simp add: K_def length_kbkdf_prf)
  have dk: "dk = leftmost_bits (unat L) (kbkdf_blocks K (sp800_108_blocks 32 (unat L)))"
    using assms(8) by (simp add: sp800_108_chained_def bl Let_def split: if_splits)
  have "kbkdf_nbytes (unat L) \<le> length out" using kbkdf_nbytes_ceiling [OF assms(6)] assms(7) by simp
  from kbkdf_feedback_call [OF assms(1-5) this, of c] show ?thesis
    unfolding key kbkdf_key_spec_32 [OF K assms(6)] dk
    by (auto simp: kbkdf_calls [OF kbkdf_cbs_set])
qed

theorem kbkdf_feedback_hmac_sha256_witness:
  "\<exists>cbs'. kbkdf (kbkdf_mode_code MBCRYPT_KBKDF_MODE_FEEDBACK) MBCRYPT_HASH_TYPE_SHA256
      (Some (hmac_callbacks (hmac_context MBCRYPT_HASH_TYPE_SHA256 (sha256_callbacks sha256_any_ctx)
        (replicate 128 0))))
      (Some [1, 2, 3]) 3 (Some [7, 8]) 2 (Some [4, 5]) 2 (Some (replicate 80 0)) 516
      (Some \<lparr>ctr_rlen = 4, ctr_rpos = 8\<rparr>) =
    Some (MBCRYPT_STATUS_OK, Some cbs', Some (leftmost_bits 516
      (kbkdf_blocks (kbkdf_feedback_K (hmac_spec fips_sha256 64) [1, 2, 3] [7, 8] (kbkdf_ins 8 4 [4, 5])) 3)
      @ replicate 15 0))"
proof -
  have "kbkdf_pos_ok \<lparr>ctr_rlen = 4, ctr_rpos = 8\<rparr> 2"
    by (auto simp: kbkdf_pos_ok_def intro!: exI [of _ 1])
  then show ?thesis
    using kbkdf_feedback_hmac_sha256 [of "replicate 128 0" 3 "[1, 2, 3]" 2 "[7, 8]" 2 "[4, 5]"
        "\<lparr>ctr_rlen = 4, ctr_rpos = 8\<rparr>" 516 "replicate 80 0" _ sha256_any_ctx]
    by (simp add: sp800_108_chained_def sp800_108_blocks_def)
qed

text \<open>The whole blocks at the front of a key of \<open>n\<close> bytes.\<close>

lemma whole_blocks_of_key:
  assumes K: "\<forall>i. length (K i) = 32" and L: "L mod 8 \<noteq> 1"
  defines "n \<equiv> (L + 7) div 8"
  shows "(if n mod 32 = 0 then kbkdf_key K 32 L @ drop n out
      else kbkdf_blocks K (n div 32) @ drop (n div 32 * 32) out) =
    take (n div 32 * 32) (leftmost_bits L (kbkdf_blocks K (sp800_108_blocks 32 L)))
      @ drop (n div 32 * 32) out"
proof -
  let ?b = "kbkdf_blocks K (sp800_108_blocks 32 L)"
  have n: "kbkdf_nbytes L = n" using kbkdf_nbytes_ceiling [OF L] by (simp add: n_def)
  have bl: "(n + 32 - 1) div 32 = sp800_108_blocks 32 L"
    using kbkdf_blocks_ceiling [OF _ L, of 32] n by (simp add: sp800_108_blocks_def)
  have q: "n div 32 \<le> sp800_108_blocks 32 L" unfolding bl [symmetric] by (rule div_le_mono) simp
  have key: "kbkdf_key K 32 L = leftmost_bits L ?b"
    using kbkdf_key_leftmost [OF K _ L] unfolding n bl by simp
  show ?thesis
  proof (cases "n mod 32 = 0")
    case True
    then have q32: "n div 32 * 32 = n" by (simp add: mod_0_imp_dvd)
    have "length (kbkdf_key K 32 L) \<le> n" by (simp add: kbkdf_key_def n Let_def)
    then show ?thesis using True q32 by (simp add: key)
  next
    case False
    then have "n div 32 * 32 < n" using div_mult_mod_eq [of n 32] by linarith
    moreover have "n \<le> Suc (L div 8)" unfolding n [symmetric] by (simp add: kbkdf_nbytes_def)
    ultimately have le: "n div 32 * 32 \<le> L div 8" by linarith
    have "L div 8 \<le> length ?b"
    proof -
      have "n \<le> sp800_108_blocks 32 L * 32" unfolding bl [symmetric] by linarith
      then show ?thesis using n length_kbkdf_blocks [OF K] unfolding kbkdf_nbytes_def by (auto split: if_splits)
    qed
    with le have "take (n div 32 * 32) (leftmost_bits L ?b) = take (n div 32 * 32) ?b"
      by (simp add: leftmost_bits_def min_absorb2)
    then show ?thesis using False take_kbkdf_blocks [OF K q] by simp
  qed
qed

text \<open>
  C17. Double-pipeline mode derives the key of SP 800-108 only as far as it fills whole blocks:
  whenever the standard gives a key of \<open>L\<close> bits, \<open>kbkdf\<close> over HMAC-SHA-256 returns
  \<open>MBCRYPT_STATUS_OK\<close> and writes the leading whole 32-byte blocks of that key; the rest of the
  output, where the last incomplete block of the key belongs, stays as it was, because the jump that
  ends the branch for the last block comes too early. The fixed input is not empty, the counter has at
  most four bytes and is before the fixed input or at a whole byte strictly inside it, but not at the
  position whose number of bits is the length of the fixed input in bytes; and \<open>L mod 8 \<noteq> 1\<close>.
\<close>

theorem kbkdf_double_hmac_sha256:
  assumes "length ks = 128" and "unat kl \<le> length ki" and "unat fl \<le> length fi"
    and "kbkdf_pos_ok opts fl" and "0 \<le> sint (ctr_rpos opts)" and "unat L mod 8 \<noteq> 1"
    and "(unat L + 7) div 8 \<le> length out"
    and "sp800_108_chained 32 (unat (ctr_rlen opts))
      (kbkdf_double_K (hmac_spec fips_sha256 64) (take (unat kl) ki) (take (unat fl) fi)
        (sint (ctr_rpos opts)) (unat (ctr_rlen opts))) (unat L) = Some dk"
  defines "whole \<equiv> (unat L + 7) div 8 div 32 * 32"
  shows "\<exists>cbs'. kbkdf (kbkdf_mode_code MBCRYPT_KBKDF_MODE_DOUBLE_PIPELINE) MBCRYPT_HASH_TYPE_SHA256
      (Some (hmac_callbacks (hmac_context MBCRYPT_HASH_TYPE_SHA256 (sha256_callbacks c) ks)))
      (Some ki) kl (Some iv) il (Some fi) fl (Some out) L (Some opts) =
    Some (MBCRYPT_STATUS_OK, Some cbs', Some (take whole dk @ drop whole out))"
proof -
  let ?K = "kbkdf_double_K kbkdf_prf (take (unat kl) ki) (take (unat fl) fi) (sint (ctr_rpos opts))
    (unat (ctr_rlen opts))"
  have n: "kbkdf_nbytes (unat L) = (unat L + 7) div 8" by (rule kbkdf_nbytes_ceiling [OF assms(6)])
  have K: "\<forall>i. length (?K i) = 32" by (simp add: kbkdf_double_K_def length_kbkdf_prf)
  have dk: "dk = leftmost_bits (unat L) (kbkdf_blocks ?K (sp800_108_blocks 32 (unat L)))"
    using assms(8) by (simp add: sp800_108_chained_def Let_def split: if_splits)
  have pos: "max 0 (sint (ctr_rpos opts)) = sint (ctr_rpos opts)" using assms(5) by simp
  show ?thesis
    using kbkdf_double_call [OF assms(1-4), of L out c] assms(7)
    unfolding n pos whole_blocks_of_key [OF K assms(6)] whole_def dk
    by (auto simp: kbkdf_calls [OF kbkdf_cbs_set])
qed

theorem kbkdf_double_hmac_sha256_witness:
  "\<exists>cbs'. kbkdf (kbkdf_mode_code MBCRYPT_KBKDF_MODE_DOUBLE_PIPELINE) MBCRYPT_HASH_TYPE_SHA256
      (Some (hmac_callbacks (hmac_context MBCRYPT_HASH_TYPE_SHA256 (sha256_callbacks sha256_any_ctx)
        (replicate 128 0))))
      (Some [1, 2, 3]) 3 (Some []) 0 (Some [4, 5]) 2 (Some (replicate 64 0)) 320
      (Some \<lparr>ctr_rlen = 4, ctr_rpos = 0\<rparr>) =
    Some (MBCRYPT_STATUS_OK, Some cbs', Some
      (take 32 (leftmost_bits 320
        (kbkdf_blocks (kbkdf_double_K (hmac_spec fips_sha256 64) [1, 2, 3] [4, 5] 0 4) 2)) @ replicate 32 0))"
proof -
  have "kbkdf_pos_ok \<lparr>ctr_rlen = 4, ctr_rpos = 0\<rparr> 2"
    by (simp add: kbkdf_pos_ok_def)
  then show ?thesis
    using kbkdf_double_hmac_sha256 [of "replicate 128 0" 3 "[1, 2, 3]" 2 "[4, 5]"
        "\<lparr>ctr_rlen = 4, ctr_rpos = 0\<rparr>" 320 "replicate 64 0" _ sha256_any_ctx]
    by (simp add: sp800_108_chained_def sp800_108_blocks_def)
qed



end
