(* ===== verification/Rc4.thy ===== *)
theory Rc4
  imports Prelude "HOL-Library.Multiset"
begin

text \<open>
  The stream cipher of \<open>src/rc4.c\<close>: the key schedule in both of its forms (one round per pass of
  the loop, and eight under \<open>RC4_MIN_SIZE\<close>), the skipped rounds and the keystream. The loop
  indices are natural numbers, \<open>j\<close> and \<open>k\<close> are the source's 32-bit words. The output buffer is
  separate from the data.
\<close>

subsection \<open>The code\<close>

text \<open>\<open>IS_POWER_OF_2 (ROUND)\<close> names an undefined macro, which the preprocessor reads as 0: the mask form is chosen.\<close>

definition ROUNDS :: u32 where
  "ROUNDS = 256"

definition rc4_MOD :: "u32 \<Rightarrow> u32" where
  "rc4_MOD x = x AND (ROUNDS - 1)"

definition swap8u :: "bytes \<Rightarrow> nat \<Rightarrow> nat \<Rightarrow> bytes ub" where
  "swap8u s a b = do {
     tmp \<leftarrow> rd s a;
     v \<leftarrow> rd s b;
     s \<leftarrow> wr s a v;
     wr s b tmp
   }"

text \<open>\<open>i % key_len\<close> is undefined for \<open>key_len = 0\<close>.\<close>

definition ONE_ROUND :: "bytes \<Rightarrow> u32 \<Rightarrow> bytes \<times> nat \<times> u32 \<Rightarrow> (bytes \<times> nat \<times> u32) ub" where
  "ONE_ROUND key key_len = (\<lambda>(s, i, j).
     if key_len = 0 then None else do {
       a \<leftarrow> rd s i;
       b \<leftarrow> rd key (unat (of_nat i mod key_len));
       let j = rc4_MOD (j + ucast a + ucast b);
       s \<leftarrow> swap8u s i (unat j);
       Some (s, i + 1, j)
     })"

fun rc4_rounds :: "nat \<Rightarrow> bytes \<Rightarrow> u32 \<Rightarrow> bytes \<times> nat \<times> u32 \<Rightarrow> (bytes \<times> nat \<times> u32) ub" where
  "rc4_rounds 0 key key_len st = Some st"
| "rc4_rounds (Suc n) key key_len st = do {
     st \<leftarrow> ONE_ROUND key key_len st;
     rc4_rounds n key key_len st
   }"

text \<open>The body of the schedule's loop; \<open>rc4_min_size\<close> says whether \<open>RC4_MIN_SIZE\<close> is defined.\<close>

definition rc4_unroll :: "bool \<Rightarrow> nat" where
  "rc4_unroll rc4_min_size = (if rc4_min_size then 2 + 2 + 4 else 1)"

function ksa_loop :: "bool \<Rightarrow> bytes \<Rightarrow> u32 \<Rightarrow> bytes \<Rightarrow> nat \<Rightarrow> u32 \<Rightarrow> bytes ub" where
  "ksa_loop rc4_min_size key key_len s i j =
     (if i < unat ROUNDS then do {
        (s, _, j) \<leftarrow> rc4_rounds (rc4_unroll rc4_min_size) key key_len (s, i, j);
        ksa_loop rc4_min_size key key_len s (i + rc4_unroll rc4_min_size) j
      } else Some s)"
  by pat_completeness auto
termination
  by (relation "measure (\<lambda>(_, _, _, _, i, _). unat ROUNDS - i)") (auto simp: rc4_unroll_def)

declare ksa_loop.simps [simp del]

fun ksa_fill :: "bytes \<Rightarrow> nat \<Rightarrow> nat \<Rightarrow> bytes ub" where
  "ksa_fill s i 0 = Some s"
| "ksa_fill s i (Suc n) = do {
     s \<leftarrow> wr s i (of_nat i);
     ksa_fill s (i + 1) n
   }"

definition ksa :: "bool \<Rightarrow> bytes \<Rightarrow> u32 \<Rightarrow> bytes \<Rightarrow> bytes ub" where
  "ksa rc4_min_size key key_len s = do {
     s \<leftarrow> ksa_fill s 0 (unat ROUNDS);
     ksa_loop rc4_min_size key key_len s 0 0
   }"

text \<open>The three lines that both loops of \<open>rc4\<close> start with.\<close>

definition rc4_step :: "bytes \<times> u32 \<times> u32 \<Rightarrow> (bytes \<times> u32 \<times> u32) ub" where
  "rc4_step = (\<lambda>(s, k, j). do {
     let k = rc4_MOD (k + 1);
     v \<leftarrow> rd s (unat k);
     let j = rc4_MOD (j + ucast v);
     s \<leftarrow> swap8u s (unat k) (unat j);
     Some (s, k, j)
   })"

fun rc4_skip :: "nat \<Rightarrow> bytes \<times> u32 \<times> u32 \<Rightarrow> (bytes \<times> u32 \<times> u32) ub" where
  "rc4_skip 0 st = Some st"
| "rc4_skip (Suc n) st = do {
     st \<leftarrow> rc4_step st;
     rc4_skip n st
   }"

fun rc4_data :: "bytes \<Rightarrow> nat \<Rightarrow> nat \<Rightarrow> bytes \<Rightarrow> bytes \<times> u32 \<times> u32 \<Rightarrow> bytes ub" where
  "rc4_data data i 0 out st = Some out"
| "rc4_data data i (Suc n) out st = do {
     (s, k, j) \<leftarrow> rc4_step st;
     a \<leftarrow> rd s (unat k);
     b \<leftarrow> rd s (unat j);
     t \<leftarrow> rd s (unat (rc4_MOD (ucast a + ucast b)));
     d \<leftarrow> rd data i;
     out \<leftarrow> wr out i (ucast ((ucast t :: u32) XOR ucast d));
     rc4_data data (i + 1) n out (s, k, j)
   }"

definition rc4 :: "bool \<Rightarrow> bytes \<Rightarrow> u32 \<Rightarrow> bytes \<Rightarrow> u32 \<Rightarrow> bytes \<Rightarrow> u32 \<Rightarrow> bytes ub" where
  "rc4 rc4_min_size key key_len data data_len out skip = do {
     s \<leftarrow> ksa rc4_min_size key key_len (replicate 256 0);
     st \<leftarrow> rc4_skip (unat skip) (s, 0, 0);
     rc4_data data 0 (unat data_len) out st
   }"

subsection \<open>The specification\<close>

text \<open>
  The cipher over bytes with arithmetic modulo 256: the permutation after \<open>n\<close> rounds of the key
  schedule, the state after \<open>n\<close> steps of the generator, and byte \<open>n\<close> of the keystream.
\<close>

definition swap_list :: "'a list \<Rightarrow> nat \<Rightarrow> nat \<Rightarrow> 'a list" where
  "swap_list s a b = s[a := s ! b, b := s ! a]"

fun rc4_schedule :: "bytes \<Rightarrow> nat \<Rightarrow> bytes \<times> u8" where
  "rc4_schedule key 0 = (map of_nat [0..<256], 0)"
| "rc4_schedule key (Suc i) =
     (let (s, j) = rc4_schedule key i; j' = j + s ! i + key ! (i mod length key)
      in (swap_list s i (unat j'), j'))"

fun rc4_state :: "bytes \<Rightarrow> nat \<Rightarrow> bytes \<times> u8 \<times> u8" where
  "rc4_state key 0 = (fst (rc4_schedule key 256), 0, 0)"
| "rc4_state key (Suc n) =
     (let (s, k, j) = rc4_state key n; k' = k + 1; j' = j + s ! unat k'
      in (swap_list s (unat k') (unat j'), k', j'))"

definition rc4_stream :: "bytes \<Rightarrow> nat \<Rightarrow> u8" where
  "rc4_stream key n = (let (s, k, j) = rc4_state key (Suc n) in s ! unat (s ! unat k + s ! unat j))"

definition rc4_spec :: "bytes \<Rightarrow> nat \<Rightarrow> bytes \<Rightarrow> bytes" where
  "rc4_spec key skip data = map2 (XOR) data (map (\<lambda>i. rc4_stream key (skip + i)) [0..<length data])"

subsection \<open>The state is a permutation\<close>

lemma length_swap_list [simp]: "length (swap_list s a b) = length s"
  by (simp add: swap_list_def)

lemma mset_swap_list: "a < length s \<Longrightarrow> b < length s \<Longrightarrow> mset (swap_list s a b) = mset s"
  by (simp add: swap_list_def mset_swap)

lemma unat_u8_lt: "unat (x :: u8) < 256"
  using unsigned_less [of x] by simp

lemma schedule_perm:
  "n \<le> 256 \<Longrightarrow> length (fst (rc4_schedule key n)) = 256
    \<and> mset (fst (rc4_schedule key n)) = mset (map of_nat [0..<256])"
  by (induction n) (auto simp: case_prod_unfold Let_def mset_swap_list unat_u8_lt)

lemma state_perm:
  "length (fst (rc4_state key n)) = 256 \<and> mset (fst (rc4_state key n)) = mset (map of_nat [0..<256])"
  by (induction n) (auto simp: case_prod_unfold Let_def mset_swap_list unat_u8_lt schedule_perm)

subsection \<open>The code computes the specification\<close>

lemma MOD_ucast: "rc4_MOD x = ucast (ucast x :: u8)"
proof -
  have "rc4_MOD x = x AND mask 8" by (simp add: rc4_MOD_def ROUNDS_def mask_eq_exp_minus_1)
  then show ?thesis by (simp add: bit_eq_iff bit_simps) (auto dest: bit_imp_le_length)
qed

lemma ucast_down_add_u8: "(ucast (x + y :: u32) :: u8) = ucast x + ucast y"
proof -
  have "unat x + unat y - 4294967296 * ((unat x + unat y) div 4294967296) = (unat x + unat y) mod 4294967296"
    by (simp add: minus_mult_div_eq_mod)
  have "(unat x + unat y) mod 4294967296 mod 256 = (unat x + unat y) mod 256"
    by (rule mod_mod_cancel) simp
  then show ?thesis
    by (simp add: word_unat_eq_iff unsigned_ucast_eq take_bit_eq_mod unat_word_ariths mod_simps)
qed

lemma ucast_up_down_u8: "(ucast (ucast (b :: u8) :: u32) :: u8) = b"
  by (rule bit_word_eqI) (auto simp: bit_simps)

lemma unat_ucast_u8: "unat (ucast (b :: u8) :: u32) = unat b"
  using unat_u8_lt [of b] by (simp add: unsigned_ucast_eq take_bit_nat_eq_self)

lemma MOD_add:
  "rc4_MOD (ucast (a :: u8) + ucast (b :: u8)) = ucast (a + b)"
  "rc4_MOD (ucast (a :: u8) + ucast (b :: u8) + ucast (c :: u8)) = ucast (a + b + c)"
  "rc4_MOD (ucast (a :: u8) + 1) = ucast (a + 1)"
proof -
  have "ucast (1 :: u32) = (1 :: u8)" by simp
  then show "rc4_MOD (ucast a + 1) = ucast (a + 1)"
    unfolding MOD_ucast ucast_down_add_u8 ucast_up_down_u8 by simp
qed (simp_all only: MOD_ucast ucast_down_add_u8 ucast_up_down_u8)

lemma swap8u_eq: "a < length s \<Longrightarrow> b < length s \<Longrightarrow> swap8u s a b = Some (swap_list s a b)"
  by (simp add: swap8u_def swap_list_def mem_simps)

lemma ksa_fill_eq:
  "length p = i \<Longrightarrow> ksa_fill (p @ replicate n 0) i n = Some (p @ map of_nat [i..<i + n])"
proof (induction n arbitrary: p i)
  case (Suc n)
  then have "(p @ replicate (Suc n) 0)[i := of_nat i] = (p @ [of_nat i]) @ replicate n 0"
    by (simp add: list_update_append)
  then show ?case
    using Suc.IH [of "p @ [of_nat i]" "Suc i"] Suc.prems by (simp add: mem_simps upt_conv_Cons del: upt_Suc)
qed simp

text \<open>After \<open>i\<close> rounds, the array and \<open>j\<close> are those of the specification.\<close>

lemma ONE_ROUND_schedule:
  assumes "0 < unat n" and "unat n \<le> length key" and "i < 256"
    and "rc4_schedule (take (unat n) key) i = (s, j)"
    and "rc4_schedule (take (unat n) key) (Suc i) = (s', j')"
  shows "ONE_ROUND key n (s, i, ucast j) = Some (s', Suc i, ucast j')"
proof -
  let ?k = "take (unat n) key"
  have len: "length s = 256" using schedule_perm [of i ?k] assms(3,4) by simp
  have n0: "n \<noteq> 0" using assms(1) by auto
  have im: "unat (of_nat i mod n) = i mod unat n"
    using assms(3) by (simp add: unat_mod_distrib unat_of_nat)
  have "i mod unat n < unat n" using assms(1) by simp
  then have "key ! (i mod unat n) = ?k ! (i mod length ?k)" "i mod unat n < length key"
    using assms(2) by (simp_all add: min_absorb2)
  then show ?thesis
    using assms(3-5) len n0 im unat_u8_lt
    by (auto simp: ONE_ROUND_def mem_simps MOD_add swap8u_eq unat_ucast_u8 Let_def)
qed

lemma rounds_schedule:
  assumes "0 < unat n" and "unat n \<le> length key" and "i + m \<le> 256"
  shows "rc4_rounds m key n (fst (rc4_schedule (take (unat n) key) i), i,
      ucast (snd (rc4_schedule (take (unat n) key) i))) =
    Some (fst (rc4_schedule (take (unat n) key) (i + m)), i + m,
      ucast (snd (rc4_schedule (take (unat n) key) (i + m))))"
  using assms(3)
proof (induction m arbitrary: i)
  case (Suc m)
  let ?S = "rc4_schedule (take (unat n) key)"
  have "ONE_ROUND key n (fst (?S i), i, ucast (snd (?S i))) =
      Some (fst (?S (Suc i)), Suc i, ucast (snd (?S (Suc i))))"
    by (rule ONE_ROUND_schedule [OF assms(1,2)]) (use Suc.prems in simp_all)
  then show ?case using Suc.IH [of "Suc i"] Suc.prems by (simp del: rc4_schedule.simps)
qed simp

lemma ksa_loop_schedule:
  assumes "0 < unat n" and "unat n \<le> length key" and "i = rc4_unroll ms * q" and "i \<le> 256"
  shows "ksa_loop ms key n (fst (rc4_schedule (take (unat n) key) i)) i
      (ucast (snd (rc4_schedule (take (unat n) key) i))) =
    Some (fst (rc4_schedule (take (unat n) key) 256))"
  using assms(3,4)
proof (induction "256 - i" arbitrary: i q rule: less_induct)
  case less
  have R: "unat ROUNDS = 256" by (simp add: ROUNDS_def)
  show ?case
  proof (cases "i < 256")
    case True
    have le: "i + rc4_unroll ms \<le> 256" and u: "0 < rc4_unroll ms"
      using less.prems True by (auto simp: rc4_unroll_def split: if_splits)
    have "i + rc4_unroll ms = rc4_unroll ms * Suc q" using less.prems by simp
    then show ?thesis
      using less.hyps [of "i + rc4_unroll ms" "Suc q"] rounds_schedule [OF assms(1,2) le] True le u
      by (subst ksa_loop.simps) (simp add: R)
  next
    case False
    then have "i = 256" using less.prems by simp
    then show ?thesis by (subst ksa_loop.simps) (simp add: R)
  qed
qed

lemma ksa_schedule:
  assumes "0 < unat n" and "unat n \<le> length key"
  shows "ksa ms key n (replicate 256 0) = Some (fst (rc4_schedule (take (unat n) key) 256))"
proof -
  have R: "unat ROUNDS = 256" by (simp add: ROUNDS_def)
  have "ksa_fill (replicate 256 0) 0 256 = Some (map of_nat [0..<256])"
    using ksa_fill_eq [of "[]" 0 256] by simp
  then show ?thesis
    using ksa_loop_schedule [OF assms, of 0 ms 0] by (simp add: ksa_def R)
qed

lemma step_state:
  assumes "rc4_state key n = (s, k, j)" and "rc4_state key (Suc n) = (s', k', j')"
  shows "rc4_step (s, ucast k, ucast j) = Some (s', ucast k', ucast j')"
proof -
  have "length s = 256" using state_perm [of key n] assms(1) by simp
  then show ?thesis
    using assms unat_u8_lt
    by (auto simp: rc4_step_def mem_simps MOD_add swap8u_eq unat_ucast_u8 Let_def)
qed

definition rc4_at :: "bytes \<Rightarrow> nat \<Rightarrow> bytes \<times> u32 \<times> u32" where
  "rc4_at key n = (let (s, k, j) = rc4_state key n in (s, ucast k, ucast j))"

lemma step_at: "rc4_step (rc4_at key n) = Some (rc4_at key (Suc n))"
proof -
  obtain s k j s' k' j' where "rc4_state key n = (s, k, j)" "rc4_state key (Suc n) = (s', k', j')"
    using prod_cases3 by metis
  then show ?thesis
    using step_state [of key n s k j s' k' j'] by (simp add: rc4_at_def del: rc4_state.simps)
qed

lemma skip_at: "rc4_skip m (rc4_at key n) = Some (rc4_at key (n + m))"
  by (induction m arbitrary: n) (simp_all add: step_at)

lemma data_at:
  "i + m \<le> length data \<Longrightarrow> i + m \<le> length out \<Longrightarrow>
     rc4_data data i m out (rc4_at key n) = Some (take i out
       @ map (\<lambda>l. data ! (i + l) XOR rc4_stream key (n + l)) [0..<m] @ drop (i + m) out)"
proof (induction m arbitrary: i n out)
  case (Suc m)
  obtain s k j where S: "rc4_state key (Suc n) = (s, k, j)" by (cases "rc4_state key (Suc n)")
  have len: "length s = 256" using state_perm [of key "Suc n"] S by simp
  have at: "rc4_at key (Suc n) = (s, ucast k, ucast j)" using S by (simp add: rc4_at_def)
  have x: "(ucast ((ucast (t :: u8) :: u32) XOR ucast d) :: u8) = t XOR d" for t d
    by (rule bit_word_eqI) (auto simp: bit_simps)
  let ?v = "data ! i XOR rc4_stream key n"
  have t: "rc4_stream key n = s ! unat (s ! unat k + s ! unat j)" using S by (simp add: rc4_stream_def)
  have "rc4_data data i (Suc m) out (rc4_at key n) = rc4_data data (Suc i) m (out[i := ?v]) (rc4_at key (Suc n))"
    using len Suc.prems unat_u8_lt
    by (simp add: step_at at mem_simps unat_ucast_u8 MOD_add x t xor.commute)
  also have "\<dots> = Some (take (Suc i) (out[i := ?v])
       @ map (\<lambda>l. data ! (Suc i + l) XOR rc4_stream key (Suc n + l)) [0..<m]
       @ drop (Suc i + m) (out[i := ?v]))"
    by (rule Suc.IH) (use Suc.prems in simp_all)
  also have "take (Suc i) (out[i := ?v]) = take i out @ [?v]"
    using Suc.prems by (simp add: take_Suc_conv_app_nth)
  also have "drop (Suc i + m) (out[i := ?v]) = drop (i + Suc m) out" by simp
  finally show ?case by (simp add: map_upt_Suc del: upt_Suc)
qed simp

lemma rc4_eq:
  assumes "0 < unat kl" and "unat kl \<le> length key" and "unat n \<le> length data" and "unat n \<le> length out"
  shows "rc4 ms key kl data n out skip =
    Some (rc4_spec (take (unat kl) key) (unat skip) (take (unat n) data) @ drop (unat n) out)"
proof -
  let ?k = "take (unat kl) key"
  have "map (\<lambda>l. data ! l XOR rc4_stream ?k (unat skip + l)) [0..<unat n] =
      rc4_spec ?k (unat skip) (take (unat n) data)"
    by (rule nth_equalityI) (use assms(3) in \<open>simp_all add: rc4_spec_def min_absorb2\<close>)
  moreover have "rc4_at ?k 0 = (fst (rc4_schedule ?k 256), 0, 0)" by (simp add: rc4_at_def)
  ultimately show ?thesis
    using skip_at [of "unat skip" ?k 0] data_at [of 0 "unat n" data out ?k "unat skip"] assms
    by (simp add: rc4_def ksa_schedule)
qed

subsection \<open>Properties\<close>

text \<open>
  C18. \<open>rc4\<close> is the stream cipher: for every non-empty key, both forms of the key schedule lead to
  the data XORed with the keystream from byte \<open>skip\<close> on, in the first \<open>data_len\<close> bytes of the
  output; the rest of the output stays.
\<close>

theorem rc4_is_spec:
  assumes "key_len \<noteq> 0" and "unat key_len \<le> length key"
    and "unat data_len \<le> length data" and "unat data_len \<le> length out"
  shows "rc4 ms key key_len data data_len out skip =
    Some (rc4_spec (take (unat key_len) key) (unat skip) (take (unat data_len) data)
      @ drop (unat data_len) out)"
  by (rule rc4_eq) (use assms in \<open>simp_all add: unat_gt_0\<close>)

theorem rc4_is_spec_witness:
  "rc4 True [1, 2, 3] 3 [10, 20, 30] 2 [7, 7, 7, 7] 5 =
    Some (rc4_spec [1, 2, 3] 5 [10, 20] @ [7, 7])"
  using rc4_is_spec [of 3 "[1, 2, 3]" 2 "[10, 20, 30]" "[7, 7, 7, 7]" True 5] by simp

text \<open>
  C20. Decryption undoes encryption: \<open>rc4\<close> applied to its own output with the same key and the same
  number of skipped bytes gives the data back, also between builds that differ in \<open>RC4_MIN_SIZE\<close>.
\<close>

theorem rc4_round_trip:
  assumes "key_len \<noteq> 0" and "unat key_len \<le> length key"
    and "unat data_len \<le> length data" and "unat data_len \<le> length out" and "unat data_len \<le> length out'"
  shows "\<exists>c. rc4 ms key key_len data data_len out skip = Some c
    \<and> rc4 ms' key key_len c data_len out' skip =
        Some (take (unat data_len) data @ drop (unat data_len) out')"
proof -
  have k: "0 < unat key_len" using assms(1) by (simp add: unat_gt_0)
  let ?n = "unat data_len" and ?k = "take (unat key_len) key"
  let ?e = "rc4_spec ?k (unat skip) (take ?n data)"
  have le: "length ?e = ?n" using assms(3) by (simp add: rc4_spec_def min_absorb2)
  have "rc4_spec ?k (unat skip) ?e = take ?n data"
    by (rule nth_equalityI) (use assms(3) in \<open>simp_all add: rc4_spec_def min_absorb2 xor.assoc\<close>)
  then show ?thesis
    using rc4_eq [OF k assms(2,3,4), of ms skip] rc4_eq [OF k assms(2) _ assms(5), of "?e @ drop ?n out" ms' skip] le
    by simp
qed

theorem rc4_round_trip_witness:
  "\<exists>c. rc4 False [1, 2, 3] 3 [10, 20, 30] 3 [0, 0, 0] 256 = Some c
    \<and> rc4 True [1, 2, 3] 3 c 3 [0, 0, 0] 256 = Some [10, 20, 30]"
  using rc4_round_trip [of 3 "[1, 2, 3]" 3 "[10, 20, 30]" "[0, 0, 0]" "[0, 0, 0]" False 256 True] by simp

text \<open>
  C21. The state is a permutation: the array that \<open>ksa\<close> leaves, and the array after any number of
  generator steps on it, hold each byte value exactly once; no step reads or writes outside it.
\<close>

theorem rc4_state_permutation:
  assumes "key_len \<noteq> 0" and "unat key_len \<le> length key"
  shows "\<exists>s0 s k j. ksa ms key key_len (replicate 256 0) = Some s0
    \<and> rc4_skip n (s0, 0, 0) = Some (s, k, j)
    \<and> mset s0 = mset (map of_nat [0..<256]) \<and> mset s = mset (map of_nat [0..<256])"
proof -
  have k: "0 < unat key_len" using assms(1) by (simp add: unat_gt_0)
  let ?k = "take (unat key_len) key"
  have at: "rc4_at ?k 0 = (fst (rc4_schedule ?k 256), 0, 0)" by (simp add: rc4_at_def)
  obtain s k j where S: "rc4_state ?k n = (s, k, j)" by (cases "rc4_state ?k n")
  then have "rc4_skip n (fst (rc4_schedule ?k 256), 0, 0) = Some (s, ucast k, ucast j)"
    using skip_at [of n ?k 0] by (simp add: at rc4_at_def [of _ n])
  then show ?thesis
    using ksa_schedule [OF k assms(2)] schedule_perm [of 256 ?k] state_perm [of ?k n] S by simp
qed

theorem rc4_state_permutation_witness:
  "\<exists>s0 s k j. ksa True [1, 2, 3] 3 (replicate 256 0) = Some s0
    \<and> rc4_skip 1000 (s0, 0, 0) = Some (s, k, j)
    \<and> mset s0 = mset (map of_nat [0..<256]) \<and> mset s = mset (map of_nat [0..<256])"
  using rc4_state_permutation [of 3 "[1, 2, 3]" True 1000] by simp

end
