(* ===== verification/Drbg.thy ===== *)
theory Drbg
  imports Sha256
begin

text \<open>
  The random generator of \<open>src/drbg.c\<close>: a seed of 32 bytes that is hashed with SHA-256 and
  incremented at every call. The static array \<open>_seed\<close> is passed as a list; the arrays that the
  functions leave uninitialised are arguments. \<open>rand_bytes\<close> is not modelled: all it does is to call
  \<open>rand_bytes_ex\<close>, which stands under \<open>#ifdef www\<close>, a macro that nothing defines.
\<close>

subsection \<open>The code\<close>

definition BASE_SEED_SIZE :: u32 where
  "BASE_SEED_SIZE = 32"

text \<open>The loop of \<open>inc_seed\<close>: the byte is incremented before the test on the index.\<close>

function inc_seed_loop :: "bytes \<Rightarrow> nat \<Rightarrow> bytes ub" where
  "inc_seed_loop seed i = do {
     v \<leftarrow> rd seed i;
     seed \<leftarrow> wr seed i (v + 1);
     if v + 1 = 0 \<and> i < unat BASE_SEED_SIZE then inc_seed_loop seed (i + 1) else Some seed
   }"
  by pat_completeness auto
termination
  by (relation "measure (\<lambda>(_, i). unat BASE_SEED_SIZE - i)") auto

declare inc_seed_loop.simps [simp del]

definition inc_seed :: "bytes \<Rightarrow> bytes ub" where
  "inc_seed seed = inc_seed_loop seed 0"

text \<open>
  Byte \<open>i\<close> of the union over a word: in storage order, which is the low byte first on a machine
  that is \<open>machine_le\<close>. \<open>PLATFORM_LE\<close> is what the build says of the machine.
\<close>

definition u32_e_b :: "bool \<Rightarrow> u32 \<Rightarrow> nat \<Rightarrow> u8" where
  "u32_e_b machine_le dw i = (if machine_le then ucast (drop_bit (8 * i) dw)
     else ucast (drop_bit (8 * (3 - i)) dw))"

definition u32_e_bytes :: "bool \<Rightarrow> bool \<Rightarrow> u32 \<Rightarrow> bytes" where
  "u32_e_bytes PLATFORM_LE machine_le dw =
     (if PLATFORM_LE
      then [u32_e_b machine_le dw 0, u32_e_b machine_le dw 1, u32_e_b machine_le dw 2, u32_e_b machine_le dw 3]
      else [u32_e_b machine_le dw 3, u32_e_b machine_le dw 2, u32_e_b machine_le dw 1, u32_e_b machine_le dw 0])"

fun put4 :: "bytes \<Rightarrow> nat \<Rightarrow> bytes \<Rightarrow> bytes ub" where
  "put4 dst off [a, b, c, d] = do {
     dst \<leftarrow> wr dst (off + 0) a;
     dst \<leftarrow> wr dst (off + 1) b;
     dst \<leftarrow> wr dst (off + 2) c;
     wr dst (off + 3) d
   }"
| "put4 dst off bs = None"

fun srand_loop :: "bytes \<Rightarrow> nat \<Rightarrow> nat \<Rightarrow> bytes ub" where
  "srand_loop seed i 0 = Some seed"
| "srand_loop seed i (Suc n) = do {
     a \<leftarrow> rd seed (i - 1);
     b \<leftarrow> rd seed (i - 2);
     seed \<leftarrow> wr seed i (a + b);
     srand_loop seed (i + 1) n
   }"

definition srand :: "bool \<Rightarrow> bool \<Rightarrow> bytes \<Rightarrow> u32 \<Rightarrow> bytes ub" where
  "srand PLATFORM_LE machine_le seed s = do {
     seed \<leftarrow> put4 seed 0 (u32_e_bytes PLATFORM_LE machine_le s);
     srand_loop seed 4 (unat BASE_SEED_SIZE - 4)
   }"

definition srand_bytes :: "bytes \<Rightarrow> bytes \<Rightarrow> u32 \<Rightarrow> bytes ub" where
  "srand_bytes seed s seed_len =
     (let seed_len = (if BASE_SEED_SIZE < seed_len then BASE_SEED_SIZE else seed_len) in do {
        seed \<leftarrow> memcpy_at seed 0 s (unat seed_len);
        if seed_len < BASE_SEED_SIZE
        then memset_at seed 0 (ucast (BASE_SEED_SIZE - seed_len)) (unat (BASE_SEED_SIZE - seed_len))
        else Some seed
      })"

text \<open>
  The 32-bit result is shifted into place; where C leaves a shift into the sign bit undefined, the
  model has the two's complement result of the usual compilers.
\<close>

definition rand :: "sha256_ctx \<Rightarrow> bytes \<Rightarrow> bytes \<Rightarrow> (i32 \<times> bytes) ub" where
  "rand ctx0 hash0 seed = do {
     (_, hash) \<leftarrow> mbcrypt_sha256 ctx0 (Some seed) BASE_SEED_SIZE (Some hash0);
     hash \<leftarrow> hash;
     h0 \<leftarrow> rd hash 0;
     h1 \<leftarrow> rd hash 1;
     h2 \<leftarrow> rd hash 2;
     h3 \<leftarrow> rd hash 3;
     let res = push_bit 8 (0 OR ucast h0);
     let res = push_bit 8 (res OR ucast h1);
     let res = push_bit 8 (res OR ucast h2);
     let res = res OR ucast h3;
     seed \<leftarrow> inc_seed seed;
     Some (res, seed)
   }"

subsection \<open>The seed as a number\<close>

fun le_nat :: "bytes \<Rightarrow> nat" where
  "le_nat [] = 0"
| "le_nat (b # bs) = unat b + 256 * le_nat bs"

fun le_bytes :: "nat \<Rightarrow> nat \<Rightarrow> bytes" where
  "le_bytes 0 n = []"
| "le_bytes (Suc k) n = of_nat n # le_bytes k (n div 256)"

lemma length_le_bytes [simp]: "length (le_bytes k n) = k"
  by (induction k arbitrary: n) simp_all

lemma unat_u8_le: "unat (b :: u8) < 256"
  using unsigned_less [of b] by simp

lemma word_u8_256: "256 * (x :: u8) = 0"
proof -
  have "(256 :: u8) = 0" by simp
  then show ?thesis by (simp only: mult_zero_left)
qed

lemma le_bytes_le_nat: "le_bytes (length bs) (le_nat bs) = bs"
proof (induction bs)
  case (Cons b bs)
  have "(of_nat (unat b + 256 * le_nat bs) :: u8) = b"
    by (simp add: word_u8_256 del: mult_eq_0_iff)
  then show ?case using Cons unat_u8_le [of b] by simp
qed simp

lemma le_nat_le_bytes: "n < 256 ^ k \<Longrightarrow> le_nat (le_bytes k n) = n"
proof (induction k arbitrary: n)
  case (Suc k)
  then have "le_nat (le_bytes k (n div 256)) = n div 256"
    by (simp add: div_less_iff_less_mult ac_simps)
  then show ?case by (simp add: unat_of_nat)
qed simp

lemma le_nat_less: "le_nat bs < 256 ^ length bs"
proof (induction bs)
  case (Cons b bs)
  then have "le_nat bs + 1 \<le> 256 ^ length bs" by simp
  then have "256 * (le_nat bs + 1) \<le> 256 ^ length (b # bs)" by simp
  then show ?case using unat_u8_le [of b] by simp
qed simp

lemma inc_seed_loop_append:
  assumes "length p + length q = 32"
  shows "inc_seed_loop (p @ q) (length p) =
    (if le_nat q + 1 = 256 ^ length q then None else Some (p @ le_bytes (length q) (le_nat q + 1)))"
  using assms
proof (induction q arbitrary: p)
  case Nil
  then show ?case by (subst inc_seed_loop.simps) (simp add: rd_def)
next
  case (Cons b q)
  have B: "unat BASE_SEED_SIZE = 32" by (simp add: BASE_SEED_SIZE_def)
  have len: "length p < 32" using Cons.prems by simp
  show ?case
  proof (cases "b + 1 = 0")
    case True
    then have "b = - 1" by (simp add: eq_neg_iff_add_eq_0)
    then have "b = 255" by simp
    then have ub: "unat b = 255" by simp
    have o: "(of_nat (255 + 256 * n + 1) :: u8) = 0" for n
    proof -
      have "255 + 256 * n + 1 = 256 * (n + 1)" by simp
      then show ?thesis using word_u8_256 [of "of_nat (n + 1)"] by (simp only: of_nat_mult) simp
    qed
    have IH: "inc_seed_loop ((p @ [0]) @ q) (length (p @ [0])) =
        (if le_nat q + 1 = 256 ^ length q then None
         else Some ((p @ [0]) @ le_bytes (length q) (le_nat q + 1)))"
      by (rule Cons.IH) (use Cons.prems in simp)
    have d: "(255 + 256 * le_nat q + 1) div 256 = le_nat q + 1" by simp
    have "inc_seed_loop (p @ b # q) (length p) = inc_seed_loop ((p @ [0]) @ q) (length (p @ [0]))"
      using True len by (subst inc_seed_loop.simps) (simp add: mem_simps B)
    then show ?thesis unfolding IH
      using o [of "le_nat q"] d by (auto simp: ub)
  next
    case False
    have "unat b \<noteq> 255"
    proof
      assume "unat b = 255"
      then have "b = 255" by (simp add: word_unat_eq_iff)
      then show False using False by simp
    qed
    then have lt: "unat b + 1 < 256" using unat_u8_le [of b] by simp
    have ne: "unat b + 256 * le_nat q + 1 \<noteq> 256 ^ length (b # q)"
    proof
      assume "unat b + 256 * le_nat q + 1 = 256 ^ length (b # q)"
      then have "(unat b + 1 + 256 * le_nat q) mod 256 = 256 * 256 ^ length q mod 256" by simp
      then show False using lt by simp
    qed
    have "of_nat (unat b + 256 * le_nat q + 1) = b + 1"
      using lt by (simp add: word_unat_eq_iff unat_of_nat unat_word_ariths)
    moreover have "(unat b + 256 * le_nat q + 1) div 256 = le_nat q" using lt by simp
    ultimately show ?thesis
      using False len ne le_bytes_le_nat [of q]
      by (subst inc_seed_loop.simps) (simp add: mem_simps B)
  qed
qed

lemma inc_seed_eq:
  "length s = 32 \<Longrightarrow> inc_seed s =
     (if le_nat s + 1 = 256 ^ 32 then None else Some (le_bytes 32 (le_nat s + 1)))"
  using inc_seed_loop_append [of "[]" s] by (simp add: inc_seed_def)

subsection \<open>The generator in counter mode\<close>

lemma length_digest256: "length (fips_sha256 m) = 32"
  by (rule sha256.length_H)

text \<open>The number that the seed value \<open>n\<close> gives: the first four bytes of the digest.\<close>

definition drbg_out :: "nat \<Rightarrow> i32" where
  "drbg_out n = be_word (take 4 (fips_sha256 (le_bytes 32 n)))"

lemma rand_eq:
  assumes "length seed = 32" and "32 \<le> length hash0"
  shows "rand ctx0 hash0 seed = (if le_nat seed + 1 = 256 ^ 32 then None
    else Some (drbg_out (le_nat seed), le_bytes 32 (le_nat seed + 1)))"
proof -
  let ?h = "fips_sha256 seed @ drop 32 hash0"
  have sha: "mbcrypt_sha256 ctx0 (Some seed) BASE_SEED_SIZE (Some hash0) = Some (MBCRYPT_STATUS_OK, Some ?h)"
    using sha256.once_digest [of BASE_SEED_SIZE seed hash0 ctx0] assms
    by (simp add: mbcrypt_sha256_once BASE_SEED_SIZE_def)
  have seed: "le_bytes 32 (le_nat seed) = seed" using le_bytes_le_nat [of seed] assms(1) by simp
  have "take 4 (fips_sha256 seed) = [?h ! 0, ?h ! 1, ?h ! 2, ?h ! 3]"
    using take_drop_4 [of 0 "fips_sha256 seed"] by (simp add: length_digest256 nth_append numeral_2_eq_2)
  then have "drbg_out (le_nat seed) = be_word [?h ! 0, ?h ! 1, ?h ! 2, ?h ! 3]"
    by (simp add: drbg_out_def seed)
  moreover have "4 \<le> length ?h" by (simp add: length_digest256)
  ultimately show ?thesis
    using inc_seed_eq [OF assms(1)]
    by (simp add: rand_def sha mem_simps be_word_4 push_bit_or or.assoc Let_def del: nth_append)
qed

text \<open>\<open>n\<close> calls in a row.\<close>

fun rand_calls :: "('g \<Rightarrow> (i32 \<times> 'g) ub) \<Rightarrow> nat \<Rightarrow> 'g \<Rightarrow> (i32 list \<times> 'g) ub" where
  "rand_calls f 0 g = Some ([], g)"
| "rand_calls f (Suc n) g = do {
     (r, g) \<leftarrow> f g;
     (rs, g) \<leftarrow> rand_calls f n g;
     Some (r # rs, g)
   }"

lemma rand_calls_eq:
  assumes "32 \<le> length hash0" and "v + n < 256 ^ 32"
  shows "rand_calls (rand ctx0 hash0) n (le_bytes 32 v) =
    Some (map drbg_out [v..<v + n], le_bytes 32 (v + n))"
  using assms(2)
proof (induction n arbitrary: v)
  case (Suc n)
  then have "le_nat (le_bytes 32 v) = v" by (intro le_nat_le_bytes) simp
  moreover have "v + 1 \<noteq> 256 ^ 32" using Suc.prems by simp
  ultimately have "rand ctx0 hash0 (le_bytes 32 v) = Some (drbg_out v, le_bytes 32 (v + 1))"
    using rand_eq [OF _ assms(1), of "le_bytes 32 v" ctx0] by simp
  moreover have "rand_calls (rand ctx0 hash0) n (le_bytes 32 (v + 1)) =
      Some (map drbg_out [v + 1..<v + 1 + n], le_bytes 32 (v + 1 + n))"
    by (rule Suc.IH) (use Suc.prems in simp)
  moreover have "[v..<v + Suc n] = v # [v + 1..<v + 1 + n]" by (simp add: upt_conv_Cons del: upt_Suc)
  ultimately show ?case by (simp del: upt_Suc)
qed simp

subsection \<open>Seeding\<close>

lemma put4_eq: "off + 4 \<le> length dst \<Longrightarrow> length bs = 4 \<Longrightarrow>
    put4 dst off bs = Some (take off dst @ bs @ drop (off + 4) dst)"
proof -
  assume a: "off + 4 \<le> length dst" "length bs = 4"
  then obtain p q r s where bs: "bs = [p, q, r, s]"
    by (auto simp: numeral_eq_Suc length_Suc_conv)
  have "put4 dst off bs = Some (dst[off := p, off + 1 := q, off + 2 := r, off + 3 := s])"
    using a(1) by (simp add: bs mem_simps)
  then show ?thesis unfolding list_update_run_4 [OF a(1)] bs .
qed

text \<open>The bytes come out in little-endian order exactly if the build describes the machine.\<close>

definition word_bytes :: "bool \<Rightarrow> u32 \<Rightarrow> bytes" where
  "word_bytes le dw = (if le then rev (be_bytes 4 (unat dw)) else be_bytes 4 (unat dw))"

lemma length_word_bytes [simp]: "length (word_bytes le dw) = 4"
  by (simp add: word_bytes_def)

lemma u32_e_bytes_eq: "u32_e_bytes pl ml dw = word_bytes (pl = ml) dw"
  by (simp add: u32_e_bytes_def u32_e_b_def word_bytes_def be_bytes_4)

lemma word_bytes_inj: "word_bytes le x = word_bytes le y \<longleftrightarrow> x = y"
proof
  assume "word_bytes le x = word_bytes le y"
  then have "be_bytes 4 (unat x) = be_bytes 4 (unat y)" by (simp add: word_bytes_def split: if_splits)
  then have "be_word (be_bytes 4 (unat x)) = (be_word (be_bytes 4 (unat y)) :: u32)" by simp
  then show "x = y" by (simp only: be_word_be_bytes_4)
qed simp

text \<open>The sequence that fills the rest of the seed.\<close>

fun fib_fill :: "nat \<Rightarrow> bytes \<Rightarrow> bytes" where
  "fib_fill 0 bs = bs"
| "fib_fill (Suc n) bs = fib_fill n (bs @ [bs ! (length bs - 1) + bs ! (length bs - 2)])"

lemma srand_loop_eq:
  "2 \<le> length p \<Longrightarrow> length q = n \<Longrightarrow> srand_loop (p @ q) (length p) n = Some (fib_fill n p)"
proof (induction n arbitrary: p q)
  case (Suc n)
  then obtain b q' where q: "q = b # q'" "length q' = n" by (auto simp: length_Suc_conv)
  let ?v = "p ! (length p - 1) + p ! (length p - 2)"
  have "length p - 1 < length p" "length p - 2 < length p" using Suc.prems(1) by auto
  then have "srand_loop (p @ q) (length p) (Suc n) = srand_loop ((p @ [?v]) @ q') (length (p @ [?v])) n"
    using q by (simp add: mem_simps nth_append)
  then show ?case using Suc.IH [of "p @ [?v]" q'] Suc.prems(1) q(2) by simp
qed simp

lemma fib_fill_append: "\<exists>r. fib_fill n bs = bs @ r \<and> length r = n"
proof (induction n arbitrary: bs)
  case (Suc n)
  let ?v = "bs ! (length bs - 1) + bs ! (length bs - 2)"
  obtain r where "fib_fill n (bs @ [?v]) = (bs @ [?v]) @ r" "length r = n"
    using Suc.IH [of "bs @ [?v]"] by blast
  then show ?case by (intro exI [of _ "?v # r"]) simp
qed simp

lemma fib_fill_props:
  "take (length bs) (fib_fill n bs) = bs" "length (fib_fill n bs) = length bs + n"
  using fib_fill_append [of n bs] by auto

lemma fib_fill_nth:
  "length bs \<le> i \<Longrightarrow> i < length bs + n \<Longrightarrow> 2 \<le> length bs \<Longrightarrow>
     fib_fill n bs ! i = fib_fill n bs ! (i - 1) + fib_fill n bs ! (i - 2)"
proof (induction n arbitrary: bs)
  case (Suc n)
  let ?v = "bs ! (length bs - 1) + bs ! (length bs - 2)"
  let ?r = "fib_fill n (bs @ [?v])"
  have t: "take (Suc (length bs)) ?r = bs @ [?v]" using fib_fill_props(1) [of "bs @ [?v]" n] by simp
  have nth: "?r ! j = (bs @ [?v]) ! j" if "j \<le> length bs" for j
    using that arg_cong [OF t, of "\<lambda>l. l ! j"] by simp
  show ?case
  proof (cases "i = length bs")
    case True
    moreover have "length bs - 1 < length bs" "length bs - 2 < length bs" using Suc.prems(3) by auto
    ultimately show ?thesis using nth [of i] nth [of "i - 1"] nth [of "i - 2"]
      by (simp add: nth_append)
  next
    case False
    then show ?thesis using Suc.IH [of "bs @ [?v]"] Suc.prems by simp
  qed
qed simp

lemma srand_eq:
  assumes "length seed = 32"
  shows "srand pl ml seed s = Some (fib_fill 28 (word_bytes (pl = ml) s))"
proof -
  have "put4 seed 0 (u32_e_bytes pl ml s) = Some (word_bytes (pl = ml) s @ drop 4 seed)"
    using put4_eq [of 0 seed "u32_e_bytes pl ml s"] assms by (simp add: u32_e_bytes_eq)
  then show ?thesis
    using srand_loop_eq [of "word_bytes (pl = ml) s" "drop 4 seed" 28] assms
    by (simp add: srand_def BASE_SEED_SIZE_def)
qed

lemma srand_bytes_eq:
  assumes "length seed = 32" and "unat n \<le> length s" and "unat n < 32"
  shows "srand_bytes seed s n = Some (replicate (32 - unat n) (of_nat (32 - unat n))
    @ drop (32 - unat n) (take (unat n) s @ drop (unat n) seed))"
proof -
  have le: "n \<le> 32" "n < 32" using assms(3) by (simp_all add: word_le_nat_alt word_less_nat_alt)
  have u: "unat (32 - n) = 32 - unat n" using unat_sub_u32 [OF le(1)] by simp
  then have "(ucast (32 - n) :: u8) = of_nat (32 - unat n)"
    by (metis of_nat_unat)
  then show ?thesis
    using assms le u by (simp add: srand_bytes_def BASE_SEED_SIZE_def mem_simps Let_def not_less)
qed

subsection \<open>Properties\<close>

text \<open>
  C19. The generator is SHA-256 in counter mode: from a seed of value \<open>v\<close>, \<open>n\<close> calls of \<open>rand\<close>
  return the first four bytes of the digests of the seeds \<open>v, v + 1, \<dots>\<close> and leave the seed of
  value \<open>v + n\<close>, as long as this stays below \<open>2\<^sup>2\<^sup>5\<^sup>6\<close>.
\<close>

theorem drbg_counter_mode:
  assumes "length seed = 32" and "32 \<le> length hash0" and "le_nat seed + n < 256 ^ 32"
  shows "rand_calls (rand ctx0 hash0) n seed =
    Some (map drbg_out [le_nat seed..<le_nat seed + n], le_bytes 32 (le_nat seed + n))"
  using rand_calls_eq [OF assms(2,3), of ctx0] le_bytes_le_nat [of seed] assms(1) by simp

theorem drbg_counter_mode_witness:
  "rand_calls (rand sha256_any_ctx (replicate 32 1)) 3 (255 # replicate 31 0) =
    Some (map drbg_out [255, 256, 257], 2 # 1 # replicate 30 0)"
proof -
  have z: "le_nat (replicate n 0) = 0" for n by (induction n) simp_all
  then have v: "le_nat (255 # replicate 31 0) = 255" by simp
  have z2: "le_bytes n 0 = replicate n 0" for n by (induction n) simp_all
  have "le_bytes (Suc (Suc n)) 258 = 2 # 1 # replicate n 0" for n by (simp add: z2)
  from this [of 30] have "le_bytes 32 258 = 2 # 1 # replicate 30 0" by simp
  moreover have "[255..<258] = [255, 256, 257 :: nat]" by (simp add: upt_rec)
  ultimately show ?thesis
    using drbg_counter_mode [of "255 # replicate 31 0" "replicate 32 1" 3 sha256_any_ctx]
    unfolding v by simp
qed

text \<open>
  C38. \<open>rand\<close> leaves the seed array exactly when every byte of the seed is \<open>0xFF\<close>: the carry then
  increments \<open>_seed[32]\<close>, outside the array.
\<close>

theorem rand_overflows_iff:
  assumes "length seed = 32" and "32 \<le> length hash0"
  shows "rand ctx0 hash0 seed = None \<longleftrightarrow> seed = replicate 32 0xFF"
proof -
  have ff: "le_nat (replicate n 0xFF) + 1 = 256 ^ n" for n by (induction n) simp_all
  have "le_nat seed + 1 = 256 ^ 32 \<longleftrightarrow> le_nat seed = le_nat (replicate 32 0xFF)"
    using ff [of 32] by linarith
  also have "\<dots> \<longleftrightarrow> seed = replicate 32 0xFF"
    using le_bytes_le_nat [of seed] le_bytes_le_nat [of "replicate 32 0xFF"] assms(1)
    by (metis length_replicate)
  finally show ?thesis unfolding rand_eq [OF assms] by simp
qed

theorem rand_overflows_iff_witness:
  "rand sha256_any_ctx (replicate 32 0) (replicate 32 0xFF) = None"
  using rand_overflows_iff [of "replicate 32 0xFF" "replicate 32 0" sha256_any_ctx] by simp

text \<open>
  \<open>srand\<close> loses nothing of its argument: it fills the whole seed, the first four bytes are the
  argument's bytes, low byte first if \<open>PLATFORM_LE\<close> tells the truth about the machine, every
  other byte is the sum of the two before, and different arguments give different seeds.
\<close>

theorem srand_seeds:
  assumes "length seed = 32"
  shows "\<exists>s'. srand pl ml seed x = Some s' \<and> length s' = 32
    \<and> take 4 s' = (if pl = ml then rev (be_bytes 4 (unat x)) else be_bytes 4 (unat x))
    \<and> (\<forall>i \<in> {4..<32}. s' ! i = s' ! (i - 1) + s' ! (i - 2))
    \<and> (\<forall>y. srand pl ml seed y = Some s' \<longrightarrow> y = x)"
proof -
  let ?w = "word_bytes (pl = ml)"
  have t: "take 4 (fib_fill 28 (?w z)) = ?w z" for z using fib_fill_props(1) [of "?w z" 28] by simp
  have "y = x" if "fib_fill 28 (?w y) = fib_fill 28 (?w x)" for y
  proof -
    have "?w y = take 4 (fib_fill 28 (?w y))" by (rule t [symmetric])
    also have "\<dots> = ?w x" unfolding that by (rule t)
    finally have "?w y = ?w x" .
    then show ?thesis by (simp only: word_bytes_inj)
  qed
  moreover have "\<forall>i \<in> {4..<32}. fib_fill 28 (?w x) ! i = fib_fill 28 (?w x) ! (i - 1) + fib_fill 28 (?w x) ! (i - 2)"
  proof
    fix i :: nat assume "i \<in> {4..<32}"
    then show "fib_fill 28 (?w x) ! i = fib_fill 28 (?w x) ! (i - 1) + fib_fill 28 (?w x) ! (i - 2)"
      by (intro fib_fill_nth) simp_all
  qed
  moreover have "?w x = (if pl = ml then rev (be_bytes 4 (unat x)) else be_bytes 4 (unat x))"
    by (simp add: word_bytes_def)
  ultimately show ?thesis
    using t [of x] fib_fill_props(2) [of 28 "?w x"]
    by (intro exI [of _ "fib_fill 28 (?w x)"]) (simp add: srand_eq [OF assms])
qed

text \<open>
  C39. \<open>srand_bytes\<close> ignores a seed of at most 16 bytes: the \<open>memset\<close> that is to fill the rest of
  the array starts at its beginning and overwrites all that was copied, so any two such seeds of
  the same length leave the generator in the same state.
\<close>

theorem srand_bytes_ignores_short_seed:
  assumes "length seed = 32" and "unat n \<le> 16" and "unat n \<le> length s" and "unat n \<le> length s'"
  shows "srand_bytes seed s n = srand_bytes seed s' n \<and> srand_bytes seed s n \<noteq> None"
proof -
  have "unat n < 32" "length (take (unat n) x) \<le> 32 - unat n" for x :: bytes using assms(2) by auto
  then have "drop (32 - unat n) (take (unat n) x @ drop (unat n) seed) = drop (32 - unat n - min (length x) (unat n)) (drop (unat n) seed)" for x
    by simp
  then show ?thesis
    using srand_bytes_eq [OF assms(1,3)] srand_bytes_eq [OF assms(1,4)] assms(2-4) \<open>unat n < 32\<close>
    by (simp add: min_absorb2)
qed

theorem srand_bytes_ignores_short_seed_witness:
  "srand_bytes (replicate 32 0) [1, 2, 3, 4] 4 = srand_bytes (replicate 32 0) [9, 8, 7, 6] 4
   \<and> srand_bytes (replicate 32 0) [1, 2, 3, 4] 4 \<noteq> None"
  by (rule srand_bytes_ignores_short_seed) simp_all

end
