(* ===== verification/Aes_Sbox.thy ===== *)
theory Aes_Sbox
  imports Aes_Field
begin

text \<open>
  The substitution box is the function that FIPS 197 defines: the inverse in the field, with 0 sent
  to 0, followed by an affine map on the bits. The table is checked entry by entry, by evaluation;
  the inverse is found by undoing the affine map and is confirmed by a multiplication.
\<close>

definition sbox_affine :: "u8 \<Rightarrow> u8" where
  "sbox_affine y = y XOR word_rotl 1 y XOR word_rotl 2 y XOR word_rotl 3 y XOR word_rotl 4 y XOR 0x63"

definition sbox_unaffine :: "u8 \<Rightarrow> u8" where
  "sbox_unaffine y = word_rotl 1 y XOR word_rotl 3 y XOR word_rotl 6 y XOR 0x05"

definition sbox_entry_ok :: "u8 \<times> u8 \<Rightarrow> bool" where
  "sbox_entry_ok = (\<lambda>(x, s). let y = sbox_unaffine s in
     sbox_affine y = s \<and> (if x = 0 then y = 0 else gf_mult x y = 1))"

definition sbox_entries :: "(u8 \<times> u8) list" where
  "sbox_entries = zip (map of_nat [0..<256]) s_box"

lemma sbox_ok_1: "list_all sbox_entry_ok (take 32 sbox_entries)"
  by code_simp

lemma sbox_ok_2: "list_all sbox_entry_ok (take 32 (drop 32 sbox_entries))"
  by code_simp

lemma sbox_ok_3: "list_all sbox_entry_ok (take 32 (drop 64 sbox_entries))"
  by code_simp

lemma sbox_ok_4: "list_all sbox_entry_ok (take 32 (drop 96 sbox_entries))"
  by code_simp

lemma sbox_ok_5: "list_all sbox_entry_ok (take 32 (drop 128 sbox_entries))"
  by code_simp

lemma sbox_ok_6: "list_all sbox_entry_ok (take 32 (drop 160 sbox_entries))"
  by code_simp

lemma sbox_ok_7: "list_all sbox_entry_ok (take 32 (drop 192 sbox_entries))"
  by code_simp

lemma sbox_ok_8: "list_all sbox_entry_ok (take 32 (drop 224 sbox_entries))"
  by code_simp

lemma length_indexed: "length (zip (map of_nat [0..<n]) xs) = min n (length xs)"
  by simp

lemma nth_indexed: "i < n \<Longrightarrow> i < length xs \<Longrightarrow> zip (map of_nat [0..<n]) xs ! i = (of_nat i, xs ! i)"
  by simp

lemma length_box: "length s_box = 256"
  by (simp add: s_box_def)

lemma length_sbox_entries: "length sbox_entries = 256"
  unfolding sbox_entries_def length_indexed length_box by (rule min.idem)

lemma list_all_piece:
  "list_all P (take 32 (drop n xs)) \<Longrightarrow> list_all P (drop (32 + n) xs) \<Longrightarrow> list_all P (drop n xs)"
  using append_take_drop_id [of 32 "drop n xs"] list_all_append by (metis drop_drop)

lemma sbox_ok: "list_all sbox_entry_ok sbox_entries"
proof -
  have "list_all sbox_entry_ok (drop 256 sbox_entries)"
    using length_sbox_entries by simp
  then have "list_all sbox_entry_ok (drop 224 sbox_entries)"
    by (intro list_all_piece [OF sbox_ok_8]) simp
  then have "list_all sbox_entry_ok (drop 192 sbox_entries)"
    by (intro list_all_piece [OF sbox_ok_7]) simp
  then have "list_all sbox_entry_ok (drop 160 sbox_entries)"
    by (intro list_all_piece [OF sbox_ok_6]) simp
  then have "list_all sbox_entry_ok (drop 128 sbox_entries)"
    by (intro list_all_piece [OF sbox_ok_5]) simp
  then have "list_all sbox_entry_ok (drop 96 sbox_entries)"
    by (intro list_all_piece [OF sbox_ok_4]) simp
  then have "list_all sbox_entry_ok (drop 64 sbox_entries)"
    by (intro list_all_piece [OF sbox_ok_3]) simp
  then have "list_all sbox_entry_ok (drop 32 sbox_entries)"
    by (intro list_all_piece [OF sbox_ok_2]) simp
  then show ?thesis using list_all_piece [of sbox_entry_ok 0 sbox_entries] sbox_ok_1 by simp
qed

text \<open>
  C25. The table \<open>_s_box\<close> is the box of FIPS 197: entry \<open>x\<close> is the affine image of the
  multiplicative inverse of \<open>x\<close> in the field (of 0 for \<open>x = 0\<close>).
\<close>

theorem s_box_is_fips:
  "\<exists>y. (if x = 0 then y = 0 else gf_mult x y = 1) \<and> s_box ! unat x = sbox_affine y"
proof -
  have l: "unat x < 256" using unsigned_less [of x] by simp
  have "sbox_entries ! unat x = (of_nat (unat x), s_box ! unat x)"
    unfolding sbox_entries_def by (rule nth_indexed) (simp_all only: l length_box)
  moreover have "unat x < length sbox_entries" unfolding length_sbox_entries by (rule l)
  ultimately have "sbox_entry_ok (of_nat (unat x), s_box ! unat x)"
    using sbox_ok unfolding list_all_length by metis
  then have ok: "sbox_entry_ok (x, s_box ! unat x)" by simp
  let ?y = "sbox_unaffine (s_box ! unat x)"
  from ok have "sbox_affine ?y = s_box ! unat x" and "if x = 0 then ?y = 0 else gf_mult x ?y = 1"
    unfolding sbox_entry_ok_def prod.case Let_def by (rule conjunct1, rule conjunct2)
  then show ?thesis by metis
qed

end
