(* ===== verification/Aes_Cipher.thy ===== *)
theory Aes_Cipher
  imports Aes_Field Mbcrypt
begin

text \<open>
  The block cipher of \<open>src/aes.c\<close>: the round functions on the state, which the code keeps row by
  row, the expansion of the key, and encryption and decryption of one block. \<open>Aes_Block\<close> relates
  them to FIPS 197.
\<close>

subsection \<open>Types of keys\<close>

datatype mbcrypt_aes_type_e = AES128 | AES192 | AES256

fun aes_type_code :: "mbcrypt_aes_type_e \<Rightarrow> u32" where
  "aes_type_code AES128 = 0"
| "aes_type_code AES192 = 1"
| "aes_type_code AES256 = 2"

text \<open>The rows of \<open>_mbcrypt_aes_info\<close> hold \<open>Nk\<close> and \<open>Nr\<close>; a type outside the table reads outside it.\<close>

definition mbcrypt_aes_info :: "u32 list list" where
  "mbcrypt_aes_info = [[4, 10, 0], [6, 12, 0], [8, 14, 0]]"

definition aes_Nk :: "u32 \<Rightarrow> nat ub" where
  "aes_Nk t = do { row \<leftarrow> rd mbcrypt_aes_info (unat t); n \<leftarrow> rd row 0; Some (unat n) }"

definition aes_Nr :: "u32 \<Rightarrow> nat ub" where
  "aes_Nr t = do { row \<leftarrow> rd mbcrypt_aes_info (unat t); n \<leftarrow> rd row 1; Some (unat n) }"

text \<open>
  The expanded key; \<open>key_w\<close> is the field \<open>w\<close>, with \<open>None\<close> for a pointer that has no value yet.
\<close>

record mbcrypt_aes_key_t =
  key_w :: "bytes ptr option"
  key_type :: u32

subsection \<open>Words of four bytes\<close>

definition rot_left_word :: "bytes \<Rightarrow> nat \<Rightarrow> bytes ub" where
  "rot_left_word word off = do {
     tmp \<leftarrow> rd word (off + 0);
     v \<leftarrow> rd word (off + 1);
     word \<leftarrow> wr word (off + 0) v;
     v \<leftarrow> rd word (off + 2);
     word \<leftarrow> wr word (off + 1) v;
     v \<leftarrow> rd word (off + 3);
     word \<leftarrow> wr word (off + 2) v;
     wr word (off + 3) tmp
   }"

definition rot_right_word :: "bytes \<Rightarrow> nat \<Rightarrow> bytes ub" where
  "rot_right_word word off = do {
     tmp \<leftarrow> rd word (off + 3);
     v \<leftarrow> rd word (off + 2);
     word \<leftarrow> wr word (off + 3) v;
     v \<leftarrow> rd word (off + 1);
     word \<leftarrow> wr word (off + 2) v;
     v \<leftarrow> rd word (off + 0);
     word \<leftarrow> wr word (off + 1) v;
     wr word (off + 0) tmp
   }"

text \<open>\<open>word[i] = _s_box[word[i]]\<close>, with either box.\<close>

definition SBOX :: "bytes \<Rightarrow> nat \<Rightarrow> bytes ub" where
  "SBOX state i = do {
     v \<leftarrow> rd state i;
     s \<leftarrow> rd s_box (unat v);
     wr state i s
   }"

definition INV_SBOX :: "bytes \<Rightarrow> nat \<Rightarrow> bytes ub" where
  "INV_SBOX state i = do {
     v \<leftarrow> rd state i;
     s \<leftarrow> rd inv_s_box (unat v);
     wr state i s
   }"

definition sub_word :: "bytes \<Rightarrow> bytes ub" where
  "sub_word word = do {
     word \<leftarrow> SBOX word 0;
     word \<leftarrow> SBOX word 1;
     word \<leftarrow> SBOX word 2;
     SBOX word 3
   }"

text \<open>The code does not call this one.\<close>

definition inv_sub_word :: "bytes \<Rightarrow> bytes ub" where
  "inv_sub_word word = do {
     word \<leftarrow> INV_SBOX word 0;
     word \<leftarrow> INV_SBOX word 1;
     word \<leftarrow> INV_SBOX word 2;
     INV_SBOX word 3
   }"

subsection \<open>Round functions\<close>

definition sub_bytes :: "bytes \<Rightarrow> bytes ub" where
  "sub_bytes state = do {
     state \<leftarrow> SBOX state 0; state \<leftarrow> SBOX state 1; state \<leftarrow> SBOX state 2; state \<leftarrow> SBOX state 3;
     state \<leftarrow> SBOX state 4; state \<leftarrow> SBOX state 5; state \<leftarrow> SBOX state 6; state \<leftarrow> SBOX state 7;
     state \<leftarrow> SBOX state 8; state \<leftarrow> SBOX state 9; state \<leftarrow> SBOX state 10; state \<leftarrow> SBOX state 11;
     state \<leftarrow> SBOX state 12; state \<leftarrow> SBOX state 13; state \<leftarrow> SBOX state 14; SBOX state 15
   }"

definition inv_sub_bytes :: "bytes \<Rightarrow> bytes ub" where
  "inv_sub_bytes state = do {
     state \<leftarrow> INV_SBOX state 0; state \<leftarrow> INV_SBOX state 1; state \<leftarrow> INV_SBOX state 2;
     state \<leftarrow> INV_SBOX state 3; state \<leftarrow> INV_SBOX state 4; state \<leftarrow> INV_SBOX state 5;
     state \<leftarrow> INV_SBOX state 6; state \<leftarrow> INV_SBOX state 7; state \<leftarrow> INV_SBOX state 8;
     state \<leftarrow> INV_SBOX state 9; state \<leftarrow> INV_SBOX state 10; state \<leftarrow> INV_SBOX state 11;
     state \<leftarrow> INV_SBOX state 12; state \<leftarrow> INV_SBOX state 13; state \<leftarrow> INV_SBOX state 14;
     INV_SBOX state 15
   }"

definition shift_rows :: "bytes \<Rightarrow> bytes ub" where
  "shift_rows state = do {
     state \<leftarrow> rot_left_word state 4;
     state \<leftarrow> rot_left_word state 8;
     state \<leftarrow> rot_left_word state 8;
     state \<leftarrow> rot_left_word state 12;
     state \<leftarrow> rot_left_word state 12;
     rot_left_word state 12
   }"

definition inv_shift_rows :: "bytes \<Rightarrow> bytes ub" where
  "inv_shift_rows state = do {
     state \<leftarrow> rot_right_word state 4;
     state \<leftarrow> rot_right_word state 8;
     state \<leftarrow> rot_right_word state 8;
     state \<leftarrow> rot_right_word state 12;
     state \<leftarrow> rot_right_word state 12;
     rot_right_word state 12
   }"

text \<open>The body of the loop of \<open>_mix_coloums\<close>, and the loop over the remaining \<open>n\<close> columns.\<close>

definition mix_coloum :: "bytes \<Rightarrow> nat \<Rightarrow> bytes \<Rightarrow> bytes ub" where
  "mix_coloum vect i state = do {
     c0 \<leftarrow> rd state (0 + i);
     c1 \<leftarrow> rd state (4 + i);
     c2 \<leftarrow> rd state (8 + i);
     c3 \<leftarrow> rd state (12 + i);
     res \<leftarrow> coef_mult vect [c0, c1, c2, c3];
     r0 \<leftarrow> rd res 0;
     r1 \<leftarrow> rd res 1;
     r2 \<leftarrow> rd res 2;
     r3 \<leftarrow> rd res 3;
     state \<leftarrow> wr state (0 + i) r0;
     state \<leftarrow> wr state (4 + i) r1;
     state \<leftarrow> wr state (8 + i) r2;
     wr state (12 + i) r3
   }"

fun mix_loop :: "bytes \<Rightarrow> nat \<Rightarrow> nat \<Rightarrow> bytes \<Rightarrow> bytes ub" where
  "mix_loop vect i 0 state = Some state"
| "mix_loop vect i (Suc n) state = do {
     state \<leftarrow> mix_coloum vect i state;
     mix_loop vect (i + 1) n state
   }"

definition mix_coloums :: "bytes \<Rightarrow> bytes \<Rightarrow> bytes ub" where
  "mix_coloums state vect = mix_loop vect 0 4 state"

text \<open>The index \<open>k\<close> is a byte.\<close>

definition xor_at :: "bytes \<Rightarrow> nat \<Rightarrow> u8 \<Rightarrow> bytes ub" where
  "xor_at state i v = do { s \<leftarrow> rd state i; wr state i (s XOR v) }"

fun round_key_loop :: "u32 \<Rightarrow> nat \<Rightarrow> nat \<Rightarrow> bytes \<Rightarrow> bytes \<Rightarrow> bytes ub" where
  "round_key_loop round i 0 state w = Some state"
| "round_key_loop round i (Suc n) state w =
     (let k = ucast (4 * 4 * round + 4 * of_nat i) :: u8 in do {
        v \<leftarrow> rd w (unat k + 0);
        state \<leftarrow> xor_at state (0 + i) v;
        v \<leftarrow> rd w (unat k + 1);
        state \<leftarrow> xor_at state (4 + i) v;
        v \<leftarrow> rd w (unat k + 2);
        state \<leftarrow> xor_at state (8 + i) v;
        v \<leftarrow> rd w (unat k + 3);
        state \<leftarrow> xor_at state (12 + i) v;
        round_key_loop round (i + 1) n state w
      })"

definition add_round_key :: "u32 \<Rightarrow> bytes \<Rightarrow> bytes \<Rightarrow> bytes ub" where
  "add_round_key round state w = round_key_loop round 0 4 state w"

subsection \<open>Key expansion\<close>

fun key_copy_loop :: "bytes \<Rightarrow> nat \<Rightarrow> nat \<Rightarrow> bytes \<Rightarrow> bytes ub" where
  "key_copy_loop key i 0 w = Some w"
| "key_copy_loop key i (Suc n) w = do {
     v \<leftarrow> rd key (4 * i + 0);
     w \<leftarrow> wr w (4 * i + 0) v;
     v \<leftarrow> rd key (4 * i + 1);
     w \<leftarrow> wr w (4 * i + 1) v;
     v \<leftarrow> rd key (4 * i + 2);
     w \<leftarrow> wr w (4 * i + 2) v;
     v \<leftarrow> rd key (4 * i + 3);
     w \<leftarrow> wr w (4 * i + 3) v;
     key_copy_loop key (i + 1) n w
   }"

text \<open>The word \<open>tempa\<close> of round \<open>i\<close>.\<close>

definition key_tempa :: "nat \<Rightarrow> nat \<Rightarrow> bytes \<Rightarrow> bytes ub" where
  "key_tempa nk i w = do {
     let k = (i - 1) * 4;
     t0 \<leftarrow> rd w (k + 0);
     t1 \<leftarrow> rd w (k + 1);
     t2 \<leftarrow> rd w (k + 2);
     t3 \<leftarrow> rd w (k + 3);
     tempa \<leftarrow> (if i mod nk = 0 then do {
         tempa \<leftarrow> rot_left_word [t0, t1, t2, t3] 0;
         tempa \<leftarrow> sub_word tempa;
         r \<leftarrow> rd rcon (i div nk);
         xor_at tempa 0 r
       } else Some [t0, t1, t2, t3]);
     if 6 < nk \<and> i mod nk = 4 then sub_word tempa else Some tempa
   }"

fun key_word_loop :: "nat \<Rightarrow> nat \<Rightarrow> nat \<Rightarrow> bytes \<Rightarrow> bytes ub" where
  "key_word_loop nk i 0 w = Some w"
| "key_word_loop nk i (Suc n) w = do {
     tempa \<leftarrow> key_tempa nk i w;
     let j = i * 4;
     let k = (i - nk) * 4;
     t \<leftarrow> rd tempa 0; v \<leftarrow> rd w (k + 0); w \<leftarrow> wr w (j + 0) (v XOR t);
     t \<leftarrow> rd tempa 1; v \<leftarrow> rd w (k + 1); w \<leftarrow> wr w (j + 1) (v XOR t);
     t \<leftarrow> rd tempa 2; v \<leftarrow> rd w (k + 2); w \<leftarrow> wr w (j + 2) (v XOR t);
     t \<leftarrow> rd tempa 3; v \<leftarrow> rd w (k + 3); w \<leftarrow> wr w (j + 3) (v XOR t);
     key_word_loop nk (i + 1) n w
   }"

definition mbcrypt_aes_expand_key :: "u32 \<Rightarrow> bytes \<Rightarrow> bytes \<Rightarrow> bytes ub" where
  "mbcrypt_aes_expand_key t key w = do {
     nk \<leftarrow> aes_Nk t;
     nr \<leftarrow> aes_Nr t;
     w \<leftarrow> key_copy_loop key 0 nk w;
     key_word_loop nk nk (4 * (nr + 1) - nk) w
   }"

subsection \<open>One block\<close>

text \<open>The loop that reads the block into the rows of the state, and the one that writes it out.\<close>

fun load_loop :: "bytes \<Rightarrow> nat \<Rightarrow> nat \<Rightarrow> bytes \<Rightarrow> bytes ub" where
  "load_loop inp i 0 state = Some state"
| "load_loop inp i (Suc n) state = do {
     let k = 4 * i;
     v \<leftarrow> rd inp (i + 0); state \<leftarrow> wr state (k + 0) v;
     v \<leftarrow> rd inp (i + 4); state \<leftarrow> wr state (k + 1) v;
     v \<leftarrow> rd inp (i + 8); state \<leftarrow> wr state (k + 2) v;
     v \<leftarrow> rd inp (i + 12); state \<leftarrow> wr state (k + 3) v;
     load_loop inp (i + 1) n state
   }"

fun store_loop :: "bytes \<Rightarrow> nat \<Rightarrow> nat \<Rightarrow> bytes \<Rightarrow> bytes ub" where
  "store_loop state i 0 out = Some out"
| "store_loop state i (Suc n) out = do {
     let k = 4 * i;
     v \<leftarrow> rd state (k + 0); out \<leftarrow> wr out (i + 0) v;
     v \<leftarrow> rd state (k + 1); out \<leftarrow> wr out (i + 4) v;
     v \<leftarrow> rd state (k + 2); out \<leftarrow> wr out (i + 8) v;
     v \<leftarrow> rd state (k + 3); out \<leftarrow> wr out (i + 12) v;
     store_loop state (i + 1) n out
   }"

text \<open>The rounds from \<open>round\<close> up, and those from \<open>round\<close> down to 1.\<close>

fun encrypt_rounds :: "nat \<Rightarrow> nat \<Rightarrow> bytes \<Rightarrow> bytes \<Rightarrow> bytes ub" where
  "encrypt_rounds round 0 state w = Some state"
| "encrypt_rounds round (Suc n) state w = do {
     state \<leftarrow> sub_bytes state;
     state \<leftarrow> shift_rows state;
     state \<leftarrow> mix_coloums state mix_coloums_vector;
     state \<leftarrow> add_round_key (of_nat round) state w;
     encrypt_rounds (round + 1) n state w
   }"

fun decrypt_rounds :: "nat \<Rightarrow> bytes \<Rightarrow> bytes \<Rightarrow> bytes ub" where
  "decrypt_rounds 0 state w = Some state"
| "decrypt_rounds (Suc n) state w = do {
     state \<leftarrow> inv_shift_rows state;
     state \<leftarrow> inv_sub_bytes state;
     state \<leftarrow> add_round_key (of_nat (Suc n)) state w;
     state \<leftarrow> mix_coloums state inv_mix_coloums_vector;
     decrypt_rounds n state w
   }"

text \<open>The local array \<open>state\<close> is uninitialised: \<open>state0\<close>, of 16 bytes.\<close>

definition mbcrypt_aes_encrypt_block :: "bytes \<Rightarrow> mbcrypt_aes_key_t \<Rightarrow> bytes \<Rightarrow> bytes \<Rightarrow> bytes ub" where
  "mbcrypt_aes_encrypt_block state0 key inp out = do {
     nr \<leftarrow> aes_Nr (key_type key);
     w \<leftarrow> key_w key;
     w \<leftarrow> w;
     state \<leftarrow> load_loop inp 0 4 state0;
     state \<leftarrow> add_round_key 0 state w;
     state \<leftarrow> encrypt_rounds 1 (nr - 1) state w;
     state \<leftarrow> sub_bytes state;
     state \<leftarrow> shift_rows state;
     state \<leftarrow> add_round_key (of_nat nr) state w;
     store_loop state 0 4 out
   }"

definition mbcrypt_aes_decrypt_block :: "bytes \<Rightarrow> mbcrypt_aes_key_t \<Rightarrow> bytes \<Rightarrow> bytes \<Rightarrow> bytes ub" where
  "mbcrypt_aes_decrypt_block state0 key inp out = do {
     nr \<leftarrow> aes_Nr (key_type key);
     w \<leftarrow> key_w key;
     w \<leftarrow> w;
     state \<leftarrow> load_loop inp 0 4 state0;
     state \<leftarrow> add_round_key (of_nat nr) state w;
     state \<leftarrow> decrypt_rounds (nr - 1) state w;
     state \<leftarrow> inv_shift_rows state;
     state \<leftarrow> inv_sub_bytes state;
     state \<leftarrow> add_round_key 0 state w;
     store_loop state 0 4 out
   }"

end
