(* ===== verification/Aes_Block.thy ===== *)
theory Aes_Block
  imports Aes_Cipher
begin

text \<open>
  The cipher of FIPS 197 on blocks of 16 bytes (four columns of four bytes), its inverse, and the
  refinement: the code's state holds the same bytes row by row.
\<close>

subsection \<open>The standard\<close>

definition fips_sub_bytes :: "bytes \<Rightarrow> bytes" where
  "fips_sub_bytes s = map (\<lambda>b. s_box ! unat b) s"

definition fips_inv_sub_bytes :: "bytes \<Rightarrow> bytes" where
  "fips_inv_sub_bytes s = map (\<lambda>b. inv_s_box ! unat b) s"

text \<open>Row \<open>r\<close> is shifted by \<open>r\<close> columns.\<close>

fun fips_shift_rows :: "bytes \<Rightarrow> bytes" where
  "fips_shift_rows [a0, a1, a2, a3, b0, b1, b2, b3, c0, c1, c2, c3, d0, d1, d2, d3] =
     [a0, b1, c2, d3, b0, c1, d2, a3, c0, d1, a2, b3, d0, a1, b2, c3]"
| "fips_shift_rows s = s"

fun fips_inv_shift_rows :: "bytes \<Rightarrow> bytes" where
  "fips_inv_shift_rows [a0, a1, a2, a3, b0, b1, b2, b3, c0, c1, c2, c3, d0, d1, d2, d3] =
     [a0, d1, c2, b3, b0, a1, d2, c3, c0, b1, a2, d3, d0, c1, b2, a3]"
| "fips_inv_shift_rows s = s"

text \<open>A column times the circulant matrix whose first row is \<open>p q r s\<close>.\<close>

fun fips_mix_column :: "u8 \<times> u8 \<times> u8 \<times> u8 \<Rightarrow> bytes \<Rightarrow> bytes" where
  "fips_mix_column (p, q, r, s) [a, b, c, d] =
     [gf_mult p a XOR gf_mult q b XOR gf_mult r c XOR gf_mult s d,
      gf_mult s a XOR gf_mult p b XOR gf_mult q c XOR gf_mult r d,
      gf_mult r a XOR gf_mult s b XOR gf_mult p c XOR gf_mult q d,
      gf_mult q a XOR gf_mult r b XOR gf_mult s c XOR gf_mult p d]"
| "fips_mix_column m col = col"

definition fips_mix :: "u8 \<times> u8 \<times> u8 \<times> u8 \<Rightarrow> bytes \<Rightarrow> bytes" where
  "fips_mix m s = fips_mix_column m (take 4 s) @ fips_mix_column m (take 4 (drop 4 s))
     @ fips_mix_column m (take 4 (drop 8 s)) @ fips_mix_column m (take 4 (drop 12 s))"

abbreviation fips_mix_columns :: "bytes \<Rightarrow> bytes" where
  "fips_mix_columns \<equiv> fips_mix (0x02, 0x03, 0x01, 0x01)"

abbreviation fips_inv_mix_columns :: "bytes \<Rightarrow> bytes" where
  "fips_inv_mix_columns \<equiv> fips_mix (0x0E, 0x0B, 0x0D, 0x09)"

definition fips_round_key :: "bytes \<Rightarrow> nat \<Rightarrow> bytes" where
  "fips_round_key w round = take 16 (drop (16 * round) w)"

definition fips_add_round_key :: "bytes \<Rightarrow> nat \<Rightarrow> bytes \<Rightarrow> bytes" where
  "fips_add_round_key w round s = xor_bytes s (fips_round_key w round)"

fun fips_rounds :: "bytes \<Rightarrow> nat \<Rightarrow> bytes \<Rightarrow> bytes" where
  "fips_rounds w 0 s = fips_add_round_key w 0 s"
| "fips_rounds w (Suc n) s =
     fips_add_round_key w (Suc n) (fips_mix_columns (fips_shift_rows (fips_sub_bytes (fips_rounds w n s))))"

definition fips_cipher :: "nat \<Rightarrow> bytes \<Rightarrow> bytes \<Rightarrow> bytes" where
  "fips_cipher nr w inp =
     fips_add_round_key w nr (fips_shift_rows (fips_sub_bytes (fips_rounds w (nr - 1) inp)))"

fun fips_inv_rounds :: "bytes \<Rightarrow> nat \<Rightarrow> bytes \<Rightarrow> bytes" where
  "fips_inv_rounds w 0 s = fips_add_round_key w 0 (fips_inv_sub_bytes (fips_inv_shift_rows s))"
| "fips_inv_rounds w (Suc n) s =
     fips_inv_rounds w n (fips_inv_mix_columns (fips_add_round_key w (Suc n)
       (fips_inv_sub_bytes (fips_inv_shift_rows s))))"

definition fips_inv_cipher :: "nat \<Rightarrow> bytes \<Rightarrow> bytes \<Rightarrow> bytes" where
  "fips_inv_cipher nr w inp = fips_inv_rounds w (nr - 1) (fips_add_round_key w nr inp)"

text \<open>The rows of a block, as the code stores them.\<close>

fun rows :: "bytes \<Rightarrow> bytes" where
  "rows [a0, a1, a2, a3, b0, b1, b2, b3, c0, c1, c2, c3, d0, d1, d2, d3] =
     [a0, b0, c0, d0, a1, b1, c1, d1, a2, b2, c2, d2, a3, b3, c3, d3]"
| "rows s = s"

lemma list16_cases:
  assumes "length s = 16"
  obtains a0 a1 a2 a3 b0 b1 b2 b3 c0 c1 c2 c3 d0 d1 d2 d3
  where "s = [a0, a1, a2, a3, b0, b1, b2, b3, c0, c1, c2, c3, d0, d1, d2, d3]"
  using assms by (auto simp: numeral_eq_Suc length_Suc_conv)

lemma length_s_box: "length s_box = 256" "length inv_s_box = 256"
  by (simp_all add: s_box_def inv_s_box_def)

lemma rd_s_box [simp]:
  "rd s_box (unat (b :: u8)) = Some (s_box ! unat b)"
  "rd inv_s_box (unat b) = Some (inv_s_box ! unat b)"
  using unsigned_less [of b] by (simp_all add: rd_def length_s_box)

lemma length_shift_rows: "length s = 16 \<Longrightarrow> length (fips_shift_rows s) = 16"
  by (erule list16_cases) simp

lemma length_inv_shift_rows: "length s = 16 \<Longrightarrow> length (fips_inv_shift_rows s) = 16"
  by (erule list16_cases) simp

lemma length_rows: "length s = 16 \<Longrightarrow> length (rows s) = 16"
  by (erule list16_cases) simp

lemma length_fips_mix: "length s = 16 \<Longrightarrow> length (fips_mix m s) = 16"
  by (erule list16_cases, cases m) (simp add: fips_mix_def)

lemma length_round_key: "16 * round + 16 \<le> length w \<Longrightarrow> length (fips_round_key w round) = 16"
  by (simp add: fips_round_key_def)

lemmas fips_lengths = length_shift_rows length_inv_shift_rows length_fips_mix length_round_key

subsection \<open>The round functions refine the standard\<close>

lemma sub_bytes_rows: "length s = 16 \<Longrightarrow> sub_bytes (rows s) = Some (rows (fips_sub_bytes s))"
  by (erule list16_cases) (simp add: sub_bytes_def SBOX_def rd_Some wr_Some fips_sub_bytes_def)

lemma inv_sub_bytes_rows: "length s = 16 \<Longrightarrow> inv_sub_bytes (rows s) = Some (rows (fips_inv_sub_bytes s))"
  by (erule list16_cases) (simp add: inv_sub_bytes_def INV_SBOX_def rd_Some wr_Some fips_inv_sub_bytes_def)

lemma shift_rows_rows: "length s = 16 \<Longrightarrow> shift_rows (rows s) = Some (rows (fips_shift_rows s))"
  by (erule list16_cases) (simp add: shift_rows_def rot_left_word_def rd_Some wr_Some)

lemma inv_shift_rows_rows: "length s = 16 \<Longrightarrow> inv_shift_rows (rows s) = Some (rows (fips_inv_shift_rows s))"
  by (erule list16_cases) (simp add: inv_shift_rows_def rot_right_word_def rd_Some wr_Some)

lemma four_times: "(4 :: nat) = Suc (Suc (Suc (Suc 0)))"
  by simp

lemma mix_coloums_rows:
  "length s = 16 \<Longrightarrow> mix_coloums (rows s) [p, s', r, q] = Some (rows (fips_mix (p, q, r, s') s))"
  unfolding mix_coloums_def
  by (erule list16_cases)
    (simp add: four_times mix_coloum_def rd_Some wr_Some fips_mix_def)

lemma byte_index: "round \<le> 14 \<Longrightarrow> i < 4 \<Longrightarrow>
    unat (ucast (4 * 4 * of_nat round + 4 * of_nat i :: u32) :: u8) = 16 * round + 4 * i"
proof -
  assume a: "round \<le> 14" "i < 4"
  have "(4 * 4 * of_nat round + 4 * of_nat i :: u32) = of_nat (16 * round + 4 * i)" by simp
  moreover have "unat (of_nat (16 * round + 4 * i) :: u32) = 16 * round + 4 * i"
    using a by (simp add: unat_of_nat del: of_nat_add of_nat_mult)
  ultimately show ?thesis using a by (simp add: unsigned_ucast_eq take_bit_nat_eq_self)
qed

lemma add_round_key_rows:
  assumes "length s = 16" and "round \<le> 14" and "16 * round + 16 \<le> length w"
  shows "add_round_key (of_nat round) (rows s) w = Some (rows (fips_add_round_key w round s))"
proof -
  define k where "k = (\<lambda>i. w ! (16 * round + i))"
  have rk: "fips_round_key w round = map k [0..<16]"
    using assms(3) by (auto intro!: nth_equalityI simp: fips_round_key_def k_def)
  have w: "rd w (unat (ucast (4 * 4 * of_nat round + 4 * of_nat i :: u32) :: u8) + j) = Some (k (4 * i + j))"
    if "i < 4" "j < 4" for i j
    using that assms(3) unfolding byte_index [OF assms(2) that(1)]
    by (simp add: rd_def k_def add.assoc)
  have step: "round_key_loop (of_nat round) i (Suc n) st w = do {
      st \<leftarrow> xor_at st (0 + i) (k (4 * i + 0)); st \<leftarrow> xor_at st (4 + i) (k (4 * i + 1));
      st \<leftarrow> xor_at st (8 + i) (k (4 * i + 2)); st \<leftarrow> xor_at st (12 + i) (k (4 * i + 3));
      round_key_loop (of_nat round) (i + 1) n st w
    }" if "i < 4" for i n st
  proof -
    have j: "(0 :: nat) < 4" "(1 :: nat) < 4" "(2 :: nat) < 4" "(3 :: nat) < 4" by simp_all
    show ?thesis
      by (simp only: round_key_loop.simps Let_def w [OF that j(1)] w [OF that j(2)] w [OF that j(3)]
          w [OF that j(4)] Option.bind.simps)
  qed
  have rk16: "fips_round_key w round = [k 0, k 1, k 2, k 3, k 4, k 5, k 6, k 7, k 8, k 9, k 10, k 11,
      k 12, k 13, k 14, k 15]"
    unfolding rk by (simp add: upt_rec eval_nat_numeral)
  obtain a0 a1 a2 a3 b0 b1 b2 b3 c0 c1 c2 c3 d0 d1 d2 d3
    where s: "s = [a0, a1, a2, a3, b0, b1, b2, b3, c0, c1, c2, c3, d0, d1, d2, d3]"
    using assms(1) by (rule list16_cases)
  have "add_round_key (of_nat round) (rows s) w =
      round_key_loop (of_nat round) 0 (Suc (Suc (Suc (Suc 0)))) (rows s) w"
    unfolding add_round_key_def four_times ..
  also have "\<dots> = Some (rows (xor_bytes s (fips_round_key w round)))"
    unfolding rk16 s
    by (simp add: step xor_at_def rd_Some wr_Some xor_bytes_def eval_nat_numeral
        del: round_key_loop.simps(2))
  finally show ?thesis by (simp add: fips_add_round_key_def)
qed

lemma load_rows:
  assumes "16 \<le> length inp" and "length st = 16"
  shows "load_loop inp 0 4 st = Some (rows (take 16 inp))"
proof -
  have "length (take 16 inp) = 16" using assms(1) by simp
  then obtain a0 a1 a2 a3 b0 b1 b2 b3 c0 c1 c2 c3 d0 d1 d2 d3
    where t: "take 16 inp = [a0, a1, a2, a3, b0, b1, b2, b3, c0, c1, c2, c3, d0, d1, d2, d3]"
    by (rule list16_cases)
  then have inp: "inp = [a0, a1, a2, a3, b0, b1, b2, b3, c0, c1, c2, c3, d0, d1, d2, d3] @ drop 16 inp"
    by (metis append_take_drop_id)
  show ?thesis
    unfolding t
    by (subst inp, use assms(2) in \<open>elim list16_cases\<close>)
      (simp add: eval_nat_numeral rd_Some wr_Some Let_def)
qed

lemma store_rows:
  assumes "length s = 16" and "16 \<le> length out"
  shows "store_loop (rows s) 0 4 out = Some (s @ drop 16 out)"
proof -
  have "length (take 16 out) = 16" using assms(2) by simp
  then obtain a0 a1 a2 a3 b0 b1 b2 b3 c0 c1 c2 c3 d0 d1 d2 d3
    where t: "take 16 out = [a0, a1, a2, a3, b0, b1, b2, b3, c0, c1, c2, c3, d0, d1, d2, d3]"
    by (rule list16_cases)
  then have out: "out = [a0, a1, a2, a3, b0, b1, b2, b3, c0, c1, c2, c3, d0, d1, d2, d3] @ drop 16 out"
    by (metis append_take_drop_id)
  have "store_loop (rows s) 0 4 ([a0, a1, a2, a3, b0, b1, b2, b3, c0, c1, c2, c3, d0, d1, d2, d3] @ r) =
      Some (s @ r)" for r
    using assms(1)
    by (elim list16_cases) (simp add: eval_nat_numeral rd_Some wr_Some Let_def)
  from this [of "drop 16 out"] show ?thesis unfolding out [symmetric] .
qed


subsection \<open>Encryption and decryption of one block\<close>

lemma length_add_round_key [simp]:
  "length s = 16 \<Longrightarrow> 16 * round + 16 \<le> length w \<Longrightarrow> length (fips_add_round_key w round s) = 16"
  by (simp add: fips_add_round_key_def length_round_key)

lemma length_sub_bytes [simp]:
  "length (fips_sub_bytes s) = length s" "length (fips_inv_sub_bytes s) = length s"
  by (simp_all add: fips_sub_bytes_def fips_inv_sub_bytes_def)

lemma length_fips_rounds: "length s = 16 \<Longrightarrow> 16 * n + 16 \<le> length w \<Longrightarrow> length (fips_rounds w n s) = 16"
  by (induction n) (simp_all add: fips_lengths)

lemma mix_vectors:
  "length s = 16 \<Longrightarrow> mix_coloums (rows s) mix_coloums_vector = Some (rows (fips_mix_columns s))"
  "length s = 16 \<Longrightarrow> mix_coloums (rows s) inv_mix_coloums_vector = Some (rows (fips_inv_mix_columns s))"
  unfolding mix_coloums_vector_def inv_mix_coloums_vector_def by (rule mix_coloums_rows, assumption)+

lemmas round_refines = sub_bytes_rows shift_rows_rows mix_vectors add_round_key_rows
  inv_sub_bytes_rows inv_shift_rows_rows

lemma encrypt_rounds_rows:
  assumes "length s = 16" and "i + n \<le> 14" and "16 * (i + n) + 16 \<le> length w"
  shows "encrypt_rounds (Suc i) n (rows (fips_rounds w i s)) w = Some (rows (fips_rounds w (i + n) s))"
  using assms(2,3)
proof (induction n arbitrary: i)
  case (Suc n)
  have l: "length (fips_rounds w i s) = 16" by (rule length_fips_rounds) (use assms(1) Suc.prems in simp_all)
  have ak: "add_round_key (of_nat (Suc i)) (rows s') w = Some (rows (fips_add_round_key w (Suc i) s'))"
    if "length s' = 16" for s'
    by (rule add_round_key_rows [OF that]) (use Suc.prems in simp_all)
  show ?case
    using Suc.IH [of "Suc i"] Suc.prems l
    by (simp add: round_refines(1-4) ak fips_lengths del: of_nat_Suc)
qed simp

lemma decrypt_rounds_rows:
  assumes "length s = 16" and "n \<le> 14" and "16 * n + 16 \<le> length w"
  shows "do {
      state \<leftarrow> decrypt_rounds n (rows s) w;
      state \<leftarrow> inv_shift_rows state;
      state \<leftarrow> inv_sub_bytes state;
      add_round_key 0 state w
    } = Some (rows (fips_inv_rounds w n s))"
  using assms
proof (induction n arbitrary: s)
  case 0
  then show ?case using add_round_key_rows [of _ 0 w] by (simp add: round_refines fips_lengths)
next
  case (Suc n)
  have ak: "add_round_key (of_nat (Suc n)) (rows s') w = Some (rows (fips_add_round_key w (Suc n) s'))"
    if "length s' = 16" for s'
    by (rule add_round_key_rows [OF that]) (use Suc.prems in simp_all)
  show ?case
    using Suc.IH [of "fips_inv_mix_columns (fips_add_round_key w (Suc n) (fips_inv_sub_bytes (fips_inv_shift_rows s)))"]
      Suc.prems
    by (simp add: round_refines ak fips_lengths del: of_nat_Suc)
qed

text \<open>A key that \<open>mbcrypt_aes_key_init\<close> has set up for \<open>nr\<close> rounds, with the expanded key \<open>w\<close>.\<close>

definition aes_key_ok :: "mbcrypt_aes_key_t \<Rightarrow> nat \<Rightarrow> bytes \<Rightarrow> bool" where
  "aes_key_ok key nr w \<longleftrightarrow> key_w key = Some (Some w) \<and> aes_Nr (key_type key) = Some nr
     \<and> 0 < nr \<and> nr \<le> 14 \<and> 16 * nr + 16 \<le> length w"

lemma encrypt_block_eq:
  assumes key: "aes_key_ok key nr w" and "16 \<le> length inp" and "16 \<le> length out" and "length st = 16"
  shows "mbcrypt_aes_encrypt_block st key inp out = Some (fips_cipher nr w (take 16 inp) @ drop 16 out)"
proof -
  let ?i = "take 16 inp"
  have nr: "0 < nr" "nr \<le> 14" "16 * nr + 16 \<le> length w" using key by (simp_all add: aes_key_ok_def)
  have li: "length ?i = 16" using assms(2) by simp
  have lr: "length (fips_rounds w (nr - 1) ?i) = 16"
    by (rule length_fips_rounds [OF li]) (use nr in simp)
  have a0: "add_round_key 0 (rows ?i) w = Some (rows (fips_rounds w 0 ?i))"
    using add_round_key_rows [OF li, of 0 w] nr by simp
  have er: "encrypt_rounds 1 (nr - 1) (rows (fips_rounds w 0 ?i)) w = Some (rows (fips_rounds w (nr - 1) ?i))"
    using encrypt_rounds_rows [OF li, of 0 "nr - 1" w] nr by simp
  have "length (fips_cipher nr w ?i) = 16" using lr nr by (simp add: fips_cipher_def fips_lengths)
  then show ?thesis
    using key lr nr assms(2-4)
    by (simp add: mbcrypt_aes_encrypt_block_def aes_key_ok_def load_rows a0 er [simplified] round_refines fips_lengths
        fips_cipher_def store_rows)
qed

lemma decrypt_block_eq:
  assumes key: "aes_key_ok key nr w" and "16 \<le> length inp" and "16 \<le> length out" and "length st = 16"
  shows "mbcrypt_aes_decrypt_block st key inp out = Some (fips_inv_cipher nr w (take 16 inp) @ drop 16 out)"
proof -
  let ?i = "take 16 inp"
  have nr: "0 < nr" "nr \<le> 14" "16 * nr + 16 \<le> length w" using key by (simp_all add: aes_key_ok_def)
  have li: "length ?i = 16" using assms(2) by simp
  let ?s = "fips_add_round_key w nr ?i"
  have ls: "length ?s = 16" using li nr by simp
  have lv: "length s = 16 \<Longrightarrow> 16 * n + 16 \<le> length w \<Longrightarrow> length (fips_inv_rounds w n s) = 16" for n s
    by (induction n arbitrary: s) (simp_all add: fips_lengths)
  have b: "nr - 1 \<le> 14" "16 * (nr - 1) + 16 \<le> length w" using nr by simp_all
  have d: "do {
      state \<leftarrow> decrypt_rounds (nr - 1) (rows ?s) w;
      state \<leftarrow> inv_shift_rows state;
      state \<leftarrow> inv_sub_bytes state;
      state \<leftarrow> add_round_key 0 state w;
      store_loop state 0 4 out
    } = Some (fips_inv_cipher nr w ?i @ drop 16 out)"
    using decrypt_rounds_rows [OF ls b] store_rows [OF lv [OF ls b(2)] assms(3)]
    by (auto simp: fips_inv_cipher_def bind_eq_Some_conv)
  show ?thesis
    using key li nr assms(2-4) d add_round_key_rows [OF li, of nr w]
    by (simp add: mbcrypt_aes_decrypt_block_def aes_key_ok_def load_rows)
qed


subsection \<open>Decryption undoes encryption\<close>

lemma xtime_xor: "xtime (x XOR y) = xtime x XOR xtime y"
proof -
  have x: "xtime x = push_bit 1 x XOR (if bit x 7 then 0x1B else 0)" for x
    by (simp add: xtime_def and_one_eq bit_iff_odd_drop_bit odd_iff_mod_2_eq_one)
  show ?thesis unfolding x by (auto simp: push_bit_xor bit_xor_iff xor.assoc xor.left_commute)
qed

lemma gf_mult_unfold: "gf_mult a b = gf_loop (Suc (Suc (Suc (Suc (Suc (Suc (Suc (Suc 0)))))))) a 0 b"
  by (simp add: gf_mult_def eval_nat_numeral)

lemma gf_mult_consts:
  "gf_mult 0x01 b = b"
  "gf_mult 0x02 b = xtime b"
  "gf_mult 0x03 b = b XOR xtime b"
  "gf_mult 0x09 b = b XOR xtime (xtime (xtime b))"
  "gf_mult 0x0B b = b XOR xtime b XOR xtime (xtime (xtime b))"
  "gf_mult 0x0D b = b XOR xtime (xtime b) XOR xtime (xtime (xtime b))"
  "gf_mult 0x0E b = xtime b XOR xtime (xtime b) XOR xtime (xtime (xtime b))"
  by (simp_all add: gf_mult_unfold xor.assoc)

lemma xor_cancel: "x XOR (x XOR y) = (y :: u8)"
  by (simp flip: xor.assoc)

lemma inv_mix_column: "length col = 4 \<Longrightarrow>
    fips_mix_column (0x0E, 0x0B, 0x0D, 0x09) (fips_mix_column (0x02, 0x03, 0x01, 0x01) col) = col"
proof -
  assume "length col = 4"
  then obtain a b c d where col: "col = [a, b, c, d]"
    by (auto simp: numeral_eq_Suc length_Suc_conv)
  show ?thesis
    unfolding col
    by (simp add: gf_mult_consts xtime_xor xor.assoc xor.commute xor.left_commute xor_cancel)
qed

lemma fips_inv_mix: "length s = 16 \<Longrightarrow> fips_inv_mix_columns (fips_mix_columns s) = s"
proof -
  assume l: "length s = 16"
  have m: "length (fips_mix_column m col) = 4" if "length col = 4" for m col
    using that by (cases m) (auto simp: numeral_eq_Suc length_Suc_conv)
  have c: "length (take 4 (drop i s)) = 4" if "i \<le> 12" for i using l that by simp
  have "s = take 4 s @ take 4 (drop 4 s) @ take 4 (drop 8 s) @ take 4 (drop 12 s)"
    using l by (elim list16_cases) simp
  then show ?thesis
    using c [of 0] c [of 4] c [of 8] c [of 12]
    by (simp add: fips_mix_def m inv_mix_column)
qed

lemma fips_inv_shift: "length s = 16 \<Longrightarrow> fips_inv_shift_rows (fips_shift_rows s) = s"
  by (erule list16_cases) simp

lemma inv_s_box_s_box_list: "map (\<lambda>b. inv_s_box ! unat b) s_box = map of_nat [0..<256]"
  by code_simp

lemma inv_s_box_s_box: "inv_s_box ! unat (s_box ! unat b) = b"
proof -
  have l: "unat b < 256" using unsigned_less [of b] by simp
  then have "map (\<lambda>b. inv_s_box ! unat b) s_box ! unat b = inv_s_box ! unat (s_box ! unat b)"
    by (simp add: length_s_box)
  then show ?thesis using l unfolding inv_s_box_s_box_list by simp
qed

lemma fips_inv_sub: "fips_inv_sub_bytes (fips_sub_bytes s) = s"
  by (simp add: fips_inv_sub_bytes_def fips_sub_bytes_def inv_s_box_s_box comp_def)

lemma add_round_key_twice:
  "length s = 16 \<Longrightarrow> 16 * round + 16 \<le> length w \<Longrightarrow>
     fips_add_round_key w round (fips_add_round_key w round s) = s"
  by (simp add: fips_add_round_key_def xor_bytes_cancel length_round_key)

lemma fips_inv_rounds_rounds:
  "length s = 16 \<Longrightarrow> 16 * n + 16 \<le> length w \<Longrightarrow>
     fips_inv_rounds w n (fips_shift_rows (fips_sub_bytes (fips_rounds w n s))) = s"
proof (induction n)
  case 0
  then show ?case by (simp add: fips_inv_shift fips_inv_sub add_round_key_twice fips_lengths)
next
  case (Suc n)
  have "length (fips_rounds w n s) = 16" by (rule length_fips_rounds) (use Suc.prems in simp_all)
  then show ?case
    using Suc
    by (simp add: fips_inv_shift fips_inv_sub add_round_key_twice fips_inv_mix fips_lengths)
qed

theorem fips_inv_cipher_cipher:
  assumes "length b = 16" and "0 < nr" and "16 * nr + 16 \<le> length w"
  shows "fips_inv_cipher nr w (fips_cipher nr w b) = b"
proof -
  have "length (fips_rounds w (nr - 1) b) = 16"
    by (rule length_fips_rounds) (use assms in simp_all)
  then show ?thesis
    using assms fips_inv_rounds_rounds [of b "nr - 1" w]
    by (simp add: fips_cipher_def fips_inv_cipher_def add_round_key_twice fips_lengths)
qed

end
