(* ===== verification/Aes_Key.thy ===== *)
theory Aes_Key
  imports Aes_Cipher
begin

text \<open>
  The key expansion of FIPS 197 as a recursion on the words of the schedule, and the proof that
  the code's two loops compute it.
\<close>

subsection \<open>The standard\<close>

definition fips_sub_word :: "bytes \<Rightarrow> bytes" where
  "fips_sub_word t = map (\<lambda>b. s_box ! unat b) t"

definition fips_rot_word :: "bytes \<Rightarrow> bytes" where
  "fips_rot_word t = tl t @ [hd t]"

text \<open>The round constant is a power of \<open>x\<close> in the field.\<close>

definition fips_rcon :: "nat \<Rightarrow> bytes" where
  "fips_rcon i = [(xtime ^^ (i - 1)) 1, 0, 0, 0]"

definition fips_key_temp :: "nat \<Rightarrow> nat \<Rightarrow> bytes \<Rightarrow> bytes" where
  "fips_key_temp nk i t =
     (if i mod nk = 0 then xor_bytes (fips_sub_word (fips_rot_word t)) (fips_rcon (i div nk))
      else if 6 < nk \<and> i mod nk = 4 then fips_sub_word t else t)"

function fips_key_word :: "nat \<Rightarrow> bytes \<Rightarrow> nat \<Rightarrow> bytes" where
  "fips_key_word nk key i =
     (if i < nk \<or> nk = 0 then take 4 (drop (4 * i) key)
      else xor_bytes (fips_key_word nk key (i - nk)) (fips_key_temp nk i (fips_key_word nk key (i - 1))))"
  by pat_completeness auto
termination
  by (relation "measure (\<lambda>(_, _, i). i)") auto

declare fips_key_word.simps [simp del]

definition fips_key_expansion :: "nat \<Rightarrow> nat \<Rightarrow> bytes \<Rightarrow> bytes" where
  "fips_key_expansion nk nr key = concat (map (fips_key_word nk key) [0..<4 * (nr + 1)])"

subsection \<open>Lengths\<close>

lemma length4E:
  assumes "length t = 4"
  obtains a b c d where "t = [a, b, c, d]"
  using assms by (auto simp: numeral_eq_Suc length_Suc_conv)

lemma length_key_temp: "length t = 4 \<Longrightarrow> length (fips_key_temp nk i t) = 4"
  by (erule length4E) (simp add: fips_key_temp_def fips_sub_word_def fips_rot_word_def fips_rcon_def)

lemma length_key_word: "4 * nk \<le> length key \<Longrightarrow> 0 < nk \<Longrightarrow> length (fips_key_word nk key i) = 4"
proof (induction nk key i rule: fips_key_word.induct)
  case (1 nk key i)
  show ?case
  proof (cases "i < nk")
    case True
    then have "4 * i + 4 \<le> length key" using 1 by linarith
    then show ?thesis using True by (simp add: fips_key_word.simps [of nk key i])
  next
    case False
    then show ?thesis using 1 by (subst fips_key_word.simps) (simp add: length_key_temp)
  qed
qed

lemma length_concat4: "\<forall>i. length (f i) = 4 \<Longrightarrow> length (concat (map f [0..<n])) = 4 * n"
  by (induction n) simp_all

lemma nth_concat4:
  assumes "\<forall>i. length (f i) = 4" and "j < n" and "c < 4"
  shows "(concat (map f [0..<n]) @ r) ! (4 * j + c) = f j ! c"
  using assms(2)
proof (induction n arbitrary: r)
  case (Suc n)
  show ?case
  proof (cases "j < n")
    case True
    then show ?thesis using Suc.IH [of "f n @ r"] by simp
  next
    case False
    then have "j = n" using Suc.prems by simp
    then show ?thesis using length_concat4 [OF assms(1), of n] assms(1,3) by (simp add: nth_append)
  qed
qed simp

subsection \<open>The code computes it\<close>

lemma key_copy_loop_eq:
  "4 * (i + n) \<le> length key \<Longrightarrow> 4 * (i + n) \<le> length w \<Longrightarrow> take (4 * i) w = take (4 * i) key \<Longrightarrow>
     key_copy_loop key i n w = Some (take (4 * (i + n)) key @ drop (4 * (i + n)) w)"
proof (induction n arbitrary: i w)
  case 0
  then show ?case by (metis add_0_right append_take_drop_id key_copy_loop.simps(1))
next
  case (Suc n)
  have le: "4 * i + 4 \<le> length w" "4 * i + 4 \<le> length key" using Suc.prems by simp_all
  let ?w = "take (4 * i) w @ [key ! (4 * i), key ! (4 * i + 1), key ! (4 * i + 2), key ! (4 * i + 3)]
    @ drop (4 * i + 4) w"
  have upd: "w[4 * i := key ! (4 * i), 4 * i + 1 := key ! (4 * i + 1), 4 * i + 2 := key ! (4 * i + 2),
      4 * i + 3 := key ! (4 * i + 3)] = ?w"
    by (rule list_update_run_4 [OF le(1)])
  have t4: "take (4 * Suc i) key = take (4 * i) key @ take 4 (drop (4 * i) key)"
    using take_add [of "4 * i" 4 key] by (simp add: add.commute)
  have "take (4 * Suc i) ?w = take (4 * Suc i) key"
    unfolding t4 take_drop_4 [OF le(2)] using le Suc.prems(3) by simp
  moreover have "key_copy_loop key i (Suc n) w = key_copy_loop key (Suc i) n ?w"
    unfolding upd [symmetric] using le by (simp add: mem_simps)
  moreover have e: "4 * (Suc i + n) = 4 * n + (4 * i + 4)" by simp
  have "drop (4 * n) (drop (4 * i + 4) ?w) = drop (4 * n) (drop (4 * i + 4) w)"
    using le by simp
  then have "drop (4 * (Suc i + n)) ?w = drop (4 * (Suc i + n)) w"
    unfolding drop_drop e .
  moreover have "length ?w = length w" using le by simp
  ultimately show ?case using Suc.IH [of "Suc i" ?w] Suc.prems by simp
qed

lemma rcon_fips: "1 \<le> j \<Longrightarrow> j \<le> 10 \<Longrightarrow> rd rcon j = Some ((xtime ^^ (j - 1)) 1)"
proof -
  have "map (\<lambda>j. rd rcon j) [1..<11] = map (\<lambda>j. Some ((xtime ^^ (j - 1)) 1)) [1..<11]"
    by code_simp
  then have "\<forall>j \<in> set [1..<11]. rd rcon j = Some ((xtime ^^ (j - 1)) 1)" by (simp only: map_eq_conv)
  then show "1 \<le> j \<Longrightarrow> j \<le> 10 \<Longrightarrow> rd rcon j = Some ((xtime ^^ (j - 1)) 1)" by simp
qed

lemma length_s_box': "length s_box = 256"
  by (simp add: s_box_def)

lemma SBOX_eq: "i < length t \<Longrightarrow> SBOX t i = Some (t[i := s_box ! unat (t ! i)])"
  using unsigned_less [of "t ! i"] by (simp add: SBOX_def rd_def wr_def length_s_box')

lemma key_tempa_eq:
  assumes kw: "\<forall>j. length (kw j) = 4" and w: "w = concat (map kw [0..<i]) @ r"
    and i: "nk \<le> i" "0 < nk" "i div nk \<le> 10"
  shows "key_tempa nk i w = Some (fips_key_temp nk i (kw (i - 1)))"
proof -
  obtain a b c d where t: "kw (i - 1) = [a, b, c, d]" using kw length4E by metis
  have len: "length w = 4 * i + length r" using length_concat4 [OF kw] w by simp
  have "rd w ((i - 1) * 4 + m) = Some (kw (i - 1) ! m)" if "m < 4" for m
    using nth_concat4 [OF kw, of "i - 1" i m r] that i len w by (simp add: rd_def mult.commute)
  from this [of 0, unfolded t] this [of 1, unfolded t] this [of 2, unfolded t] this [of 3, unfolded t]
  have rds: "rd w ((i - 1) * 4 + 0) = Some a" "rd w ((i - 1) * 4 + 1) = Some b"
    "rd w ((i - 1) * 4 + 2) = Some c" "rd w ((i - 1) * 4 + 3) = Some d"
    by simp_all
  have sub: "sub_word [p, q, u, v] = Some (fips_sub_word [p, q, u, v])" for p q u v
    by (simp add: sub_word_def SBOX_eq fips_sub_word_def)
  have rot: "rot_left_word [a, b, c, d] 0 = Some [b, c, d, a]"
    by (simp add: rot_left_word_def rd_Some wr_Some)
  have "1 \<le> i div nk" using i by (simp add: div_greater_zero_iff Suc_le_eq)
  note rc = rcon_fips [OF this i(3)]
  show ?thesis
    unfolding t key_tempa_def Let_def rds Option.bind.simps rot sub rc
    by (auto simp: fips_key_temp_def fips_sub_word_def fips_rot_word_def fips_rcon_def xor_at_def
        rd_Some wr_Some xor_bytes_def sub_word_def SBOX_eq)
qed

lemma key_word_loop_eq:
  assumes kw: "\<forall>j. length (kw j) = 4" and nk: "0 < nk"
    and step: "\<forall>j. nk \<le> j \<longrightarrow> kw j = xor_bytes (kw (j - nk)) (fips_key_temp nk j (kw (j - 1)))"
    and hi: "\<forall>j < N. j div nk \<le> 10"
  shows "nk \<le> i \<Longrightarrow> i + n \<le> N \<Longrightarrow> 4 * n \<le> length r \<Longrightarrow>
    key_word_loop nk i n (concat (map kw [0..<i]) @ r) = Some (concat (map kw [0..<i + n]) @ drop (4 * n) r)"
proof (induction n arbitrary: i r)
  case (Suc n)
  let ?P = "concat (map kw [0..<i])" and ?t = "fips_key_temp nk i (kw (i - 1))"
  have lP: "length ?P = 4 * i" by (rule length_concat4 [OF kw])
  have "length (kw (i - 1)) = 4" using kw by blast
  then have "length ?t = 4" by (rule length_key_temp)
  then obtain t0 t1 t2 t3 where t: "?t = [t0, t1, t2, t3]" by (rule length4E)
  have "length (kw (i - nk)) = 4" using kw by blast
  then obtain v0 v1 v2 v3 where v: "kw (i - nk) = [v0, v1, v2, v3]" by (rule length4E)
  obtain r0 r1 r2 r3 r' where r: "r = r0 # r1 # r2 # r3 # r'"
    using Suc.prems(3) by (auto simp: numeral_eq_Suc Suc_le_length_iff)
  have "key_tempa nk i (?P @ r) = Some ?t"
    by (rule key_tempa_eq [OF kw refl]) (use Suc.prems nk hi in auto)
  then have temp: "key_tempa nk i (?P @ r) = Some [t0, t1, t2, t3]" unfolding t .
  have rdv: "rd (?P @ q) ((i - nk) * 4 + c) = Some ([v0, v1, v2, v3] ! c)" if "c < 4" for c q
    using nth_concat4 [OF kw, of "i - nk" i c q] that Suc.prems(1) nk lP
    unfolding v by (simp add: rd_def mult.commute)
  note rds = rdv [of 0, simplified] rdv [of 1, simplified] rdv [of 2, simplified] rdv [of 3, simplified]
  have wrs: "wr (?P @ q) (i * 4 + c) x = Some (?P @ q[c := x])" if "c < length q" for c q x
    using that lP by (simp add: wr_def list_update_append mult.commute)
  have "[v0 XOR t0, v1 XOR t1, v2 XOR t2, v3 XOR t3] = kw i"
    using step Suc.prems(1) t v by (simp add: xor_bytes_def)
  then have P': "?P @ (v0 XOR t0) # (v1 XOR t1) # (v2 XOR t2) # (v3 XOR t3) # r' =
      concat (map kw [0..<Suc i]) @ r'" by auto
  have "key_word_loop nk i (Suc n) (?P @ r) = key_word_loop nk (Suc i) n (concat (map kw [0..<Suc i]) @ r')"
    using rds wrs [of 0, simplified] wrs [of 1, simplified] wrs [of 2, simplified] wrs [of 3, simplified] temp
    by (simp add: r rd_Some P' del: upt_Suc)
  also have "\<dots> = Some (concat (map kw [0..<Suc i + n]) @ drop (4 * n) r')"
    by (rule Suc.IH) (use Suc.prems r in auto)
  also have "drop (4 * n) r' = drop (4 * Suc n) r"
    using drop_drop [of "4 * n" 4 r] by (simp add: r add.commute)
  finally show ?case by (simp del: upt_Suc mult_Suc_right)
qed simp

text \<open>\<open>w\<close> has room for the schedule; \<open>nk\<close> and \<open>nr\<close> are the table's.\<close>

lemma expand_key_eq:
  assumes t: "aes_Nk t = Some nk" "aes_Nr t = Some nr" and nk: "4 * nk \<le> length key"
    and w: "16 * (nr + 1) \<le> length w"
  shows "mbcrypt_aes_expand_key t key w =
    Some (fips_key_expansion nk nr key @ drop (16 * (nr + 1)) w)"
proof -
  have nks: "(nk, nr) \<in> {(4, 10), (6, 12), (8, 14)}"
  proof -
    have "unat t < 3" using t(1) by (auto simp: aes_Nk_def mbcrypt_aes_info_def rd_def split: if_splits)
    then consider "unat t = 0" | "unat t = 1" | "unat t = 2" by linarith
    then show ?thesis using t by cases (auto simp: aes_Nk_def aes_Nr_def mbcrypt_aes_info_def rd_def)
  qed
  then have nk0: "0 < nk" "nk \<le> 4 * (nr + 1)" "4 * (nr + 1) \<le> 11 * nk" by auto
  let ?kw = "fips_key_word nk key" and ?N = "4 * (nr + 1)"
  have kw: "\<forall>j. length (?kw j) = 4" using length_key_word [OF nk nk0(1)] by blast
  have step: "\<forall>j. nk \<le> j \<longrightarrow> ?kw j = xor_bytes (?kw (j - nk)) (fips_key_temp nk j (?kw (j - 1)))"
    using nk0(1) by (auto simp: fips_key_word.simps [of nk key])
  have hi: "\<forall>j < ?N. j div nk \<le> 10"
  proof (intro allI impI)
    fix j assume "j < ?N"
    then have "j < 11 * nk" using nk0(3) by linarith
    then have "j div nk < 11" using nk0(1) by (simp add: div_less_iff_less_mult mult.commute)
    then show "j div nk \<le> 10" by simp
  qed
  have "concat (map ?kw [0..<m]) = take (4 * m) key" if "m \<le> nk" for m
    using that
  proof (induction m)
    case (Suc m)
    then have "?kw m = take 4 (drop (4 * m) key)" by (simp add: fips_key_word.simps [of nk key m])
    then show ?case using Suc take_add [of "4 * m" 4 key] by (simp add: add.commute)
  qed simp
  then have P: "concat (map ?kw [0..<nk]) = take (4 * nk) key" by simp
  have "4 * nk \<le> length w" using w nk0(2) by linarith
  then have "key_copy_loop key 0 nk w = Some (concat (map ?kw [0..<nk]) @ drop (4 * nk) w)"
    using key_copy_loop_eq [of 0 nk key w] nk unfolding P by simp
  moreover have room: "4 * (?N - nk) \<le> length (drop (4 * nk) w)" using w by simp
  have "key_word_loop nk nk (?N - nk) (concat (map ?kw [0..<nk]) @ drop (4 * nk) w) =
      Some (concat (map ?kw [0..<?N]) @ drop (16 * (nr + 1)) w)"
  proof -
    have "4 * (?N - nk) + 4 * nk = 16 * (nr + 1)" "nk + (?N - nk) = ?N" using nk0(2) by simp_all
    then show ?thesis
      using key_word_loop_eq [OF kw nk0(1) step hi, of nk "?N - nk" "drop (4 * nk) w"] room
      unfolding drop_drop by (simp only:)
  qed
  ultimately show ?thesis by (simp add: mbcrypt_aes_expand_key_def t fips_key_expansion_def del: upt_Suc)
qed

end
