(* ===== verification/Aes_Modes.thy ===== *)
theory Aes_Modes
  imports Aes_Block Aes_Key Mbcrypt_Utils
begin

text \<open>
  The keys, the modes of operation and the entry point of \<open>src/aes.c\<close>. The output buffer is
  separate from the data. \<open>Aes_Modes_Spec\<close> has what the modes compute.
\<close>

subsection \<open>Inputs and outputs\<close>

text \<open>
  Buffers that the code never compares with \<open>NULL\<close> are lists; the lengths, which the struct
  declares as pointers and the code uses as numbers, are words.
\<close>

record mbcrypt_aes_input_t =
  in_key :: "bytes ptr"
  in_key_len :: u32
  in_data :: bytes
  in_data_len :: u32
  in_iv :: bytes
  in_iv_len :: u32
  in_auth_data :: bytes
  in_auth_data_len :: u32

record mbcrypt_aes_output_t =
  out_buf :: bytes
  out_buf_len :: u32
  out_tag :: bytes
  out_tag_len :: u32

datatype mbcrypt_aes_mode_e =
    MBCRYPT_AES_ECB | MBCRYPT_AES_CBC | MBCRYPT_AES_OFB | MBCRYPT_AES_CFB | MBCRYPT_AES_CTR
  | MBCRYPT_AES_GCM | MBCRYPT_AES_AEAD | MBCRYPT_AES_XTS

fun aes_mode_code :: "mbcrypt_aes_mode_e \<Rightarrow> u32" where
  "aes_mode_code MBCRYPT_AES_ECB = 0"
| "aes_mode_code MBCRYPT_AES_CBC = 1"
| "aes_mode_code MBCRYPT_AES_OFB = 2"
| "aes_mode_code MBCRYPT_AES_CFB = 3"
| "aes_mode_code MBCRYPT_AES_CTR = 4"
| "aes_mode_code MBCRYPT_AES_GCM = 5"
| "aes_mode_code MBCRYPT_AES_AEAD = 6"
| "aes_mode_code MBCRYPT_AES_XTS = 7"

datatype mbcrypt_aes_key_expansion_hash_type_e =
    MBCRYPT_AES_KEY_EXPANSION_SHA1 | MBCRYPT_AES_KEY_EXPANSION_SHA256
  | MBCRYPT_AES_KEY_EXPANSION_SHA512 | MBCRYPT_AES_KEY_EXPANSION_NOT_REQUIRED

fun aes_key_expansion_code :: "mbcrypt_aes_key_expansion_hash_type_e \<Rightarrow> u32" where
  "aes_key_expansion_code MBCRYPT_AES_KEY_EXPANSION_SHA1 = 0"
| "aes_key_expansion_code MBCRYPT_AES_KEY_EXPANSION_SHA256 = 1"
| "aes_key_expansion_code MBCRYPT_AES_KEY_EXPANSION_SHA512 = 2"
| "aes_key_expansion_code MBCRYPT_AES_KEY_EXPANSION_NOT_REQUIRED = 3"

subsection \<open>Keys\<close>

text \<open>\<open>malloc n\<close> is the block that the C library returns, with its contents, or \<open>NULL\<close>.\<close>

definition mbcrypt_aes_key_init ::
    "(nat \<Rightarrow> bytes ptr) \<Rightarrow> u32 \<Rightarrow> mbcrypt_aes_key_t ptr \<Rightarrow> (mbcrypt_status_e \<times> mbcrypt_aes_key_t ptr) ub" where
  "mbcrypt_aes_key_init malloc t key =
     (case key of None \<Rightarrow> Some (MBCRYPT_STATUS_FAIL_NULL_PTR, None) | Some key \<Rightarrow>
        if t \<noteq> aes_type_code AES128 \<and> t \<noteq> aes_type_code AES192 \<and> t \<noteq> aes_type_code AES256
        then Some (MBCRYPT_STATUS_FAIL_INCORRECT_FUNCTION_PARAM, Some key)
        else do {
          let key = key\<lparr>key_type := t\<rparr>;
          nr \<leftarrow> aes_Nr t;
          let w = malloc (4 * 4 * (nr + 1));
          let key = key\<lparr>key_w := Some w\<rparr>;
          Some (if w = None then MBCRYPT_STATUS_FAIL_NULL_PTR else MBCRYPT_STATUS_OK, Some key)
        })"

text \<open>
  The source calls \<open>sha1\<close>, \<open>sha256\<close> and \<open>sha512\<close>, which it does not define: they are parameters.
\<close>

type_synonym aes_hash_fn = "bytes \<Rightarrow> u32 \<Rightarrow> bytes \<Rightarrow> (mbcrypt_status_e \<times> bytes) ub"

definition mbcrypt_aes_key_expand ::
    "aes_hash_fn \<Rightarrow> aes_hash_fn \<Rightarrow> aes_hash_fn \<Rightarrow> u32 \<Rightarrow> bytes ptr \<Rightarrow> u32 \<Rightarrow> mbcrypt_aes_key_t ptr \<Rightarrow>
     (mbcrypt_status_e \<times> mbcrypt_aes_key_t ptr) ub" where
  "mbcrypt_aes_key_expand sha1 sha256 sha512 e key_in key_in_len key_out =
     (case (key_out, key_in) of
        (Some key_out, Some key_in) \<Rightarrow>
          let t = key_type key_out; tmp_key = replicate 64 0 in
          if e = aes_key_expansion_code MBCRYPT_AES_KEY_EXPANSION_SHA1
            \<and> (t = aes_type_code AES192 \<or> t = aes_type_code AES256)
          then Some (MBCRYPT_STATUS_FAIL_INCORRECT_FUNCTION_PARAM, Some key_out)
          else do {
            (st, tmp_key) \<leftarrow>
              (if e = aes_key_expansion_code MBCRYPT_AES_KEY_EXPANSION_SHA1
               then sha1 key_in key_in_len tmp_key
               else if e = aes_key_expansion_code MBCRYPT_AES_KEY_EXPANSION_SHA256
               then sha256 key_in key_in_len tmp_key
               else if e = aes_key_expansion_code MBCRYPT_AES_KEY_EXPANSION_SHA512
               then sha512 key_in key_in_len tmp_key
               else if e = aes_key_expansion_code MBCRYPT_AES_KEY_EXPANSION_NOT_REQUIRED
               then do {
                 nk \<leftarrow> aes_Nk t;
                 if key_in_len \<noteq> of_nat (nk * 4)
                 then Some (MBCRYPT_STATUS_FAIL_INCORRECT_FUNCTION_PARAM, tmp_key)
                 else do {
                   tmp_key \<leftarrow> memcpy_at tmp_key 0 key_in (unat key_in_len);
                   Some (MBCRYPT_STATUS_OK, tmp_key)
                 }
               }
               else Some (MBCRYPT_STATUS_FAIL_INCORRECT_FUNCTION_PARAM, tmp_key));
            if st \<noteq> MBCRYPT_STATUS_OK then Some (st, Some key_out) else do {
              w \<leftarrow> key_w key_out;
              w \<leftarrow> w;
              w \<leftarrow> mbcrypt_aes_expand_key t tmp_key w;
              Some (MBCRYPT_STATUS_OK, Some (key_out\<lparr>key_w := Some (Some w)\<rparr>))
            }
          }
      | _ \<Rightarrow> Some (MBCRYPT_STATUS_FAIL_NULL_PTR, key_out))"

text \<open>Freeing a key whose pointer was never set is undefined.\<close>

definition mbcrypt_aes_key_free :: "mbcrypt_aes_key_t ptr \<Rightarrow> unit ub" where
  "mbcrypt_aes_key_free key =
     (case key of None \<Rightarrow> Some () | Some key \<Rightarrow> do { _ \<leftarrow> key_w key; Some () })"

definition mbcrypt_aes_ecb_encrypt_block ::
    "bytes \<Rightarrow> mbcrypt_aes_key_t ptr \<Rightarrow> bytes ptr \<Rightarrow> bytes ptr \<Rightarrow> (mbcrypt_status_e \<times> bytes ptr) ub" where
  "mbcrypt_aes_ecb_encrypt_block st key inp out =
     (case (key, inp, out) of
        (Some key, Some inp, Some out) \<Rightarrow> do {
          out \<leftarrow> mbcrypt_aes_encrypt_block st key inp out;
          Some (MBCRYPT_STATUS_OK, Some out)
        }
      | _ \<Rightarrow> Some (MBCRYPT_STATUS_FAIL_NULL_PTR, out))"

definition mbcrypt_aes_ecb_decrypt_block ::
    "bytes \<Rightarrow> mbcrypt_aes_key_t ptr \<Rightarrow> bytes ptr \<Rightarrow> bytes ptr \<Rightarrow> (mbcrypt_status_e \<times> bytes ptr) ub" where
  "mbcrypt_aes_ecb_decrypt_block st key inp out =
     (case (key, inp, out) of
        (Some key, Some inp, Some out) \<Rightarrow> do {
          out \<leftarrow> mbcrypt_aes_decrypt_block st key inp out;
          Some (MBCRYPT_STATUS_OK, Some out)
        }
      | _ \<Rightarrow> Some (MBCRYPT_STATUS_FAIL_NULL_PTR, out))"

subsection \<open>Pieces that the modes share\<close>

text \<open>\<open>_mbcrypt_aes_encrypt_block (key, inp, out)\<close> with \<open>out\<close> advanced by \<open>off\<close> bytes.\<close>

definition aes_encrypt_at :: "bytes \<Rightarrow> mbcrypt_aes_key_t \<Rightarrow> bytes \<Rightarrow> bytes \<Rightarrow> nat \<Rightarrow> bytes ub" where
  "aes_encrypt_at st key inp out off =
     (if off \<le> length out then do {
        tail \<leftarrow> mbcrypt_aes_encrypt_block st key inp (drop off out);
        Some (take off out @ tail)
      } else None)"

text \<open>The loop \<open>out[off + j] ^= data[off + j]\<close> over one block.\<close>

definition xor_data_at :: "bytes \<Rightarrow> bytes \<Rightarrow> nat \<Rightarrow> bytes ub" where
  "xor_data_at out data off = do {
     tail \<leftarrow> xor_loop (drop off out) (drop off data) 0 16;
     Some (take off out @ tail)
   }"

text \<open>The loop \<open>dst[j] = a[j] ^ b[j]\<close>.\<close>

fun xor3_loop :: "bytes \<Rightarrow> bytes \<Rightarrow> bytes \<Rightarrow> nat \<Rightarrow> nat \<Rightarrow> bytes ub" where
  "xor3_loop dst a b j 0 = Some dst"
| "xor3_loop dst a b j (Suc n) = do {
     x \<leftarrow> rd a j;
     y \<leftarrow> rd b j;
     dst \<leftarrow> wr dst j (x XOR y);
     xor3_loop dst a b (j + 1) n
   }"

text \<open>
  The loop over the full blocks, which every mode has: \<open>data\<close> and \<open>out\<close> advance by a block at each
  pass; \<open>buf\<close> is what the mode keeps between the passes. The result has the offset they have reached.
\<close>

fun aes_blocks :: "(nat \<Rightarrow> 's \<Rightarrow> bytes \<Rightarrow> ('s \<times> bytes) ub) \<Rightarrow> nat \<Rightarrow> nat \<Rightarrow> 's \<Rightarrow> bytes \<Rightarrow>
    (nat \<times> 's \<times> bytes) ub" where
  "aes_blocks body 0 off buf out = Some (off, buf, out)"
| "aes_blocks body (Suc n) off buf out = do {
     (buf, out) \<leftarrow> body off buf out;
     aes_blocks body n (off + 16) buf out
   }"

definition full_blocks :: "u32 \<Rightarrow> nat" where
  "full_blocks data_len = unat (drop_bit 4 data_len)"

definition left_data :: "u32 \<Rightarrow> nat" where
  "left_data data_len = unat (data_len AND 15)"

text \<open>The padding loops run up to index 16 of an array of 16 bytes.\<close>

fun pad_loop :: "bytes \<Rightarrow> nat \<Rightarrow> nat \<Rightarrow> u8 \<Rightarrow> bytes ub" where
  "pad_loop buf i 0 pad = Some buf"
| "pad_loop buf i (Suc n) pad = do {
     buf \<leftarrow> wr buf i pad;
     pad_loop buf (i + 1) n pad
   }"

fun pad_xor_loop :: "bytes \<Rightarrow> nat \<Rightarrow> nat \<Rightarrow> u8 \<Rightarrow> bytes ub" where
  "pad_xor_loop buf i 0 pad = Some buf"
| "pad_xor_loop buf i (Suc n) pad = do {
     buf \<leftarrow> xor_at buf i pad;
     pad_xor_loop buf (i + 1) n pad
   }"

subsection \<open>The modes\<close>

text \<open>For each mode: the body of its loop, what it does with the data left, and the function.\<close>

definition ecb_block :: "bytes \<Rightarrow> mbcrypt_aes_key_t \<Rightarrow> bytes \<Rightarrow> nat \<Rightarrow> bytes \<Rightarrow> bytes \<Rightarrow> (bytes \<times> bytes) ub" where
  "ecb_block st key data off buf out = do {
     out \<leftarrow> aes_encrypt_at st key (drop off data) out off;
     Some (buf, out)
   }"

definition ecb_last :: "bytes \<Rightarrow> mbcrypt_aes_key_t \<Rightarrow> bytes \<Rightarrow> bytes \<Rightarrow> bytes \<Rightarrow> nat \<Rightarrow> nat \<Rightarrow> bytes ub" where
  "ecb_last st key buf data out off left = do {
     let pad = of_nat (16 - left);
     buf \<leftarrow> memcpy_at buf 0 (drop off data) left;
     buf \<leftarrow> pad_loop buf left (17 - left) pad;
     aes_encrypt_at st key buf out off
   }"

definition mbcrypt_aes_ecb_encrypt_ex ::
    "bytes \<Rightarrow> mbcrypt_aes_key_t \<Rightarrow> mbcrypt_aes_input_t \<Rightarrow> bytes \<Rightarrow> bytes ub" where
  "mbcrypt_aes_ecb_encrypt_ex st key inp out = do {
     let data = in_data inp;
     let left = left_data (in_data_len inp);
     (off, buf, out) \<leftarrow> aes_blocks (ecb_block st key data) (full_blocks (in_data_len inp)) 0 (replicate 16 0) out;
     if left \<noteq> 0 then ecb_last st key buf data out off left else Some out
   }"

definition cbc_block :: "bytes \<Rightarrow> mbcrypt_aes_key_t \<Rightarrow> bytes \<Rightarrow> nat \<Rightarrow> bytes \<Rightarrow> bytes \<Rightarrow> (bytes \<times> bytes) ub" where
  "cbc_block st key data off buf out = do {
     buf \<leftarrow> xor_loop buf (drop off data) 0 16;
     out \<leftarrow> aes_encrypt_at st key buf out off;
     buf \<leftarrow> memcpy_at buf 0 (drop off out) 16;
     Some (buf, out)
   }"

definition cbc_last :: "bytes \<Rightarrow> mbcrypt_aes_key_t \<Rightarrow> bytes \<Rightarrow> bytes \<Rightarrow> bytes \<Rightarrow> nat \<Rightarrow> nat \<Rightarrow> bytes ub" where
  "cbc_last st key buf data out off left = do {
     let pad = of_nat (16 - left);
     buf \<leftarrow> pad_xor_loop buf left (17 - left) pad;
     buf \<leftarrow> xor_loop buf (drop off data) 0 left;
     aes_encrypt_at st key buf out off
   }"

definition mbcrypt_aes_cbc_encrypt_ex ::
    "bytes \<Rightarrow> mbcrypt_aes_key_t \<Rightarrow> mbcrypt_aes_input_t \<Rightarrow> bytes \<Rightarrow> bytes ub" where
  "mbcrypt_aes_cbc_encrypt_ex st key inp out = do {
     let data = in_data inp;
     let left = left_data (in_data_len inp);
     buf \<leftarrow> memcpy_at (replicate 16 0) 0 (in_iv inp) 16;
     (off, buf, out) \<leftarrow> aes_blocks (cbc_block st key data) (full_blocks (in_data_len inp)) 0 buf out;
     if left \<noteq> 0 then cbc_last st key buf data out off left else Some out
   }"

definition ofb_block :: "bytes \<Rightarrow> mbcrypt_aes_key_t \<Rightarrow> bytes \<Rightarrow> nat \<Rightarrow> bytes \<Rightarrow> bytes \<Rightarrow> (bytes \<times> bytes) ub" where
  "ofb_block st key data off buf out = do {
     out \<leftarrow> aes_encrypt_at st key buf out off;
     buf \<leftarrow> memcpy_at buf 0 (drop off out) 16;
     out \<leftarrow> xor_data_at out data off;
     Some (buf, out)
   }"

definition ofb_last :: "bytes \<Rightarrow> mbcrypt_aes_key_t \<Rightarrow> bytes \<Rightarrow> bytes \<Rightarrow> bytes \<Rightarrow> nat \<Rightarrow> nat \<Rightarrow> bytes ub" where
  "ofb_last st key buf data out off left = do {
     tmp \<leftarrow> mbcrypt_aes_encrypt_block st key buf (replicate 16 0);
     buf \<leftarrow> memcpy_at buf 0 tmp 16;
     tail \<leftarrow> xor3_loop (drop off out) buf (drop off data) 0 left;
     Some (take off out @ tail)
   }"

definition mbcrypt_aes_ofb_encrypt_ex ::
    "bytes \<Rightarrow> mbcrypt_aes_key_t \<Rightarrow> mbcrypt_aes_input_t \<Rightarrow> bytes \<Rightarrow> bytes ub" where
  "mbcrypt_aes_ofb_encrypt_ex st key inp out = do {
     let data = in_data inp;
     let left = left_data (in_data_len inp);
     buf \<leftarrow> memcpy_at (replicate 16 0) 0 (in_iv inp) 16;
     (off, buf, out) \<leftarrow> aes_blocks (ofb_block st key data) (full_blocks (in_data_len inp)) 0 buf out;
     if left \<noteq> 0 then ofb_last st key buf data out off left else Some out
   }"

definition cfb_block :: "bytes \<Rightarrow> mbcrypt_aes_key_t \<Rightarrow> bytes \<Rightarrow> nat \<Rightarrow> bytes \<Rightarrow> bytes \<Rightarrow> (bytes \<times> bytes) ub" where
  "cfb_block st key data off buf out = do {
     out \<leftarrow> aes_encrypt_at st key buf out off;
     buf \<leftarrow> xor3_loop buf (drop off data) (drop off out) 0 16;
     out \<leftarrow> memcpy_at out off buf 16;
     Some (buf, out)
   }"

text \<open>The last block of CFB and CTR: \<open>out[j] = tmp[j] ^ data[j]\<close>.\<close>

definition aes_last_stream :: "bytes \<Rightarrow> mbcrypt_aes_key_t \<Rightarrow> bytes \<Rightarrow> bytes \<Rightarrow> bytes \<Rightarrow> nat \<Rightarrow> nat \<Rightarrow> bytes ub" where
  "aes_last_stream st key buf data out off left = do {
     tmp \<leftarrow> mbcrypt_aes_encrypt_block st key buf (replicate 16 0);
     tail \<leftarrow> xor3_loop (drop off out) tmp (drop off data) 0 left;
     Some (take off out @ tail)
   }"

definition mbcrypt_aes_cfb_encrypt_ex ::
    "bytes \<Rightarrow> mbcrypt_aes_key_t \<Rightarrow> mbcrypt_aes_input_t \<Rightarrow> bytes \<Rightarrow> bytes ub" where
  "mbcrypt_aes_cfb_encrypt_ex st key inp out = do {
     let data = in_data inp;
     let left = left_data (in_data_len inp);
     buf \<leftarrow> memcpy_at (replicate 16 0) 0 (in_iv inp) 16;
     (off, buf, out) \<leftarrow> aes_blocks (cfb_block st key data) (full_blocks (in_data_len inp)) 0 buf out;
     if left \<noteq> 0 then aes_last_stream st key buf data out off left else Some out
   }"

text \<open>The counter block: its last bytes are incremented while they wrap to 0.\<close>

fun ctr_inc :: "bytes \<Rightarrow> nat \<Rightarrow> bytes ub" where
  "ctr_inc buf 0 = do {
     v \<leftarrow> rd buf 0;
     wr buf 0 (v + 1)
   }"
| "ctr_inc buf (Suc j) = do {
     v \<leftarrow> rd buf (Suc j);
     buf \<leftarrow> wr buf (Suc j) (v + 1);
     if v + 1 = 0 then ctr_inc buf j else Some buf
   }"

definition ctr_block :: "bytes \<Rightarrow> mbcrypt_aes_key_t \<Rightarrow> bytes \<Rightarrow> nat \<Rightarrow> bytes \<Rightarrow> bytes \<Rightarrow> (bytes \<times> bytes) ub" where
  "ctr_block st key data off buf out = do {
     out \<leftarrow> aes_encrypt_at st key buf out off;
     out \<leftarrow> xor_data_at out data off;
     buf \<leftarrow> ctr_inc buf 15;
     Some (buf, out)
   }"

definition mbcrypt_aes_ctr_encrypt_ex ::
    "bytes \<Rightarrow> mbcrypt_aes_key_t \<Rightarrow> mbcrypt_aes_input_t \<Rightarrow> bytes \<Rightarrow> bytes ub" where
  "mbcrypt_aes_ctr_encrypt_ex st key inp out = do {
     let data = in_data inp;
     let left = left_data (in_data_len inp);
     buf \<leftarrow> memcpy_at (replicate 16 0) 0 (in_iv inp) 16;
     (off, buf, out) \<leftarrow> aes_blocks (ctr_block st key data) (full_blocks (in_data_len inp)) 0 buf out;
     if left \<noteq> 0 then aes_last_stream st key buf data out off left else Some out
   }"

text \<open>
  XTS uses an array \<open>T\<close> that the source does not declare; the model passes one of 16 bytes. Its loop
  keeps \<open>T\<close> and \<open>buf\<close>; the statements for the data left are those of the loop.
\<close>

definition xts_block :: "bytes \<Rightarrow> mbcrypt_aes_key_t \<Rightarrow> bytes \<Rightarrow> nat \<Rightarrow> bytes \<times> bytes \<Rightarrow> bytes \<Rightarrow>
    ((bytes \<times> bytes) \<times> bytes) ub" where
  "xts_block st key data off = (\<lambda>(T, buf) out. do {
     buf \<leftarrow> xor3_loop buf (drop off data) T 0 16;
     out \<leftarrow> aes_encrypt_at st key buf out off;
     tail \<leftarrow> xor_loop (drop off out) T 0 16;
     let out = take off out @ tail;
     T \<leftarrow> memcpy_at T 0 (drop off out) 16;
     Some ((T, buf), out)
   })"

definition mbcrypt_aes_xts_encrypt_ex ::
    "bytes \<Rightarrow> bytes \<Rightarrow> mbcrypt_aes_key_t \<Rightarrow> mbcrypt_aes_input_t \<Rightarrow> bytes \<Rightarrow> bytes ub" where
  "mbcrypt_aes_xts_encrypt_ex T st key inp out = do {
     let data = in_data inp;
     let left = left_data (in_data_len inp);
     T \<leftarrow> mbcrypt_aes_encrypt_block st key (in_iv inp) T;
     (off, (T, buf), out) \<leftarrow>
       aes_blocks (xts_block st key data) (full_blocks (in_data_len inp)) 0 (T, replicate 16 0) out;
     if left \<noteq> 0 then do {
       buf \<leftarrow> memcpy_at buf 0 (drop off data) left;
       (_, out) \<leftarrow> xts_block st key data off (T, buf) out;
       Some out
     } else Some out
   }"

subsection \<open>The entry point\<close>

text \<open>The \<open>switch\<close> over the modes; a mode without a case does nothing.\<close>

definition aes_mode_switch ::
    "bytes \<Rightarrow> bytes \<Rightarrow> u32 \<Rightarrow> mbcrypt_aes_key_t \<Rightarrow> mbcrypt_aes_input_t \<Rightarrow> bytes \<Rightarrow> bytes ub" where
  "aes_mode_switch T st mode key inp out =
     (if mode = aes_mode_code MBCRYPT_AES_ECB then mbcrypt_aes_ecb_encrypt_ex st key inp out
      else if mode = aes_mode_code MBCRYPT_AES_CBC then mbcrypt_aes_cbc_encrypt_ex st key inp out
      else if mode = aes_mode_code MBCRYPT_AES_CFB then mbcrypt_aes_cfb_encrypt_ex st key inp out
      else if mode = aes_mode_code MBCRYPT_AES_OFB then mbcrypt_aes_ofb_encrypt_ex st key inp out
      else if mode = aes_mode_code MBCRYPT_AES_CTR then mbcrypt_aes_ctr_encrypt_ex st key inp out
      else if mode = aes_mode_code MBCRYPT_AES_XTS then mbcrypt_aes_xts_encrypt_ex T st key inp out
      else Some out)"

text \<open>The local key is uninitialised: its type has the value \<open>t0\<close>, its pointer none.\<close>

definition mbcrypt_aes_encrypt ::
    "(nat \<Rightarrow> bytes ptr) \<Rightarrow> aes_hash_fn \<Rightarrow> aes_hash_fn \<Rightarrow> aes_hash_fn \<Rightarrow> bytes \<Rightarrow> bytes \<Rightarrow> u32 \<Rightarrow>
     u32 \<Rightarrow> u32 \<Rightarrow> u32 \<Rightarrow> mbcrypt_aes_input_t \<Rightarrow> mbcrypt_aes_output_t \<Rightarrow>
     (mbcrypt_status_e \<times> mbcrypt_aes_output_t) ub" where
  "mbcrypt_aes_encrypt malloc sha1 sha256 sha512 T st t0 mode t e inp out = do {
     let key = Some \<lparr>key_w = None, key_type = t0\<rparr>;
     (ret, key) \<leftarrow> MBCRYPT_CHECK_RES (mbcrypt_aes_key_init malloc t key) (\<lambda>key.
       mbcrypt_aes_key_expand sha1 sha256 sha512 e (in_key inp) (in_key_len inp) key);
     out \<leftarrow> (if ret \<noteq> MBCRYPT_STATUS_OK then Some out else do {
       k \<leftarrow> key;
       buf \<leftarrow> aes_mode_switch T st mode k inp (out_buf out);
       Some (out\<lparr>out_buf := buf\<rparr>)
     });
     _ \<leftarrow> mbcrypt_aes_key_free key;
     Some (ret, out)
   }"

end
