(* ===== verification/Aes_Modes_Spec.thy ===== *)
theory Aes_Modes_Spec
  imports Aes_Modes
begin

text \<open>
  What the modes of operation of \<open>Aes_Modes\<close> compute: the modes of SP 800-38A over the cipher of
  FIPS 197. The locale \<open>block_mode\<close> is the contract of a loop body, from which the value of the loop
  over any number of blocks follows; \<open>stream_mode\<close> adds the contract of the last, incomplete block.
  All the modes of the code are interpretations of one of them.
\<close>

subsection \<open>The modes of SP 800-38A\<close>

text \<open>
  A mode maps what it keeps between two blocks and a block of data to a block of text and what it
  keeps next. \<open>E\<close> is the forward cipher function under the key.
\<close>

type_synonym 's mode_fn = "(bytes \<Rightarrow> bytes) \<Rightarrow> 's \<Rightarrow> bytes \<Rightarrow> bytes \<times> 's"

definition ecb_mode :: "bytes mode_fn" where
  "ecb_mode E s d = (E d, s)"

definition cbc_mode :: "bytes mode_fn" where
  "cbc_mode E c d = (let c = E (xor_bytes d c) in (c, c))"

definition ofb_mode :: "bytes mode_fn" where
  "ofb_mode E s d = (xor_bytes d (E s), E s)"

definition cfb_mode :: "bytes mode_fn" where
  "cfb_mode E c d = (let c = xor_bytes d (E c) in (c, c))"

text \<open>The counter is a number; its block is the big-endian encoding, which wraps at 128 bits.\<close>

definition ctr_mode :: "nat mode_fn" where
  "ctr_mode E n d = (xor_bytes d (E (be_bytes 16 n)), n + 1)"

text \<open>
  What the code calls XTS: the tweak of a block is the ciphertext of the block before. The second
  component is the scratch buffer.
\<close>

definition xts_mode :: "(bytes \<times> bytes) mode_fn" where
  "xts_mode E = (\<lambda>(T, b) d. let b = xor_bytes d T; c = xor_bytes (E b) T in (c, (c, b)))"

fun mode_text :: "('s \<Rightarrow> bytes \<Rightarrow> bytes \<times> 's) \<Rightarrow> 's \<Rightarrow> bytes list \<Rightarrow> bytes" where
  "mode_text f s [] = []"
| "mode_text f s (d # ds) = fst (f s d) @ mode_text f (snd (f s d)) ds"

fun mode_state :: "('s \<Rightarrow> bytes \<Rightarrow> bytes \<times> 's) \<Rightarrow> 's \<Rightarrow> bytes list \<Rightarrow> 's" where
  "mode_state f s [] = s"
| "mode_state f s (d # ds) = mode_state f (snd (f s d)) ds"

text \<open>The data in blocks of 16 bytes, the last of which may be shorter.\<close>

definition data_blocks :: "bytes \<Rightarrow> bytes list" where
  "data_blocks xs = chunks 16 xs @ (if tailpart 16 xs = [] then [] else [tailpart 16 xs])"

lemma mode_text_append: "mode_text f s (xs @ ys) = mode_text f s xs @ mode_text f (mode_state f s xs) ys"
  by (induction xs arbitrary: s) simp_all

subsection \<open>Pieces\<close>

lemma length_fips_cipher: "length b = 16 \<Longrightarrow> 0 < nr \<Longrightarrow> 16 * nr + 16 \<le> length w \<Longrightarrow> length (fips_cipher nr w b) = 16"
  using length_fips_rounds [of b "nr - 1" w] by (simp add: fips_cipher_def fips_lengths)

lemma cipher_length: "aes_key_ok key nr w \<Longrightarrow> length b = 16 \<Longrightarrow> length (fips_cipher nr w b) = 16"
  by (simp add: aes_key_ok_def length_fips_cipher)

lemma encrypt_at_eq:
  assumes "aes_key_ok key nr w" and "length st = 16" and "16 \<le> length inp" and "off + 16 \<le> length out"
  shows "aes_encrypt_at st key inp out off = Some (take off out @ fips_cipher nr w (take 16 inp) @ drop (off + 16) out)"
  using assms encrypt_block_eq [of key nr w inp "drop off out" st] by (simp add: aes_encrypt_at_def add.commute)

lemma xor3_loop_eq:
  "j + n \<le> length dst \<Longrightarrow> j + n \<le> length a \<Longrightarrow> j + n \<le> length b \<Longrightarrow>
     xor3_loop dst a b j n = Some (take j dst @ xor_bytes (take n (drop j a)) (take n (drop j b)) @ drop (j + n) dst)"
proof (induction n arbitrary: j dst)
  case (Suc n)
  let ?d = "dst[j := a ! j XOR b ! j]"
  have "xor3_loop dst a b j (Suc n) = xor3_loop ?d a b (j + 1) n"
    using Suc.prems by (simp add: mem_simps)
  also have "\<dots> = Some (take (j + 1) ?d @ xor_bytes (take n (drop (j + 1) a)) (take n (drop (j + 1) b)) @ drop (j + 1 + n) ?d)"
    using Suc.prems by (intro Suc.IH) simp_all
  also have "take (j + 1) ?d = take j dst @ [a ! j XOR b ! j]"
    using Suc.prems by (simp add: take_Suc_conv_app_nth)
  finally show ?case
    using Suc.prems by (simp add: xor_bytes_def Cons_nth_drop_Suc [symmetric])
qed (simp add: xor_bytes_def)

lemma xor_data_at_eq:
  "off + 16 \<le> length out \<Longrightarrow> off + 16 \<le> length data \<Longrightarrow>
     xor_data_at out data off =
       Some (take off out @ xor_bytes (take 16 (drop off out)) (take 16 (drop off data)) @ drop (off + 16) out)"
  by (simp add: xor_data_at_def xor_loop_Some add.commute)

lemma be_bytes_Suc: "be_bytes (Suc k) v = be_bytes k (v div 256) @ [of_nat v]"
  using be_bytes_append [of k 1 v] by (simp add: be_bytes_def)

lemma ctr_inc_eq: "ctr_inc (be_bytes (Suc j) v @ r) j = Some (be_bytes (Suc j) (v + 1) @ r)"
proof (induction j arbitrary: v r)
  case 0
  then show ?case by (simp add: be_bytes_def mem_simps)
next
  case (Suc j)
  let ?p = "be_bytes (Suc j) (v div 256)"
  have "ctr_inc (be_bytes (Suc (Suc j)) v @ r) (Suc j) =
      (if (of_nat v :: u8) + 1 = 0 then ctr_inc (?p @ (of_nat v + 1) # r) j else Some (?p @ (of_nat v + 1) # r))"
    by (simp add: be_bytes_Suc [of "Suc j"] mem_simps nth_append list_update_append)
  moreover have "(of_nat v :: u8) + 1 = 0 \<longleftrightarrow> Suc v mod 256 = 0"
  proof -
    have "(of_nat v :: u8) + 1 = of_nat (Suc v)" by simp
    then show ?thesis by (simp only: word_of_nat_eq_0_iff) (simp add: dvd_eq_mod_eq_0)
  qed
  ultimately show ?case
    using Suc.IH [of "v div 256" "(of_nat v + 1) # r"]
    by (simp add: be_bytes_Suc [of "Suc j" "Suc v"] div_Suc)
qed


subsection \<open>The contract of a mode\<close>

text \<open>
  \<open>rep\<close> is how the code keeps the state \<open>s\<close> of the mode, \<open>ok\<close> the states that it can be in.
\<close>

locale block_mode =
  fixes f :: "(bytes \<Rightarrow> bytes) \<Rightarrow> 's \<Rightarrow> bytes \<Rightarrow> bytes \<times> 's"
    and rep :: "'s \<Rightarrow> 'c"
    and ok :: "'s \<Rightarrow> bool"
    and body :: "bytes \<Rightarrow> mbcrypt_aes_key_t \<Rightarrow> bytes \<Rightarrow> nat \<Rightarrow> 'c \<Rightarrow> bytes \<Rightarrow> ('c \<times> bytes) ub"
  assumes body_step: "aes_key_ok key nr w \<Longrightarrow> length st = 16 \<Longrightarrow> ok s \<Longrightarrow>
      off + 16 \<le> length data \<Longrightarrow> off + 16 \<le> length out \<Longrightarrow>
      f (fips_cipher nr w) s (take 16 (drop off data)) = (c, s') \<Longrightarrow>
      body st key data off (rep s) out = Some (rep s', take off out @ c @ drop (off + 16) out)"
    and step_ok: "aes_key_ok key nr w \<Longrightarrow> ok s \<Longrightarrow> length d = 16 \<Longrightarrow>
      f (fips_cipher nr w) s d = (c, s') \<Longrightarrow> ok s' \<and> length c = 16"
begin

lemma state_ok:
  assumes "aes_key_ok key nr w" and "ok s" and "\<forall>d \<in> set ds. length d = 16"
  shows "ok (mode_state (f (fips_cipher nr w)) s ds)
    \<and> length (mode_text (f (fips_cipher nr w)) s ds) = 16 * length ds"
  using assms(2,3)
proof (induction ds arbitrary: s)
  case (Cons d ds)
  obtain c s' where f: "f (fips_cipher nr w) s d = (c, s')" by fastforce
  then have "ok s' \<and> length c = 16" using step_ok [OF assms(1) _ _ f] Cons.prems by simp
  then show ?case using Cons.IH [of s'] Cons.prems f by simp
qed simp

lemma blocks_at:
  assumes "aes_key_ok key nr w" and "length st = 16"
    and "ok s" and "off + 16 * n \<le> length data" and "off + 16 * n \<le> length out"
  shows "aes_blocks (body st key data) n off (rep s) out =
    (let ds = chunks 16 (take (16 * n) (drop off data)); F = f (fips_cipher nr w) in
       Some (off + 16 * n, rep (mode_state F s ds), take off out @ mode_text F s ds @ drop (off + 16 * n) out))"
  using assms(3-)
proof (induction n arbitrary: off s out)
  case 0
  then show ?case by (simp add: chunks_short)
next
  case (Suc n)
  let ?F = "f (fips_cipher nr w)" and ?d = "take 16 (drop off data)"
  let ?ds = "chunks 16 (take (16 * n) (drop (off + 16) data))"
  obtain c s' where f: "?F s ?d = (c, s')" by fastforce
  have s': "ok s'" "length c = 16"
    using step_ok [OF assms(1) Suc.prems(1) _ f] Suc.prems by simp_all
  let ?o = "take off out @ c @ drop (off + 16) out"
  have len: "length ?o = length out" using s' Suc.prems by simp
  have "body st key data off (rep s) out = Some (rep s', ?o)"
    by (rule body_step [OF assms(1,2) Suc.prems(1) _ _ f]) (use Suc.prems in simp_all)
  then have "aes_blocks (body st key data) (Suc n) off (rep s) out =
      aes_blocks (body st key data) n (off + 16) (rep s') ?o" by simp
  also have "\<dots> = Some (off + 16 + 16 * n, rep (mode_state ?F s' ?ds),
      take (off + 16) ?o @ mode_text ?F s' ?ds @ drop (off + 16 + 16 * n) ?o)"
    using Suc.IH [of s' "off + 16" ?o] s' Suc.prems len by (simp add: Let_def)
  finally have 1: "aes_blocks (body st key data) (Suc n) off (rep s) out = \<dots>" .
  have 2: "chunks 16 (take (16 * Suc n) (drop off data)) = ?d # ?ds"
    using Suc.prems by (simp add: chunks_step take_drop ac_simps)
  have 3: "take (off + 16) ?o = take off out @ c" "drop (off + 16 + 16 * n) ?o = drop (off + 16 * Suc n) out"
    using s' Suc.prems by (simp_all add: ac_simps)
  show ?case unfolding 1 2 3 by (simp add: f Let_def)
qed

lemma whole_blocks:
  assumes "aes_key_ok key nr w" and "length st = 16" and "ok s"
    and "16 * n \<le> length data" and "16 * n \<le> length out"
  shows "aes_blocks (body st key data) n 0 (rep s) out =
    (let ds = chunks 16 (take (16 * n) data); F = f (fips_cipher nr w) in
       Some (16 * n, rep (mode_state F s ds), mode_text F s ds @ drop (16 * n) out))"
  using blocks_at [of key nr w st s 0 n data out] assms by simp

end


text \<open>The last block of a stream mode is encrypted without padding.\<close>

locale stream_mode = block_mode f rep ok body
  for f :: "(bytes \<Rightarrow> bytes) \<Rightarrow> 's \<Rightarrow> bytes \<Rightarrow> bytes \<times> 's"
    and rep :: "'s \<Rightarrow> 'c"
    and ok :: "'s \<Rightarrow> bool"
    and body :: "bytes \<Rightarrow> mbcrypt_aes_key_t \<Rightarrow> bytes \<Rightarrow> nat \<Rightarrow> 'c \<Rightarrow> bytes \<Rightarrow> ('c \<times> bytes) ub" +
  fixes rest :: "bytes \<Rightarrow> mbcrypt_aes_key_t \<Rightarrow> 'c \<Rightarrow> bytes \<Rightarrow> bytes \<Rightarrow> nat \<Rightarrow> nat \<Rightarrow> bytes ub"
  assumes rest_step: "aes_key_ok key nr w \<Longrightarrow> length st = 16 \<Longrightarrow> ok s \<Longrightarrow> 0 < left \<Longrightarrow> left < 16 \<Longrightarrow>
      off + left \<le> length data \<Longrightarrow> off + left \<le> length out \<Longrightarrow>
      rest st key (rep s) data out off left = Some (take off out
        @ fst (f (fips_cipher nr w) s (take left (drop off data))) @ drop (off + left) out)"
begin

lemma any_length:
  assumes "aes_key_ok key nr w" and "length st = 16" and "ok s"
    and "n \<le> length data" and "n \<le> length out"
  shows "do {
      (off, buf, out) \<leftarrow> aes_blocks (body st key data) (n div 16) 0 (rep s) out;
      if n mod 16 \<noteq> 0 then rest st key buf data out off (n mod 16) else Some out
    } = Some (mode_text (f (fips_cipher nr w)) s (data_blocks (take n data)) @ drop n out)"
proof -
  let ?F = "f (fips_cipher nr w)" and ?m = "n div 16"
  let ?p = "take (16 * ?m) data" and ?t = "take (n mod 16) (drop (16 * ?m) data)"
  let ?ds = "chunks 16 ?p"
  have le: "16 * ?m \<le> length data" "16 * ?m \<le> length out" using assms(4,5) by simp_all
  have sum: "16 * ?m + n mod 16 = n" by simp
  have "take n data = ?p @ ?t" using take_add [of "16 * ?m" "n mod 16" data] sum by simp
  moreover have "length ?p = 16 * ?m" using le by simp
  moreover have "n mod 16 \<le> length data - 16 * ?m" using assms(4) sum by linarith
  then have "length ?t = n mod 16" "length ?t < 16" by simp_all
  ultimately have db: "data_blocks (take n data) = ?ds @ (if n mod 16 = 0 then [] else [?t])"
    using chunks_append [of 16 ?p ?m ?t] tailpart_drop_blocks [of 16 ?p ?m ?t] tailpart_short [of ?t 16]
      chunks_short [of ?t 16]
    by (auto simp: data_blocks_def)
  have "length ?ds = ?m" using le by (simp add: length_chunks)
  moreover have "\<forall>d \<in> set ?ds. length d = 16" using length_chunk [of 16 _ ?p] by simp
  ultimately have st: "ok (mode_state ?F s ?ds)" "length (mode_text ?F s ?ds) = 16 * ?m"
    using state_ok [OF assms(1,3)] by simp_all
  have "aes_blocks (body st key data) ?m 0 (rep s) out =
      Some (16 * ?m, rep (mode_state ?F s ?ds), mode_text ?F s ?ds @ drop (16 * ?m) out)"
    using whole_blocks [OF assms(1-3) le] by (simp add: Let_def)
  moreover have "rest st key (rep (mode_state ?F s ?ds)) data (mode_text ?F s ?ds @ drop (16 * ?m) out) (16 * ?m) (n mod 16)
      = Some (mode_text ?F s ?ds @ fst (?F (mode_state ?F s ?ds) ?t) @ drop n out)" if "n mod 16 \<noteq> 0"
    using rest_step [OF assms(1,2) st(1), of "n mod 16" "16 * ?m" data "mode_text ?F s ?ds @ drop (16 * ?m) out"]
      that assms(4,5) st(2) sum le by (simp add: add.commute)
  moreover have "n mod 16 = 0 \<Longrightarrow> 16 * ?m = n" using sum by linarith
  ultimately show ?thesis by (auto simp: db mode_text_append)
qed

end

subsection \<open>The modes of the code\<close>

interpretation ecb: block_mode ecb_mode "\<lambda>s. s" "\<lambda>s. length s = 16" ecb_block
  by unfold_locales (auto simp: ecb_mode_def ecb_block_def encrypt_at_eq cipher_length)

interpretation cbc: block_mode cbc_mode "\<lambda>s. s" "\<lambda>s. length s = 16" cbc_block
  by unfold_locales
    (auto simp: cbc_mode_def cbc_block_def encrypt_at_eq cipher_length Let_def xor_loop_Some mem_simps xor_bytes_commute)

interpretation xts: block_mode xts_mode "\<lambda>s. s" "\<lambda>s. length (fst s) = 16 \<and> length (snd s) = 16" xts_block
  by unfold_locales
    (auto simp: xts_mode_def xts_block_def encrypt_at_eq cipher_length Let_def xor_loop_Some xor3_loop_eq mem_simps)

lemma last_stream_eq:
  assumes "aes_key_ok key nr w" "length st = 16" "length s = 16" "left < 16"
    and "off + left \<le> length data" "off + left \<le> length out"
  shows "aes_last_stream st key s data out off left = Some (take off out
        @ xor_bytes (take left (drop off data)) (fips_cipher nr w s) @ drop (off + left) out)"
    and "ofb_last st key s data out off left = Some (take off out
        @ xor_bytes (take left (drop off data)) (fips_cipher nr w s) @ drop (off + left) out)"
proof -
  let ?c = "fips_cipher nr w s"
  have c: "length ?c = 16" by (rule cipher_length [OF assms(1,3)])
  have "mbcrypt_aes_encrypt_block st key s (replicate 16 0) = Some ?c"
    using encrypt_block_eq [OF assms(1), of s "replicate 16 0" st] assms by simp
  moreover have "xor_bytes (take left ?c) (take left (drop off data)) = xor_bytes (take left (drop off data)) ?c"
    using assms c by (intro nth_equalityI) (simp_all add: xor_bytes_def xor.commute)
  ultimately show "aes_last_stream st key s data out off left = Some (take off out
        @ xor_bytes (take left (drop off data)) ?c @ drop (off + left) out)"
    and "ofb_last st key s data out off left = Some (take off out
        @ xor_bytes (take left (drop off data)) ?c @ drop (off + left) out)"
    using assms c by (simp_all add: aes_last_stream_def ofb_last_def xor3_loop_eq mem_simps add.commute)
qed

lemma ctr_inc_block: "ctr_inc (be_bytes 16 n) 15 = Some (be_bytes 16 (n + 1))"
  using ctr_inc_eq [of 15 n "[]"] by simp

interpretation ofb: stream_mode ofb_mode "\<lambda>s. s" "\<lambda>s. length s = 16" ofb_block ofb_last
  by unfold_locales
    (auto simp: ofb_mode_def ofb_block_def encrypt_at_eq cipher_length mem_simps xor_data_at_eq last_stream_eq xor_bytes_commute)

interpretation cfb: stream_mode cfb_mode "\<lambda>s. s" "\<lambda>s. length s = 16" cfb_block aes_last_stream
  by unfold_locales
    (auto simp: cfb_mode_def cfb_block_def encrypt_at_eq cipher_length mem_simps Let_def xor3_loop_eq last_stream_eq)

interpretation ctr: stream_mode ctr_mode "be_bytes 16" "\<lambda>_. True" ctr_block aes_last_stream
  by unfold_locales
    (auto simp: ctr_mode_def ctr_block_def encrypt_at_eq cipher_length xor_data_at_eq last_stream_eq ctr_inc_block
      xor_bytes_commute)

subsection \<open>The functions of the modes\<close>

lemma full_blocks_eq: "full_blocks n = unat n div 16"
  unfolding full_blocks_def unat_drop_bit_eq by (simp add: drop_bit_eq_div)

lemma left_data_eq: "left_data n = unat n mod 16"
  using unat_and_mask_u32 [of n 4] by (simp add: left_data_def mask_eq_exp_minus_1)

text \<open>\<open>input_ok\<close>: the buffers are as long as the lengths say, and the vector has a block.\<close>

definition input_ok :: "mbcrypt_aes_input_t \<Rightarrow> bytes \<Rightarrow> bool" where
  "input_ok inp out \<longleftrightarrow> 16 \<le> length (in_iv inp) \<and> unat (in_data_len inp) \<le> length (in_data inp)
     \<and> unat (in_data_len inp) \<le> length out"

definition in_text :: "mbcrypt_aes_input_t \<Rightarrow> bytes" where
  "in_text inp = take (unat (in_data_len inp)) (in_data inp)"

abbreviation out_rest :: "mbcrypt_aes_input_t \<Rightarrow> bytes \<Rightarrow> bytes" where
  "out_rest inp out \<equiv> drop (unat (in_data_len inp)) out"


lemmas mode_defs = mbcrypt_aes_ecb_encrypt_ex_def mbcrypt_aes_cbc_encrypt_ex_def mbcrypt_aes_ofb_encrypt_ex_def
  mbcrypt_aes_cfb_encrypt_ex_def mbcrypt_aes_ctr_encrypt_ex_def mbcrypt_aes_xts_encrypt_ex_def

lemmas mode_simps = mode_defs mem_simps full_blocks_eq left_data_eq in_text_def input_ok_def Let_def

lemma ofb_value: "aes_key_ok key nr w \<Longrightarrow> length st = 16 \<Longrightarrow> input_ok inp out \<Longrightarrow>
    mbcrypt_aes_ofb_encrypt_ex st key inp out =
      Some (mode_text (ofb_mode (fips_cipher nr w)) (take 16 (in_iv inp)) (data_blocks (in_text inp)) @ out_rest inp out)"
  using ofb.any_length [of key nr w st "take 16 (in_iv inp)" "unat (in_data_len inp)" "in_data inp" out]
  by (simp add: mode_simps)

lemma cfb_value: "aes_key_ok key nr w \<Longrightarrow> length st = 16 \<Longrightarrow> input_ok inp out \<Longrightarrow>
    mbcrypt_aes_cfb_encrypt_ex st key inp out =
      Some (mode_text (cfb_mode (fips_cipher nr w)) (take 16 (in_iv inp)) (data_blocks (in_text inp)) @ out_rest inp out)"
  using cfb.any_length [of key nr w st "take 16 (in_iv inp)" "unat (in_data_len inp)" "in_data inp" out]
  by (simp add: mode_simps)

lemma ctr_value: "aes_key_ok key nr w \<Longrightarrow> length st = 16 \<Longrightarrow> input_ok inp out \<Longrightarrow> take 16 (in_iv inp) = be_bytes 16 n \<Longrightarrow>
    mbcrypt_aes_ctr_encrypt_ex st key inp out =
      Some (mode_text (ctr_mode (fips_cipher nr w)) n (data_blocks (in_text inp)) @ out_rest inp out)"
  using ctr.any_length [of key nr w st "unat (in_data_len inp)" "in_data inp" out n]
  by (simp add: mode_simps)

text \<open>The modes that pad their last block, on whole blocks.\<close>

lemma ecb_value: "aes_key_ok key nr w \<Longrightarrow> length st = 16 \<Longrightarrow> input_ok inp out \<Longrightarrow> 16 dvd unat (in_data_len inp) \<Longrightarrow>
    mbcrypt_aes_ecb_encrypt_ex st key inp out =
      Some (mode_text (ecb_mode (fips_cipher nr w)) (replicate 16 0) (chunks 16 (in_text inp)) @ out_rest inp out)"
  using ecb.whole_blocks [of key nr w st "replicate 16 0" "unat (in_data_len inp) div 16" "in_data inp" out]
  by (simp add: mode_simps)

lemma cbc_value: "aes_key_ok key nr w \<Longrightarrow> length st = 16 \<Longrightarrow> input_ok inp out \<Longrightarrow> 16 dvd unat (in_data_len inp) \<Longrightarrow>
    mbcrypt_aes_cbc_encrypt_ex st key inp out =
      Some (mode_text (cbc_mode (fips_cipher nr w)) (take 16 (in_iv inp)) (chunks 16 (in_text inp)) @ out_rest inp out)"
  using cbc.whole_blocks [of key nr w st "take 16 (in_iv inp)" "unat (in_data_len inp) div 16" "in_data inp" out]
  by (simp add: mode_simps)

lemma xts_value: "aes_key_ok key nr w \<Longrightarrow> length st = 16 \<Longrightarrow> length T = 16 \<Longrightarrow> input_ok inp out \<Longrightarrow>
    16 dvd unat (in_data_len inp) \<Longrightarrow>
    mbcrypt_aes_xts_encrypt_ex T st key inp out =
      Some (mode_text (xts_mode (fips_cipher nr w)) (fips_cipher nr w (take 16 (in_iv inp)), replicate 16 0)
        (chunks 16 (in_text inp)) @ out_rest inp out)"
  using xts.whole_blocks [of key nr w st "(fips_cipher nr w (take 16 (in_iv inp)), replicate 16 0)"
      "unat (in_data_len inp) div 16" "in_data inp" out]
  by (simp add: mode_simps encrypt_block_eq cipher_length split: prod.splits)

text \<open>Data that does not end with a block makes the padding loops write outside \<open>buf\<close>.\<close>

lemma pad_loops_overrun:
  "length buf = 16 \<Longrightarrow> i < 16 \<Longrightarrow> pad_loop buf i (17 - i) pad = None"
  "length buf = 16 \<Longrightarrow> i < 16 \<Longrightarrow> pad_xor_loop buf i (17 - i) pad = None"
proof -
  have *: "i + n = 17 \<Longrightarrow> length buf = 16 \<Longrightarrow> i \<le> 16 \<Longrightarrow> pad_loop buf i n pad = None \<and> pad_xor_loop buf i n pad = None"
    for i n buf by (induction n arbitrary: i buf) (auto simp: wr_def rd_def xor_at_def)
  then show "length buf = 16 \<Longrightarrow> i < 16 \<Longrightarrow> pad_loop buf i (17 - i) pad = None"
    and "length buf = 16 \<Longrightarrow> i < 16 \<Longrightarrow> pad_xor_loop buf i (17 - i) pad = None"
    using * [of i "17 - i" buf] by simp_all
qed

lemma last_overruns:
  assumes "length buf = 16" and "left < 16"
  shows "ecb_last st key buf data out off left = None" and "cbc_last st key buf data out off left = None"
proof -
  have "memcpy_at buf 0 (drop off data) left \<bind> (\<lambda>buf. pad_loop buf left (17 - left) pad \<bind> k) = None" for pad k
    using assms by (cases "memcpy_at buf 0 (drop off data) left")
      (auto dest!: length_memcpy_at simp: pad_loops_overrun)
  then show "ecb_last st key buf data out off left = None" by (simp add: ecb_last_def Let_def)
  show "cbc_last st key buf data out off left = None"
    using assms by (simp add: cbc_last_def pad_loops_overrun)
qed

lemma padding_overruns:
  assumes "aes_key_ok key nr w" and "length st = 16" and "input_ok inp out" and "\<not> 16 dvd unat (in_data_len inp)"
  shows "mbcrypt_aes_ecb_encrypt_ex st key inp out = None"
    and "mbcrypt_aes_cbc_encrypt_ex st key inp out = None"
proof -
  let ?n = "unat (in_data_len inp)"
  let ?ds = "chunks 16 (take (16 * (?n div 16)) (in_data inp))"
  have l: "0 < ?n mod 16" "?n mod 16 < 16" "16 * (?n div 16) + ?n mod 16 = ?n"
    using assms(4) by (simp_all add: dvd_eq_mod_eq_0)
  have ds: "\<forall>d \<in> set ?ds. length d = 16" using length_chunk [of 16 _ "take (16 * (?n div 16)) (in_data inp)"] by simp
  have e: "length (mode_state (ecb_mode (fips_cipher nr w)) (replicate 16 0) ?ds) = 16"
    using ecb.state_ok [OF assms(1) _ ds, of "replicate 16 0"] by simp
  have c: "length (mode_state (cbc_mode (fips_cipher nr w)) (take 16 (in_iv inp)) ?ds) = 16"
    using cbc.state_ok [OF assms(1) _ ds, of "take 16 (in_iv inp)"] assms(3) by (simp add: input_ok_def)
  have le: "16 * (?n div 16) \<le> length (in_data inp)" "16 * (?n div 16) \<le> length out"
    using assms(3) l(3) unfolding input_ok_def by linarith+
  show "mbcrypt_aes_ecb_encrypt_ex st key inp out = None"
    using ecb.whole_blocks [OF assms(1,2) _ le(1,2), of "replicate 16 0"] l e
    by (simp add: mode_simps last_overruns)
  show "mbcrypt_aes_cbc_encrypt_ex st key inp out = None"
    using cbc.whole_blocks [OF assms(1,2) _ le(1,2), of "take 16 (in_iv inp)"] assms(3) l c
    by (simp add: mode_simps last_overruns)
qed

end
