(* ===== verification/Aes_Api.thy ===== *)
theory Aes_Api
  imports Aes_Modes_Spec
begin

text \<open>
  The properties of \<open>src/aes.c\<close>: setting up a key, encrypting and decrypting a block, and the entry
  point \<open>mbcrypt_aes_encrypt\<close> in every mode, its errors included.
\<close>

subsection \<open>AES by the type of the key\<close>

fun aes_key_words :: "mbcrypt_aes_type_e \<Rightarrow> nat" where
  "aes_key_words AES128 = 4"
| "aes_key_words AES192 = 6"
| "aes_key_words AES256 = 8"

fun aes_rounds :: "mbcrypt_aes_type_e \<Rightarrow> nat" where
  "aes_rounds AES128 = 10"
| "aes_rounds AES192 = 12"
| "aes_rounds AES256 = 14"

definition aes_schedule :: "mbcrypt_aes_type_e \<Rightarrow> bytes \<Rightarrow> bytes" where
  "aes_schedule t key = fips_key_expansion (aes_key_words t) (aes_rounds t) key"

definition aes_cipher :: "mbcrypt_aes_type_e \<Rightarrow> bytes \<Rightarrow> bytes \<Rightarrow> bytes" where
  "aes_cipher t key = fips_cipher (aes_rounds t) (aes_schedule t key)"

definition aes_inv_cipher :: "mbcrypt_aes_type_e \<Rightarrow> bytes \<Rightarrow> bytes \<Rightarrow> bytes" where
  "aes_inv_cipher t key = fips_inv_cipher (aes_rounds t) (aes_schedule t key)"

lemma aes_tables [simp]:
  "aes_Nk (aes_type_code t) = Some (aes_key_words t)" "aes_Nr (aes_type_code t) = Some (aes_rounds t)"
  by (cases t; simp add: aes_Nk_def aes_Nr_def mbcrypt_aes_info_def rd_def)+

lemma aes_sizes:
  "0 < aes_key_words t" "0 < aes_rounds t" "aes_rounds t \<le> 14" "4 * aes_key_words t \<le> 32"
  by (cases t; simp)+

lemma aes_type_code_eq [simp]: "aes_type_code s = aes_type_code t \<longleftrightarrow> s = t"
  by (cases s; cases t) simp_all

text \<open>The schedule reads only the key, and the cipher only the schedule.\<close>

lemma key_word_prefix: "4 * nk \<le> length key \<Longrightarrow> 0 < nk \<Longrightarrow> fips_key_word nk (key @ r) i = fips_key_word nk key i"
proof (induction nk key i rule: fips_key_word.induct)
  case (1 nk key i)
  show ?case
  proof (cases "i < nk")
    case True
    then have "4 * i + 4 \<le> length key" using 1 by linarith
    then show ?thesis using True by (simp add: fips_key_word.simps [of nk _ i])
  next
    case False
    then show ?thesis using 1 by (simp add: fips_key_word.simps [of nk _ i])
  qed
qed

lemma schedule_prefix: "length key = 4 * aes_key_words t \<Longrightarrow> aes_schedule t (key @ r) = aes_schedule t key"
proof -
  assume "length key = 4 * aes_key_words t"
  then have "fips_key_word (aes_key_words t) (key @ r) = fips_key_word (aes_key_words t) key"
    by (intro ext key_word_prefix) (simp_all add: aes_sizes)
  then show ?thesis by (simp add: aes_schedule_def fips_key_expansion_def)
qed

lemma length_schedule: "length key = 4 * aes_key_words t \<Longrightarrow> length (aes_schedule t key) = 16 * (aes_rounds t + 1)"
  using length_concat4 [of "fips_key_word (aes_key_words t) key" "4 * (aes_rounds t + 1)"]
  by (simp add: aes_schedule_def fips_key_expansion_def length_key_word aes_sizes)

lemma add_round_key_prefix:
  "16 * n + 16 \<le> length w \<Longrightarrow> fips_add_round_key (w @ r) n s = fips_add_round_key w n s"
  by (simp add: fips_add_round_key_def fips_round_key_def)

lemma rounds_prefix:
  "16 * n + 16 \<le> length w \<Longrightarrow> fips_rounds (w @ r) n s = fips_rounds w n s"
  "16 * n + 16 \<le> length w \<Longrightarrow> fips_inv_rounds (w @ r) n s = fips_inv_rounds w n s"
  by (induction n arbitrary: s) (simp_all add: add_round_key_prefix)

lemma cipher_prefix:
  assumes "16 * nr + 16 \<le> length w"
  shows "fips_cipher nr (w @ r) = fips_cipher nr w" and "fips_inv_cipher nr (w @ r) = fips_inv_cipher nr w"
proof -
  have "16 * (nr - 1) + 16 \<le> length w" if "0 < nr" using assms that by simp
  then show "fips_cipher nr (w @ r) = fips_cipher nr w" and "fips_inv_cipher nr (w @ r) = fips_inv_cipher nr w"
    using assms by (cases nr; auto simp: fips_cipher_def fips_inv_cipher_def add_round_key_prefix rounds_prefix)+
qed

subsection \<open>Setting up a key\<close>

text \<open>A key of the right length, and a \<open>malloc\<close> that gives the room for its schedule.\<close>

definition aes_key_input_ok :: "(nat \<Rightarrow> bytes ptr) \<Rightarrow> mbcrypt_aes_type_e \<Rightarrow> bytes ptr \<Rightarrow> u32 \<Rightarrow> bool" where
  "aes_key_input_ok malloc t key n \<longleftrightarrow> unat n = 4 * aes_key_words t
     \<and> (case key of None \<Rightarrow> False | Some key \<Rightarrow> unat n \<le> length key)
     \<and> (case malloc (16 * (aes_rounds t + 1)) of None \<Rightarrow> False | Some w \<Rightarrow> 16 * (aes_rounds t + 1) \<le> length w)"

definition aes_key_bytes :: "bytes ptr \<Rightarrow> u32 \<Rightarrow> bytes" where
  "aes_key_bytes key n = take (unat n) (the key)"

definition aes_key_setup :: "(nat \<Rightarrow> bytes ptr) \<Rightarrow> aes_hash_fn \<Rightarrow> aes_hash_fn \<Rightarrow> aes_hash_fn \<Rightarrow> u32 \<Rightarrow> u32 \<Rightarrow>
    bytes ptr \<Rightarrow> u32 \<Rightarrow> mbcrypt_aes_key_t ptr \<Rightarrow> (mbcrypt_status_e \<times> mbcrypt_aes_key_t ptr) ub" where
  "aes_key_setup malloc sha1 sha256 sha512 t e key n k =
     MBCRYPT_CHECK_RES (mbcrypt_aes_key_init malloc t k)
       (\<lambda>k. mbcrypt_aes_key_expand sha1 sha256 sha512 e key n k)"

lemma key_init_eq:
  "mbcrypt_aes_key_init malloc (aes_type_code t) (Some k) =
     (let w = malloc (16 * (aes_rounds t + 1)) in
        Some (if w = None then MBCRYPT_STATUS_FAIL_NULL_PTR else MBCRYPT_STATUS_OK,
          Some (k\<lparr>key_type := aes_type_code t, key_w := Some w\<rparr>)))"
  by (cases t) (simp_all add: mbcrypt_aes_key_init_def aes_Nr_def mbcrypt_aes_info_def rd_def Let_def)

lemma key_setup_eq:
  assumes ok: "aes_key_input_ok malloc t key n"
  shows "aes_key_setup malloc sha1 sha256 sha512 (aes_type_code t)
      (aes_key_expansion_code MBCRYPT_AES_KEY_EXPANSION_NOT_REQUIRED) key n (Some k) =
    Some (MBCRYPT_STATUS_OK, Some (k\<lparr>key_type := aes_type_code t,
      key_w := Some (Some (aes_schedule t (aes_key_bytes key n)
        @ drop (16 * (aes_rounds t + 1)) (the (malloc (16 * (aes_rounds t + 1))))))\<rparr>))"
proof -
  obtain K w where K: "key = Some K" "unat n \<le> length K" and w: "malloc (16 * (aes_rounds t + 1)) = Some w"
    "16 * (aes_rounds t + 1) \<le> length w" and n: "unat n = 4 * aes_key_words t"
    using ok by (auto simp: aes_key_input_ok_def split: option.splits)
  let ?K = "take (unat n) K" and ?z = "replicate (64 - unat n) (0 :: u8)"
  have lK: "length ?K = 4 * aes_key_words t" using K n by simp
  have "unat n \<le> 64" using n aes_sizes(4) [of t] by simp
  then have copy: "memcpy_at (replicate 64 0) 0 K (unat n) = Some (?K @ ?z)"
    using K by (simp add: mem_simps)
  have len: "n = of_nat (aes_key_words t * 4)"
    using n by (cases t) (simp_all add: word_unat_eq_iff)
  have "mbcrypt_aes_expand_key (aes_type_code t) (?K @ ?z) w =
      Some (aes_schedule t (?K @ ?z) @ drop (16 * (aes_rounds t + 1)) w)"
    unfolding aes_schedule_def
    by (rule expand_key_eq) (use lK w in simp_all)
  then have ex: "mbcrypt_aes_expand_key (aes_type_code t) (?K @ ?z) w =
      Some (aes_schedule t ?K @ drop (16 * (aes_rounds t + 1)) w)"
    unfolding schedule_prefix [OF lK] .
  show ?thesis
    unfolding aes_key_setup_def key_init_eq w(1) Let_def K(1)
    using copy ex len by (simp add: mbcrypt_aes_key_expand_def Let_def aes_key_bytes_def w(1))
qed


text \<open>The key after that is fit for the block functions, and its cipher is that of the standard.\<close>

lemma key_setup_ready:
  assumes ok: "aes_key_input_ok malloc t key n"
  obtains k w where "aes_key_setup malloc sha1 sha256 sha512 (aes_type_code t)
      (aes_key_expansion_code MBCRYPT_AES_KEY_EXPANSION_NOT_REQUIRED) key n (Some k0) = Some (MBCRYPT_STATUS_OK, Some k)"
    and "aes_key_ok k (aes_rounds t) w"
    and "fips_cipher (aes_rounds t) w = aes_cipher t (aes_key_bytes key n)"
    and "fips_inv_cipher (aes_rounds t) w = aes_inv_cipher t (aes_key_bytes key n)"
proof -
  let ?K = "aes_key_bytes key n" and ?r = "drop (16 * (aes_rounds t + 1)) (the (malloc (16 * (aes_rounds t + 1))))"
  let ?w = "aes_schedule t ?K @ ?r"
  have "length ?K = 4 * aes_key_words t"
    using ok by (auto simp: aes_key_input_ok_def aes_key_bytes_def split: option.splits)
  then have len: "length (aes_schedule t ?K) = 16 * (aes_rounds t + 1)" by (rule length_schedule)
  show thesis
  proof (rule that [OF key_setup_eq [OF ok]])
    show "aes_key_ok (k0\<lparr>key_type := aes_type_code t, key_w := Some (Some ?w)\<rparr>) (aes_rounds t) ?w"
      using len by (simp add: aes_key_ok_def aes_sizes)
  qed (use len in \<open>simp_all add: aes_cipher_def aes_inv_cipher_def cipher_prefix\<close>)
qed

lemma length_aes_cipher:
  "length key = 4 * aes_key_words t \<Longrightarrow> length b = 16 \<Longrightarrow> length (aes_cipher t key b) = 16"
  unfolding aes_cipher_def by (rule length_fips_cipher) (simp_all add: length_schedule aes_sizes)

subsection \<open>The entry point\<close>

definition aes_call_ok :: "(nat \<Rightarrow> bytes ptr) \<Rightarrow> mbcrypt_aes_type_e \<Rightarrow> mbcrypt_aes_input_t \<Rightarrow> bytes \<Rightarrow> bool" where
  "aes_call_ok malloc t inp out \<longleftrightarrow>
     aes_key_input_ok malloc t (in_key inp) (in_key_len inp) \<and> input_ok inp out"

definition in_key_bytes :: "mbcrypt_aes_input_t \<Rightarrow> bytes" where
  "in_key_bytes inp = aes_key_bytes (in_key inp) (in_key_len inp)"

definition in_iv_block :: "mbcrypt_aes_input_t \<Rightarrow> bytes" where
  "in_iv_block inp = take 16 (in_iv inp)"

lemma length_in_key: "aes_call_ok malloc t inp out \<Longrightarrow> length (in_key_bytes inp) = 4 * aes_key_words t"
  by (auto simp: aes_call_ok_def aes_key_input_ok_def in_key_bytes_def aes_key_bytes_def split: option.splits)

abbreviation aes_plain_key :: u32 where
  "aes_plain_key \<equiv> aes_key_expansion_code MBCRYPT_AES_KEY_EXPANSION_NOT_REQUIRED"

definition be_value :: "bytes \<Rightarrow> nat" where
  "be_value b = foldl (\<lambda>n x. n * 256 + unat x) 0 b"

lemma be_bytes_value: "be_bytes (length b) (be_value b) = b"
proof (induction b rule: rev_induct)
  case (snoc x b)
  have "unat x < 256" using unsigned_less [of x] by simp
  then have "unat x div 256 = 0" by simp
  moreover have "(256 :: u8) = 0" by simp
  then have "z * 256 = (0 :: u8)" for z by (simp only: mult_zero_right)
  ultimately show ?case using snoc by (simp add: be_bytes_Suc be_value_def)
qed (simp add: be_bytes_def)

text \<open>What the modes give for the data, under the cipher \<open>E\<close> and the initial vector.\<close>

fun aes_stream_text :: "mbcrypt_aes_mode_e \<Rightarrow> (bytes \<Rightarrow> bytes) \<Rightarrow> bytes \<Rightarrow> bytes \<Rightarrow> bytes" where
  "aes_stream_text MBCRYPT_AES_OFB E iv data = mode_text (ofb_mode E) iv (data_blocks data)"
| "aes_stream_text MBCRYPT_AES_CFB E iv data = mode_text (cfb_mode E) iv (data_blocks data)"
| "aes_stream_text MBCRYPT_AES_CTR E iv data = mode_text (ctr_mode E) (be_value iv) (data_blocks data)"
| "aes_stream_text _ E iv data = []"

fun aes_block_text :: "mbcrypt_aes_mode_e \<Rightarrow> (bytes \<Rightarrow> bytes) \<Rightarrow> bytes \<Rightarrow> bytes \<Rightarrow> bytes" where
  "aes_block_text MBCRYPT_AES_ECB E iv data = concat (map E (chunks 16 data))"
| "aes_block_text MBCRYPT_AES_CBC E iv data = mode_text (cbc_mode E) iv (chunks 16 data)"
| "aes_block_text MBCRYPT_AES_XTS E iv data = mode_text (xts_mode E) (E iv, replicate 16 0) (chunks 16 data)"
| "aes_block_text _ E iv data = []"

lemma ecb_text: "mode_text (ecb_mode E) s ds = concat (map E ds)"
  by (induction ds arbitrary: s) (simp_all add: ecb_mode_def)

text \<open>A call with a good key reaches the \<open>switch\<close> with the cipher of the standard.\<close>

lemma encrypt_call:
  assumes "aes_call_ok malloc t inp out"
  obtains k w where "aes_key_ok k (aes_rounds t) w"
    and "fips_cipher (aes_rounds t) w = aes_cipher t (in_key_bytes inp)"
    and "\<And>o'. mbcrypt_aes_encrypt malloc sha1 sha256 sha512 T st t0 mode (aes_type_code t) aes_plain_key inp o' = do {
        buf \<leftarrow> aes_mode_switch T st mode k inp (out_buf o');
        Some (MBCRYPT_STATUS_OK, o'\<lparr>out_buf := buf\<rparr>)
      }"
proof -
  have key: "aes_key_input_ok malloc t (in_key inp) (in_key_len inp)" using assms by (simp add: aes_call_ok_def)
  obtain k w where k: "aes_key_setup malloc sha1 sha256 sha512 (aes_type_code t) aes_plain_key
      (in_key inp) (in_key_len inp) (Some \<lparr>key_w = None, key_type = t0\<rparr>) = Some (MBCRYPT_STATUS_OK, Some k)"
    and w: "aes_key_ok k (aes_rounds t) w"
    and E: "fips_cipher (aes_rounds t) w = aes_cipher t (in_key_bytes inp)"
    unfolding in_key_bytes_def by (rule key_setup_ready [OF key, of sha1 sha256 sha512 "\<lparr>key_w = None, key_type = t0\<rparr>"])
  have "mbcrypt_aes_key_free (Some k) = Some ()" using w by (simp add: mbcrypt_aes_key_free_def aes_key_ok_def)
  then have "mbcrypt_aes_encrypt malloc sha1 sha256 sha512 T st t0 mode (aes_type_code t) aes_plain_key inp o' = do {
        buf \<leftarrow> aes_mode_switch T st mode k inp (out_buf o');
        Some (MBCRYPT_STATUS_OK, o'\<lparr>out_buf := buf\<rparr>)
      }" for o'
    unfolding mbcrypt_aes_encrypt_def Let_def k [unfolded aes_key_setup_def] by simp
  then show thesis using that w E by blast
qed

lemma stream_call:
  assumes ok: "aes_call_ok malloc t inp (out_buf out)" and st: "length st = 16"
    and mode: "mode \<in> {MBCRYPT_AES_OFB, MBCRYPT_AES_CFB, MBCRYPT_AES_CTR}"
  shows "mbcrypt_aes_encrypt malloc sha1 sha256 sha512 T st t0 (aes_mode_code mode) (aes_type_code t) aes_plain_key inp out
    = Some (MBCRYPT_STATUS_OK, out\<lparr>out_buf :=
        aes_stream_text mode (aes_cipher t (in_key_bytes inp)) (in_iv_block inp) (in_text inp)
        @ out_rest inp (out_buf out)\<rparr>)"
proof (rule encrypt_call [OF ok, of sha1 sha256 sha512 T st t0 "aes_mode_code mode"])
  fix k w assume w: "aes_key_ok k (aes_rounds t) w"
    and E: "fips_cipher (aes_rounds t) w = aes_cipher t (in_key_bytes inp)"
    and call: "\<And>o'. mbcrypt_aes_encrypt malloc sha1 sha256 sha512 T st t0 (aes_mode_code mode) (aes_type_code t)
        aes_plain_key inp o' = do {
        buf \<leftarrow> aes_mode_switch T st (aes_mode_code mode) k inp (out_buf o');
        Some (MBCRYPT_STATUS_OK, o'\<lparr>out_buf := buf\<rparr>)
      }"
  have io: "input_ok inp (out_buf out)" using ok by (simp add: aes_call_ok_def)
  have iv: "in_iv_block inp = be_bytes 16 (be_value (in_iv_block inp))"
    using io be_bytes_value [of "in_iv_block inp"] by (simp add: in_iv_block_def input_ok_def)
  show ?thesis
    unfolding call
    using mode ofb_value [OF w st io] cfb_value [OF w st io] ctr_value [OF w st io iv [unfolded in_iv_block_def]]
    by (auto simp: aes_mode_switch_def E in_iv_block_def)
qed


lemma block_call:
  assumes ok: "aes_call_ok malloc t inp (out_buf out)" and st: "length st = 16" and T: "length T = 16"
    and mode: "mode \<in> {MBCRYPT_AES_ECB, MBCRYPT_AES_CBC, MBCRYPT_AES_XTS}" and len: "16 dvd unat (in_data_len inp)"
  shows "mbcrypt_aes_encrypt malloc sha1 sha256 sha512 T st t0 (aes_mode_code mode) (aes_type_code t) aes_plain_key inp out
    = Some (MBCRYPT_STATUS_OK, out\<lparr>out_buf :=
        aes_block_text mode (aes_cipher t (in_key_bytes inp)) (in_iv_block inp) (in_text inp)
        @ out_rest inp (out_buf out)\<rparr>)"
proof (rule encrypt_call [OF ok, of sha1 sha256 sha512 T st t0 "aes_mode_code mode"])
  fix k w assume w: "aes_key_ok k (aes_rounds t) w"
    and E: "fips_cipher (aes_rounds t) w = aes_cipher t (in_key_bytes inp)"
    and call: "\<And>o'. mbcrypt_aes_encrypt malloc sha1 sha256 sha512 T st t0 (aes_mode_code mode) (aes_type_code t)
        aes_plain_key inp o' = do {
        buf \<leftarrow> aes_mode_switch T st (aes_mode_code mode) k inp (out_buf o');
        Some (MBCRYPT_STATUS_OK, o'\<lparr>out_buf := buf\<rparr>)
      }"
  have io: "input_ok inp (out_buf out)" using ok by (simp add: aes_call_ok_def)
  show ?thesis
    unfolding call
    using mode ecb_value [OF w st io len] cbc_value [OF w st io len] xts_value [OF w st T io len]
    by (auto simp: aes_mode_switch_def E in_iv_block_def ecb_text)
qed

lemma padded_call:
  assumes ok: "aes_call_ok malloc t inp (out_buf out)" and st: "length st = 16"
    and mode: "mode \<in> {MBCRYPT_AES_ECB, MBCRYPT_AES_CBC}" and len: "\<not> 16 dvd unat (in_data_len inp)"
  shows "mbcrypt_aes_encrypt malloc sha1 sha256 sha512 T st t0 (aes_mode_code mode) (aes_type_code t) aes_plain_key inp out
    = None"
proof (rule encrypt_call [OF ok, of sha1 sha256 sha512 T st t0 "aes_mode_code mode"])
  fix k w assume w: "aes_key_ok k (aes_rounds t) w"
    and call: "\<And>o'. mbcrypt_aes_encrypt malloc sha1 sha256 sha512 T st t0 (aes_mode_code mode) (aes_type_code t)
        aes_plain_key inp o' = do {
        buf \<leftarrow> aes_mode_switch T st (aes_mode_code mode) k inp (out_buf o');
        Some (MBCRYPT_STATUS_OK, o'\<lparr>out_buf := buf\<rparr>)
      }"
  have io: "input_ok inp (out_buf out)" using ok by (simp add: aes_call_ok_def)
  show ?thesis
    unfolding call using mode padding_overruns [OF w st io len] by (auto simp: aes_mode_switch_def)
qed

subsection \<open>Keystream modes are involutions\<close>

lemma data_blocks_rec:
  "data_blocks xs = (if xs = [] then [] else if length xs < 16 then [xs] else take 16 xs # data_blocks (drop 16 xs))"
proof (cases "length xs < 16")
  case True
  then show ?thesis by (simp add: data_blocks_def chunks_short tailpart_short)
next
  case False
  then have "tailpart 16 xs = tailpart 16 (drop 16 xs)"
    using tailpart_drop_blocks [of 16 "take 16 xs" 1 "drop 16 xs"] by simp
  then show ?thesis using False by (auto simp: data_blocks_def chunks_step)
qed

lemma xor_bytes_Nil: "xor_bytes xs ys = [] \<longleftrightarrow> xs = [] \<or> ys = []"
  by (simp add: xor_bytes_def)

lemma keystream_twice:
  assumes ks: "\<And>s. ok s \<Longrightarrow> length (ks s) = 16 \<and> ok (nx s)" and f: "\<And>s d. f s d = (xor_bytes d (ks s), nx s)"
  shows "ok s \<Longrightarrow> length (mode_text f s (data_blocks xs)) = length xs
    \<and> mode_text f s (data_blocks (mode_text f s (data_blocks xs))) = xs"
proof (induction "length xs" arbitrary: xs s rule: less_induct)
  case less
  have l: "length (ks s) = 16" using ks less.prems by blast
  have x: "length a \<le> 16 \<Longrightarrow> xor_bytes (xor_bytes a (ks s)) (ks s) = a" for a
    using l by (intro nth_equalityI) (simp_all add: xor_bytes_def xor.assoc)
  consider "xs = []" | "xs \<noteq> []" "length xs < 16" | "16 \<le> length xs" by linarith
  then show ?case
  proof cases
    case 1
    then show ?thesis by (simp add: data_blocks_rec [of "[]"])
  next
    case 2
    then have "xor_bytes xs (ks s) \<noteq> []" using l by (auto simp: xor_bytes_Nil)
    then show ?thesis using 2 l x [of xs] by (simp add: data_blocks_rec f)
  next
    case 3
    let ?a = "take 16 xs" and ?b = "drop 16 xs"
    have IH: "length (mode_text f (nx s) (data_blocks ?b)) = length ?b"
      "mode_text f (nx s) (data_blocks (mode_text f (nx s) (data_blocks ?b))) = ?b"
      using less.hyps [of ?b "nx s"] ks [OF less.prems] 3 by auto
    have "mode_text f s (data_blocks xs) = xor_bytes ?a (ks s) @ mode_text f (nx s) (data_blocks ?b)"
      using 3 by (subst data_blocks_rec) (auto simp: f)
    moreover have "data_blocks (xor_bytes ?a (ks s) @ y) = xor_bytes ?a (ks s) # data_blocks y" for y
      using 3 l by (subst data_blocks_rec) (auto simp: xor_bytes_Nil)
    ultimately show ?thesis using 3 l IH x [of ?a] by (simp add: f)
  qed
qed


lemma stream_text_twice:
  assumes mode: "mode \<in> {MBCRYPT_AES_OFB, MBCRYPT_AES_CTR}"
    and E: "\<And>b. length b = 16 \<Longrightarrow> length (E b) = 16" and iv: "length iv = 16"
  shows "length (aes_stream_text mode E iv data) = length data"
    and "aes_stream_text mode E iv (aes_stream_text mode E iv data) = data"
proof -
  have ofb: "length (mode_text (ofb_mode E) iv (data_blocks data)) = length data
      \<and> mode_text (ofb_mode E) iv (data_blocks (mode_text (ofb_mode E) iv (data_blocks data))) = data"
    by (rule keystream_twice [where ok = "\<lambda>s. length s = 16" and ks = E and nx = E]) (simp_all add: ofb_mode_def E iv)
  have ctr: "length (mode_text (ctr_mode E) n (data_blocks data)) = length data
      \<and> mode_text (ctr_mode E) n (data_blocks (mode_text (ctr_mode E) n (data_blocks data))) = data" for n
    by (rule keystream_twice [where ok = "\<lambda>_. True" and ks = "\<lambda>n. E (be_bytes 16 n)" and nx = Suc])
      (simp_all add: ctr_mode_def E)
  show "length (aes_stream_text mode E iv data) = length data"
    and "aes_stream_text mode E iv (aes_stream_text mode E iv data) = data"
    using mode ofb ctr by auto
qed

subsection \<open>Properties\<close>

text \<open>
  C11. OFB, CFB and CTR encrypt data of any length as SP 800-38A defines them over the cipher of
  FIPS 197 with the key schedule of the caller's key: \<open>mbcrypt_aes_encrypt\<close> returns
  \<open>MBCRYPT_STATUS_OK\<close>, the text is as long as the data, and the rest of the buffer is unchanged.
\<close>

theorem aes_stream_modes:
  assumes "aes_call_ok malloc t inp (out_buf out)" and "length st = 16"
    and "mode \<in> {MBCRYPT_AES_OFB, MBCRYPT_AES_CFB, MBCRYPT_AES_CTR}"
  shows "mbcrypt_aes_encrypt malloc sha1 sha256 sha512 T st t0 (aes_mode_code mode) (aes_type_code t) aes_plain_key inp out
    = Some (MBCRYPT_STATUS_OK, out\<lparr>out_buf :=
        aes_stream_text mode (aes_cipher t (in_key_bytes inp)) (in_iv_block inp) (in_text inp)
        @ drop (unat (in_data_len inp)) (out_buf out)\<rparr>)"
  using assms by (rule stream_call)

text \<open>A call for the witnesses: a key of \<open>kl\<close> bytes and \<open>n\<close> bytes of data.\<close>

definition sample_input :: "u32 \<Rightarrow> u32 \<Rightarrow> mbcrypt_aes_input_t" where
  "sample_input kl n = \<lparr>in_key = Some (map of_nat [0..<32]), in_key_len = kl, in_data = map of_nat [0..<48],
     in_data_len = n, in_iv = replicate 16 255, in_iv_len = 16, in_auth_data = [], in_auth_data_len = 0\<rparr>"

definition sample_output :: mbcrypt_aes_output_t where
  "sample_output = \<lparr>out_buf = replicate 48 0, out_buf_len = 48, out_tag = [], out_tag_len = 0\<rparr>"

definition sample_malloc :: "nat \<Rightarrow> bytes ptr" where
  "sample_malloc n = Some (replicate n 0xA5)"

lemma sample_call_ok:
  "unat kl = 4 * aes_key_words t \<Longrightarrow> unat n \<le> 48 \<Longrightarrow>
     aes_call_ok sample_malloc t (sample_input kl n) (out_buf sample_output)"
  using aes_sizes(4) [of t]
  by (simp add: aes_call_ok_def aes_key_input_ok_def input_ok_def sample_input_def sample_output_def sample_malloc_def)

definition no_hash :: aes_hash_fn where
  "no_hash d n out = None"

theorem aes_stream_modes_witness:
  "mbcrypt_aes_encrypt sample_malloc no_hash no_hash no_hash [] (replicate 16 0) 7 (aes_mode_code MBCRYPT_AES_CTR)
      (aes_type_code AES128) aes_plain_key (sample_input 16 45) sample_output
    = Some (MBCRYPT_STATUS_OK, sample_output\<lparr>out_buf :=
        aes_stream_text MBCRYPT_AES_CTR (aes_cipher AES128 (in_key_bytes (sample_input 16 45)))
          (in_iv_block (sample_input 16 45)) (in_text (sample_input 16 45))
        @ drop (unat (in_data_len (sample_input 16 45))) (out_buf sample_output)\<rparr>)"
  by (rule aes_stream_modes) (simp_all add: sample_call_ok)

text \<open>
  C14. ECB and CBC encrypt whole blocks as SP 800-38A defines them. XTS xors each block with the
  ciphertext of the block before it (the encrypted vector at first) on both sides of the cipher.
\<close>

theorem aes_block_modes:
  assumes "aes_call_ok malloc t inp (out_buf out)" and "length st = 16" and "length T = 16"
    and "mode \<in> {MBCRYPT_AES_ECB, MBCRYPT_AES_CBC, MBCRYPT_AES_XTS}" and "16 dvd unat (in_data_len inp)"
  shows "mbcrypt_aes_encrypt malloc sha1 sha256 sha512 T st t0 (aes_mode_code mode) (aes_type_code t) aes_plain_key inp out
    = Some (MBCRYPT_STATUS_OK, out\<lparr>out_buf :=
        aes_block_text mode (aes_cipher t (in_key_bytes inp)) (in_iv_block inp) (in_text inp)
        @ drop (unat (in_data_len inp)) (out_buf out)\<rparr>)"
  using assms by (rule block_call)

theorem aes_block_modes_witness:
  "mbcrypt_aes_encrypt sample_malloc no_hash no_hash no_hash (replicate 16 1) (replicate 16 0) 7
      (aes_mode_code MBCRYPT_AES_CBC) (aes_type_code AES256) aes_plain_key (sample_input 32 32) sample_output
    = Some (MBCRYPT_STATUS_OK, sample_output\<lparr>out_buf :=
        aes_block_text MBCRYPT_AES_CBC (aes_cipher AES256 (in_key_bytes (sample_input 32 32)))
          (in_iv_block (sample_input 32 32)) (in_text (sample_input 32 32))
        @ drop (unat (in_data_len (sample_input 32 32))) (out_buf sample_output)\<rparr>)"
  by (rule aes_block_modes) (simp_all add: sample_call_ok, simp add: sample_input_def)

text \<open>
  C24. OFB and CTR undo themselves: encrypting the output of a call with the same key and vector
  gives the data back, whatever its length.
\<close>

theorem aes_stream_round_trip:
  assumes "aes_call_ok malloc t inp (out_buf out)" and "aes_call_ok malloc t inp (out_buf out')" and "length st = 16"
    and "mode \<in> {MBCRYPT_AES_OFB, MBCRYPT_AES_CTR}"
  shows "do {
      (_, o1) \<leftarrow> mbcrypt_aes_encrypt malloc sha1 sha256 sha512 T st t0 (aes_mode_code mode) (aes_type_code t)
        aes_plain_key inp out;
      mbcrypt_aes_encrypt malloc sha1 sha256 sha512 T st t0 (aes_mode_code mode) (aes_type_code t)
        aes_plain_key (inp\<lparr>in_data := out_buf o1\<rparr>) out'
    } = Some (MBCRYPT_STATUS_OK,
          out'\<lparr>out_buf := take (unat (in_data_len inp)) (in_data inp) @ drop (unat (in_data_len inp)) (out_buf out')\<rparr>)"
proof -
  let ?text = "aes_stream_text mode (aes_cipher t (in_key_bytes inp)) (in_iv_block inp)" and ?n = "unat (in_data_len inp)"
  let ?o = "?text (in_text inp) @ drop ?n (out_buf out)"
  let ?inp = "inp\<lparr>in_data := ?o\<rparr>"
  have iv: "length (in_iv_block inp) = 16" and n: "?n \<le> length (out_buf out)" "length (in_text inp) = ?n"
    using assms(1) by (simp_all add: aes_call_ok_def input_ok_def in_iv_block_def in_text_def)
  have E: "length b = 16 \<Longrightarrow> length (aes_cipher t (in_key_bytes inp) b) = 16" for b
    using length_in_key [OF assms(1)] by (rule length_aes_cipher)
  note tw = stream_text_twice [OF assms(4) E iv, where data = "in_text inp"]
  have m: "mode \<in> {MBCRYPT_AES_OFB, MBCRYPT_AES_CFB, MBCRYPT_AES_CTR}" using assms(4) by blast
  have ok: "aes_call_ok malloc t ?inp (out_buf out')"
    using assms(2) n tw(1) by (simp add: aes_call_ok_def input_ok_def)
  have same: "in_key_bytes ?inp = in_key_bytes inp" "in_iv_block ?inp = in_iv_block inp" "in_text ?inp = ?text (in_text inp)"
    using n tw(1) by (simp_all add: in_key_bytes_def in_iv_block_def in_text_def)
  show ?thesis
    unfolding stream_call [OF assms(1,3) m]
    using stream_call [OF ok assms(3) m, of sha1 sha256 sha512 T t0] tw(2)
    by (simp add: same [simplified]) (simp add: in_text_def)
qed

theorem aes_stream_round_trip_witness:
  "do {
      (_, o1) \<leftarrow> mbcrypt_aes_encrypt sample_malloc no_hash no_hash no_hash [] (replicate 16 0) 7
        (aes_mode_code MBCRYPT_AES_CTR) (aes_type_code AES192) aes_plain_key (sample_input 24 45) sample_output;
      mbcrypt_aes_encrypt sample_malloc no_hash no_hash no_hash [] (replicate 16 0) 7
        (aes_mode_code MBCRYPT_AES_CTR) (aes_type_code AES192) aes_plain_key
        ((sample_input 24 45)\<lparr>in_data := out_buf o1\<rparr>) sample_output
    } = Some (MBCRYPT_STATUS_OK, sample_output\<lparr>out_buf :=
          take (unat (in_data_len (sample_input 24 45))) (in_data (sample_input 24 45))
          @ drop (unat (in_data_len (sample_input 24 45))) (out_buf sample_output)\<rparr>)"
  by (rule aes_stream_round_trip) (simp_all add: sample_call_ok)

text \<open>
  C12. Decrypting a block undoes encrypting it, under a key that \<open>mbcrypt_aes_key_init\<close> and
  \<open>mbcrypt_aes_key_expand\<close> have set up; the encrypted block is that of FIPS 197.
\<close>

theorem aes_block_round_trip:
  assumes "aes_key_input_ok malloc t key n" and "16 \<le> length b" and "16 \<le> length out" and "16 \<le> length out'"
    and "length st = 16" and "length st' = 16"
  shows "do {
      (_, k) \<leftarrow> aes_key_setup malloc sha1 sha256 sha512 (aes_type_code t) aes_plain_key key n (Some k0);
      (s1, c) \<leftarrow> mbcrypt_aes_ecb_encrypt_block st k (Some b) (Some out);
      (s2, d) \<leftarrow> mbcrypt_aes_ecb_decrypt_block st' k c (Some out');
      Some (s1, c, s2, d)
    } = Some (MBCRYPT_STATUS_OK, Some (aes_cipher t (aes_key_bytes key n) (take 16 b) @ drop 16 out),
          MBCRYPT_STATUS_OK, Some (take 16 b @ drop 16 out'))"
proof (rule key_setup_ready [OF assms(1), of sha1 sha256 sha512 k0])
  fix k w assume k: "aes_key_setup malloc sha1 sha256 sha512 (aes_type_code t) aes_plain_key key n (Some k0)
      = Some (MBCRYPT_STATUS_OK, Some k)"
    and w: "aes_key_ok k (aes_rounds t) w"
    and E: "fips_cipher (aes_rounds t) w = aes_cipher t (aes_key_bytes key n)"
  let ?c = "aes_cipher t (aes_key_bytes key n) (take 16 b)"
  have len: "length (take 16 b) = 16" using assms(2) by simp
  have c: "length ?c = 16" using cipher_length [OF w len] E by simp
  have "mbcrypt_aes_encrypt_block st k b out = Some (?c @ drop 16 out)"
    using encrypt_block_eq [OF w assms(2,3,5)] E by simp
  moreover have "mbcrypt_aes_decrypt_block st' k (?c @ drop 16 out) out' = Some (take 16 b @ drop 16 out')"
    using decrypt_block_eq [OF w _ assms(4,6), of "?c @ drop 16 out"] c
      fips_inv_cipher_cipher [OF len, of "aes_rounds t" w] w E by (simp add: aes_key_ok_def)
  ultimately show ?thesis
    unfolding k by (simp add: mbcrypt_aes_ecb_encrypt_block_def mbcrypt_aes_ecb_decrypt_block_def)
qed

theorem aes_block_round_trip_witness:
  "do {
      (_, k) \<leftarrow> aes_key_setup sample_malloc no_hash no_hash no_hash (aes_type_code AES128) aes_plain_key
        (Some (replicate 16 0)) 16 (Some \<lparr>key_w = None, key_type = 5\<rparr>);
      (s1, c) \<leftarrow> mbcrypt_aes_ecb_encrypt_block (replicate 16 1) k (Some (replicate 16 2)) (Some (replicate 16 0));
      (s2, d) \<leftarrow> mbcrypt_aes_ecb_decrypt_block (replicate 16 3) k c (Some (replicate 20 0));
      Some (s1, c, s2, d)
    } = Some (MBCRYPT_STATUS_OK,
          Some (aes_cipher AES128 (aes_key_bytes (Some (replicate 16 0)) 16) (take 16 (replicate 16 2)) @ drop 16 (replicate 16 0)),
          MBCRYPT_STATUS_OK, Some (take 16 (replicate 16 2) @ drop 16 (replicate 20 0)))"
  by (rule aes_block_round_trip) (simp_all add: aes_key_input_ok_def sample_malloc_def)


text \<open>
  C13. Setting up a key of the right length gives the key schedule of FIPS 197 in the allocated
  memory, for every type of key; what \<open>malloc\<close> returned beyond it is kept.
\<close>

theorem aes_key_schedule:
  assumes "aes_key_input_ok malloc t key n"
  shows "aes_key_setup malloc sha1 sha256 sha512 (aes_type_code t) aes_plain_key key n (Some k) =
    Some (MBCRYPT_STATUS_OK, Some (k\<lparr>key_type := aes_type_code t,
      key_w := Some (Some (fips_key_expansion (aes_key_words t) (aes_rounds t) (aes_key_bytes key n)
        @ drop (16 * (aes_rounds t + 1)) (the (malloc (16 * (aes_rounds t + 1))))))\<rparr>))"
  using key_setup_eq [OF assms] by (simp add: aes_schedule_def)

theorem aes_key_schedule_witness:
  "aes_key_setup sample_malloc no_hash no_hash no_hash (aes_type_code AES192) aes_plain_key
      (Some (replicate 24 1)) 24 (Some \<lparr>key_w = None, key_type = 5\<rparr>) =
    Some (MBCRYPT_STATUS_OK, Some (\<lparr>key_w = None, key_type = 5\<rparr>\<lparr>key_type := aes_type_code AES192,
      key_w := Some (Some (fips_key_expansion (aes_key_words AES192) (aes_rounds AES192)
          (aes_key_bytes (Some (replicate 24 1)) 24)
        @ drop (16 * (aes_rounds AES192 + 1)) (the (sample_malloc (16 * (aes_rounds AES192 + 1))))))\<rparr>))"
  by (rule aes_key_schedule) (simp add: aes_key_input_ok_def sample_malloc_def)

text \<open>
  C26. ECB and CBC write outside a local array whenever the data does not end with a block: the
  padding loop runs to index 16 of a buffer of 16 bytes.
\<close>

theorem aes_padding_overruns:
  assumes "aes_call_ok malloc t inp (out_buf out)" and "length st = 16"
    and "mode \<in> {MBCRYPT_AES_ECB, MBCRYPT_AES_CBC}" and "\<not> 16 dvd unat (in_data_len inp)"
  shows "mbcrypt_aes_encrypt malloc sha1 sha256 sha512 T st t0 (aes_mode_code mode) (aes_type_code t) aes_plain_key inp out
    = None"
  using assms by (rule padded_call)

theorem aes_padding_overruns_witness:
  "mbcrypt_aes_encrypt sample_malloc no_hash no_hash no_hash [] (replicate 16 0) 7 (aes_mode_code MBCRYPT_AES_ECB)
      (aes_type_code AES128) aes_plain_key (sample_input 16 45) sample_output = None"
  by (rule aes_padding_overruns) (simp_all add: sample_call_ok, simp add: sample_input_def)

lemma failed_setup:
  assumes "aes_key_setup malloc sha1 sha256 sha512 tc e (in_key inp) (in_key_len inp)
      (Some \<lparr>key_w = None, key_type = t0\<rparr>) = Some (ret, Some k)" and "ret \<noteq> MBCRYPT_STATUS_OK"
  shows "mbcrypt_aes_encrypt malloc sha1 sha256 sha512 T st t0 mode tc e inp out =
    (if key_w k = None then None else Some (ret, out))"
  unfolding mbcrypt_aes_encrypt_def Let_def assms(1) [unfolded aes_key_setup_def]
  using assms(2) by (cases "key_w k") (simp_all add: mbcrypt_aes_key_free_def)

lemma failed_call:
  assumes "aes_key_setup malloc sha1 sha256 sha512 tc e (in_key inp) (in_key_len inp)
      (Some \<lparr>key_w = None, key_type = t0\<rparr>) = Some (ret, Some \<lparr>key_w = Some w, key_type = t\<rparr>)"
    and "ret \<noteq> MBCRYPT_STATUS_OK"
  shows "mbcrypt_aes_encrypt malloc sha1 sha256 sha512 T st t0 mode tc e inp out = Some (ret, out)"
  by (simp add: failed_setup [OF assms])

lemma setup_unknown_type:
  "\<forall>t. aes_type_code t \<noteq> tc \<Longrightarrow> aes_key_setup malloc sha1 sha256 sha512 tc e key n (Some k) =
     Some (MBCRYPT_STATUS_FAIL_INCORRECT_FUNCTION_PARAM, Some k)"
proof -
  assume "\<forall>t. aes_type_code t \<noteq> tc"
  then have "tc \<noteq> aes_type_code AES128" "tc \<noteq> aes_type_code AES192" "tc \<noteq> aes_type_code AES256" by metis+
  then show ?thesis by (simp add: aes_key_setup_def mbcrypt_aes_key_init_def)
qed

lemma setup_no_memory:
  "malloc (16 * (aes_rounds t + 1)) = None \<Longrightarrow>
     aes_key_setup malloc sha1 sha256 sha512 (aes_type_code t) e key n (Some k) =
       Some (MBCRYPT_STATUS_FAIL_NULL_PTR, Some (k\<lparr>key_type := aes_type_code t, key_w := Some None\<rparr>))"
  unfolding aes_key_setup_def key_init_eq by (simp add: Let_def)

lemma setup_expand_error:
  assumes "malloc (16 * (aes_rounds t + 1)) = Some w"
  shows "aes_key_setup malloc sha1 sha256 sha512 (aes_type_code t) e None n (Some k) =
       Some (MBCRYPT_STATUS_FAIL_NULL_PTR, Some (k\<lparr>key_type := aes_type_code t, key_w := Some (Some w)\<rparr>))"
    and "e = aes_plain_key \<and> unat n \<noteq> 4 * aes_key_words t
         \<or> e = aes_key_expansion_code MBCRYPT_AES_KEY_EXPANSION_SHA1 \<and> t \<noteq> AES128
         \<or> (\<forall>x. aes_key_expansion_code x \<noteq> e) \<Longrightarrow>
       aes_key_setup malloc sha1 sha256 sha512 (aes_type_code t) e (Some key) n (Some k) =
       Some (MBCRYPT_STATUS_FAIL_INCORRECT_FUNCTION_PARAM,
         Some (k\<lparr>key_type := aes_type_code t, key_w := Some (Some w)\<rparr>))"
proof -
  let ?k = "k\<lparr>key_type := aes_type_code t, key_w := Some (Some w)\<rparr>"
  have init: "mbcrypt_aes_key_init malloc (aes_type_code t) (Some k) = Some (MBCRYPT_STATUS_OK, Some ?k)"
    unfolding key_init_eq assms by simp
  show "aes_key_setup malloc sha1 sha256 sha512 (aes_type_code t) e None n (Some k) =
      Some (MBCRYPT_STATUS_FAIL_NULL_PTR, Some ?k)"
    unfolding aes_key_setup_def init by (simp add: mbcrypt_aes_key_expand_def)
  assume "e = aes_plain_key \<and> unat n \<noteq> 4 * aes_key_words t
      \<or> e = aes_key_expansion_code MBCRYPT_AES_KEY_EXPANSION_SHA1 \<and> t \<noteq> AES128
      \<or> (\<forall>x. aes_key_expansion_code x \<noteq> e)"
  then consider "e = 3" "unat n \<noteq> 4 * aes_key_words t" | "e = 0" "t \<noteq> AES128" | "\<forall>x. aes_key_expansion_code x \<noteq> e"
    by auto
  then have "mbcrypt_aes_key_expand sha1 sha256 sha512 e (Some key) n (Some ?k) =
      Some (MBCRYPT_STATUS_FAIL_INCORRECT_FUNCTION_PARAM, Some ?k)"
  proof cases
    case 1
    then have "n \<noteq> of_nat (aes_key_words t * 4)" by (cases t) auto
    then show ?thesis using 1(1) by (simp add: mbcrypt_aes_key_expand_def Let_def)
  next
    case 2
    then show ?thesis by (cases t) (simp_all add: mbcrypt_aes_key_expand_def Let_def)
  next
    case 3
    then have "e \<noteq> aes_key_expansion_code MBCRYPT_AES_KEY_EXPANSION_SHA1"
      "e \<noteq> aes_key_expansion_code MBCRYPT_AES_KEY_EXPANSION_SHA256"
      "e \<noteq> aes_key_expansion_code MBCRYPT_AES_KEY_EXPANSION_SHA512" "e \<noteq> aes_plain_key" by metis+
    then show ?thesis by (simp add: mbcrypt_aes_key_expand_def Let_def)
  qed
  then show "aes_key_setup malloc sha1 sha256 sha512 (aes_type_code t) e (Some key) n (Some k) =
      Some (MBCRYPT_STATUS_FAIL_INCORRECT_FUNCTION_PARAM, Some ?k)"
    unfolding aes_key_setup_def init by simp
qed

text \<open>
  C27. The errors of a call. An unknown type of key makes \<open>mbcrypt_aes_key_free\<close> read a pointer
  that was never set. A failed allocation, a missing key, a key of the wrong length, SHA-1 for the
  longer keys and an unknown kind of expansion give an error and leave the output as it is.
\<close>

theorem aes_encrypt_rejects:
  "((\<forall>t. aes_type_code t \<noteq> tc) \<longrightarrow>
      mbcrypt_aes_encrypt malloc sha1 sha256 sha512 T st t0 mode tc e inp out = None)
    \<and> (malloc (16 * (aes_rounds t + 1)) = None \<longrightarrow>
      mbcrypt_aes_encrypt malloc sha1 sha256 sha512 T st t0 mode (aes_type_code t) e inp out =
        Some (MBCRYPT_STATUS_FAIL_NULL_PTR, out))
    \<and> (malloc (16 * (aes_rounds t + 1)) = Some w \<and> in_key inp = None \<longrightarrow>
      mbcrypt_aes_encrypt malloc sha1 sha256 sha512 T st t0 mode (aes_type_code t) e inp out =
        Some (MBCRYPT_STATUS_FAIL_NULL_PTR, out))
    \<and> (malloc (16 * (aes_rounds t + 1)) = Some w \<and> in_key inp = Some key
        \<and> (e = aes_plain_key \<and> unat (in_key_len inp) \<noteq> 4 * aes_key_words t
         \<or> e = aes_key_expansion_code MBCRYPT_AES_KEY_EXPANSION_SHA1 \<and> t \<noteq> AES128
         \<or> (\<forall>x. aes_key_expansion_code x \<noteq> e)) \<longrightarrow>
      mbcrypt_aes_encrypt malloc sha1 sha256 sha512 T st t0 mode (aes_type_code t) e inp out =
        Some (MBCRYPT_STATUS_FAIL_INCORRECT_FUNCTION_PARAM, out))"
proof (intro conjI impI)
  let ?k = "\<lparr>key_w = None, key_type = t0\<rparr>"
  show "mbcrypt_aes_encrypt malloc sha1 sha256 sha512 T st t0 mode tc e inp out = None"
    if "\<forall>t. aes_type_code t \<noteq> tc"
    using failed_setup [OF setup_unknown_type [OF that]] by simp
  show "mbcrypt_aes_encrypt malloc sha1 sha256 sha512 T st t0 mode (aes_type_code t) e inp out =
      Some (MBCRYPT_STATUS_FAIL_NULL_PTR, out)" if "malloc (16 * (aes_rounds t + 1)) = None"
    using failed_setup [OF setup_no_memory [of malloc t, OF that]] by simp
  show "mbcrypt_aes_encrypt malloc sha1 sha256 sha512 T st t0 mode (aes_type_code t) e inp out =
      Some (MBCRYPT_STATUS_FAIL_NULL_PTR, out)"
    if "malloc (16 * (aes_rounds t + 1)) = Some w \<and> in_key inp = None"
    using that setup_expand_error(1) [of malloc t w sha1 sha256 sha512 e "in_key_len inp" ?k]
    by (intro failed_call [where w = "Some w"]) (auto simp: that)
  show "mbcrypt_aes_encrypt malloc sha1 sha256 sha512 T st t0 mode (aes_type_code t) e inp out =
      Some (MBCRYPT_STATUS_FAIL_INCORRECT_FUNCTION_PARAM, out)"
    if "malloc (16 * (aes_rounds t + 1)) = Some w \<and> in_key inp = Some key
        \<and> (e = aes_plain_key \<and> unat (in_key_len inp) \<noteq> 4 * aes_key_words t
         \<or> e = aes_key_expansion_code MBCRYPT_AES_KEY_EXPANSION_SHA1 \<and> t \<noteq> AES128
         \<or> (\<forall>x. aes_key_expansion_code x \<noteq> e))"
    using that setup_expand_error(2) [of malloc t w e "in_key_len inp" sha1 sha256 sha512 key ?k]
    by (intro failed_call [where w = "Some w"]) (auto simp: that)
qed

theorem aes_encrypt_rejects_witness:
  "mbcrypt_aes_encrypt sample_malloc no_hash no_hash no_hash [] [] 7 4 9 3 (sample_input 16 45) sample_output = None
    \<and> mbcrypt_aes_encrypt (\<lambda>_. None) no_hash no_hash no_hash [] [] 7 4 (aes_type_code AES128) 3 (sample_input 16 45)
        sample_output = Some (MBCRYPT_STATUS_FAIL_NULL_PTR, sample_output)
    \<and> mbcrypt_aes_encrypt sample_malloc no_hash no_hash no_hash [] [] 7 4 (aes_type_code AES128) aes_plain_key
        (sample_input 24 45) sample_output = Some (MBCRYPT_STATUS_FAIL_INCORRECT_FUNCTION_PARAM, sample_output)"
proof (intro conjI)
  have "aes_type_code t \<noteq> 9" for t by (cases t) simp_all
  then show "mbcrypt_aes_encrypt sample_malloc no_hash no_hash no_hash [] [] 7 4 9 3 (sample_input 16 45) sample_output = None"
    by (intro aes_encrypt_rejects [THEN conjunct1, THEN mp]) simp
  show "mbcrypt_aes_encrypt (\<lambda>_. None) no_hash no_hash no_hash [] [] 7 4 (aes_type_code AES128) 3 (sample_input 16 45)
      sample_output = Some (MBCRYPT_STATUS_FAIL_NULL_PTR, sample_output)"
    by (rule aes_encrypt_rejects [THEN conjunct2, THEN conjunct1, THEN mp]) simp
  show "mbcrypt_aes_encrypt sample_malloc no_hash no_hash no_hash [] [] 7 4 (aes_type_code AES128) aes_plain_key
      (sample_input 24 45) sample_output = Some (MBCRYPT_STATUS_FAIL_INCORRECT_FUNCTION_PARAM, sample_output)"
    by (rule aes_encrypt_rejects [THEN conjunct2, THEN conjunct2, THEN conjunct2, THEN mp])
      (simp add: sample_malloc_def sample_input_def)
qed

text \<open>
  C28. A mode without a case in the \<open>switch\<close>, GCM and AEAD among them, gives \<open>MBCRYPT_STATUS_OK\<close>
  for any data and writes nothing.
\<close>

theorem aes_silent_modes:
  assumes "aes_call_ok malloc t inp (out_buf out)"
    and "\<forall>m \<in> {MBCRYPT_AES_ECB, MBCRYPT_AES_CBC, MBCRYPT_AES_OFB, MBCRYPT_AES_CFB, MBCRYPT_AES_CTR, MBCRYPT_AES_XTS}.
      mode \<noteq> aes_mode_code m"
  shows "mbcrypt_aes_encrypt malloc sha1 sha256 sha512 T st t0 mode (aes_type_code t) aes_plain_key inp out =
    Some (MBCRYPT_STATUS_OK, out)"
proof (rule encrypt_call [OF assms(1), of sha1 sha256 sha512 T st t0 mode])
  fix k assume call: "\<And>o'. mbcrypt_aes_encrypt malloc sha1 sha256 sha512 T st t0 mode (aes_type_code t)
        aes_plain_key inp o' = do {
        buf \<leftarrow> aes_mode_switch T st mode k inp (out_buf o');
        Some (MBCRYPT_STATUS_OK, o'\<lparr>out_buf := buf\<rparr>)
      }"
  show ?thesis unfolding call using assms(2) by (simp add: aes_mode_switch_def)
qed

theorem aes_silent_modes_witness:
  "mbcrypt_aes_encrypt sample_malloc no_hash no_hash no_hash [] [] 7 (aes_mode_code MBCRYPT_AES_GCM)
      (aes_type_code AES128) aes_plain_key (sample_input 16 45) sample_output = Some (MBCRYPT_STATUS_OK, sample_output)"
  by (rule aes_silent_modes) (simp_all add: sample_call_ok)

end
