(* ===== verification/Arm_Alloc.thy ===== *)
theory Arm_Alloc
  imports Mbcrypt
begin

text \<open>
  The linear allocator of \<open>arch/arm/armv7_mem_test.c\<close>. The heap is a list of bytes, in which each
  block has a header of four bytes before it; an address is relative to \<open>HEAP_BASE\<close>. The macros
  \<open>HEAP_BASE\<close> and \<open>HEAP_SIZE\<close> are not in the repository: the size is the parameter \<open>hs\<close>.

  The code reads and writes a header through a \<open>uint32_t\<close> or \<open>_header_t\<close> pointer, and after a block
  whose size is no multiple of four that pointer is not aligned, which the C standard leaves
  undefined. The model is that of a processor that allows unaligned word accesses, as ARMv7 does by
  default: only an access outside the heap is \<open>None\<close> here.
\<close>

subsection \<open>Headers\<close>

text \<open>The bit fields of \<open>_header_t\<close>, packed into a little-endian word of four bytes.\<close>

record header_t =
  h_size :: "31 word"
  h_is_free :: "1 word"

definition sizeof_header :: nat where
  "sizeof_header = 4"

definition header_pack :: "header_t \<Rightarrow> u32" where
  "header_pack h = ucast (h_size h) OR push_bit 31 (ucast (h_is_free h))"

definition header_unpack :: "u32 \<Rightarrow> header_t" where
  "header_unpack v = \<lparr>h_size = ucast v, h_is_free = ucast (drop_bit 31 v)\<rparr>"

definition load_header :: "bytes \<Rightarrow> nat \<Rightarrow> header_t ub" where
  "load_header mem a =
     (if a + 4 \<le> length mem then Some (header_unpack (be_word (rev (take 4 (drop a mem))))) else None)"

definition store_header :: "bytes \<Rightarrow> nat \<Rightarrow> header_t \<Rightarrow> bytes ub" where
  "store_header mem a h = memcpy_at mem a (rev (be_bytes 4 (unat (header_pack h)))) 4"

subsection \<open>Operations\<close>

record linear_heap =
  heap_mem :: bytes
  heap_offset :: u32
  blocks_allocated :: u32

definition linear_init :: "linear_heap \<Rightarrow> linear_heap" where
  "linear_init s = s\<lparr>heap_offset := 0\<rparr>"

definition linear_memory_force_free :: "linear_heap \<Rightarrow> linear_heap" where
  "linear_memory_force_free s = s\<lparr>heap_offset := 0, blocks_allocated := 0\<rparr>"

definition linear_memory_alloc :: "u32 \<Rightarrow> u32 \<Rightarrow> linear_heap \<Rightarrow> (nat ptr \<times> linear_heap) ub" where
  "linear_memory_alloc hs sz s =
     (if hs - heap_offset s < sz \<or> sz = 0 then Some (None, s)
      else do {
        let ret_ptr = unat (heap_offset s) + sizeof_header;
        let s = s\<lparr>heap_offset := heap_offset s + sz + of_nat sizeof_header\<rparr>;
        mem \<leftarrow> store_header (heap_mem s) (ret_ptr - 4) \<lparr>h_size = ucast sz, h_is_free = 0\<rparr>;
        Some (Some ret_ptr, s\<lparr>heap_mem := mem, blocks_allocated := blocks_allocated s + 1\<rparr>)
      })"

text \<open>The header of the block at \<open>ptr\<close>; there is none before the heap.\<close>

definition header_at :: "linear_heap \<Rightarrow> nat ptr \<Rightarrow> header_t ub" where
  "header_at s ptr = (case ptr of None \<Rightarrow> None | Some p \<Rightarrow>
     if p < sizeof_header then None else load_header (heap_mem s) (p - sizeof_header))"

definition linear_memory_free :: "nat ptr \<Rightarrow> linear_heap \<Rightarrow> linear_heap ub" where
  "linear_memory_free ptr s =
     (if blocks_allocated s = 0 then Some s
      else do {
        h \<leftarrow> header_at s ptr;
        if h_is_free h \<noteq> 0 \<or> h_size h = 0 then Some s
        else do {
          p \<leftarrow> ptr;
          mem \<leftarrow> store_header (heap_mem s) (p - sizeof_header) (h\<lparr>h_is_free := 1, h_size := 0\<rparr>);
          let s = s\<lparr>heap_mem := mem, blocks_allocated := blocks_allocated s - 1\<rparr>;
          Some (if blocks_allocated s = 0 then linear_memory_force_free s else s)
        }
      })"

definition linear_memory_realloc :: "u32 \<Rightarrow> nat ptr \<Rightarrow> u32 \<Rightarrow> linear_heap \<Rightarrow> (nat ptr \<times> linear_heap) ub" where
  "linear_memory_realloc hs ptr sz s = do {
     h \<leftarrow> header_at s ptr;
     if unat sz \<le> unat (h_size h) then Some (None, s) else linear_memory_alloc hs sz s
   }"

subsection \<open>Headers are read back\<close>

lemma header_round_trip: "header_unpack (header_pack h) = h"
proof -
  have "(ucast (header_pack h) :: 31 word) = h_size h"
    by (rule bit_word_eqI) (auto simp: header_pack_def bit_simps)
  moreover have "(ucast (drop_bit 31 (header_pack h)) :: 1 word) = h_is_free h"
    by (rule bit_word_eqI) (auto simp: header_pack_def bit_simps dest: bit_imp_le_length)
  ultimately show ?thesis by (simp add: header_unpack_def)
qed

lemma store_header_eq:
  "a + 4 \<le> length mem \<Longrightarrow>
     store_header mem a h = Some (take a mem @ rev (be_bytes 4 (unat (header_pack h))) @ drop (a + 4) mem)"
  by (simp add: store_header_def mem_simps)

lemma load_after_store: "store_header mem a h = Some mem' \<Longrightarrow> load_header mem' a = Some h"
  by (auto simp: store_header_def memcpy_at_def load_header_def be_word_be_bytes_4 header_round_trip split: if_splits)

text \<open>A write elsewhere does not change what is read.\<close>

lemma take_drop_update:
  assumes "x + length bs \<le> length mem" and "b + k \<le> x \<or> x + length bs \<le> b"
  shows "take k (drop b (take x mem @ bs @ drop (x + length bs) mem)) = take k (drop b mem)"
proof -
  let ?m = "take x mem @ bs @ drop (x + length bs) mem"
  have len: "length ?m = length mem" using assms(1) by simp
  have nth: "?m ! j = mem ! j" if "j < x \<or> x + length bs \<le> j" "j < length mem" for j
    using that assms(1) by (auto simp: nth_append)
  show ?thesis
  proof (rule nth_equalityI)
    show "length (take k (drop b ?m)) = length (take k (drop b mem))"
      by (simp only: length_take length_drop len)
    fix i assume "i < length (take k (drop b ?m))"
    then have i: "i < k" "b + i < length mem" by (simp_all only: length_take length_drop len)
    then have "?m ! (b + i) = mem ! (b + i)" using assms(2) by (intro nth) auto
    then show "take k (drop b ?m) ! i = take k (drop b mem) ! i"
      using i len by (simp only: nth_take nth_drop)
  qed
qed

lemma load_store_other:
  assumes "store_header mem a h = Some mem'" and "b + 4 \<le> a \<or> a + 4 \<le> b"
  shows "load_header mem' b = load_header mem b"
proof -
  have a: "a + 4 \<le> length mem" using assms(1) by (auto simp: store_header_def memcpy_at_def split: if_splits)
  then show ?thesis
    using assms take_drop_update [of a "rev (be_bytes 4 (unat (header_pack h)))" mem b 4]
    by (auto simp: store_header_eq load_header_def)
qed

lemma load_write_other:
  assumes "x < b \<or> b + 4 \<le> x"
  shows "load_header (mem[x := v]) b = load_header mem b"
proof -
  have "take 4 (drop b (mem[x := v])) = take 4 (drop b mem)"
    using assms by (intro nth_equalityI) (auto simp: nth_list_update)
  then show ?thesis by (simp add: load_header_def)
qed

lemma length_store_header: "store_header mem a h = Some mem' \<Longrightarrow> length mem' = length mem"
  by (auto simp: store_header_def dest: length_memcpy_at)

subsection \<open>Runs of the allocator\<close>

text \<open>
  The state with the list of the live blocks, each with its address and size, newest first. The
  steps are those of a program that uses the heap with care: it asks for blocks, frees a live block,
  grows one, or writes a byte of one. The code does not check that a request leaves room for the
  header; the client has to, and \<open>heap_room\<close> is that obligation (with the 31 bits that a header has
  for the size). What a request without room does is \<open>linear_alloc_overruns\<close> below.
\<close>

type_synonym heap_state = "linear_heap \<times> (nat \<times> nat) list"

definition heap_room :: "u32 \<Rightarrow> linear_heap \<Rightarrow> u32 \<Rightarrow> bool" where
  "heap_room hs s sz \<longleftrightarrow> unat (heap_offset s) + unat sz + sizeof_header \<le> unat hs \<and> unat sz < 2 ^ 31"

inductive linear_step :: "u32 \<Rightarrow> heap_state \<Rightarrow> heap_state \<Rightarrow> bool" for hs where
  step_alloc: "heap_room hs s sz \<Longrightarrow> linear_memory_alloc hs sz s = Some (Some p, s') \<Longrightarrow>
     linear_step hs (s, L) (s', (p, unat sz) # L)"
| step_no_alloc: "linear_memory_alloc hs sz s = Some (None, s') \<Longrightarrow> linear_step hs (s, L) (s', L)"
| step_realloc: "(p, n) \<in> set L \<Longrightarrow> heap_room hs s sz \<Longrightarrow>
     linear_memory_realloc hs (Some p) sz s = Some (Some q, s') \<Longrightarrow>
     linear_step hs (s, L) (s', (q, unat sz) # L)"
| step_free: "(p, n) \<in> set L \<Longrightarrow> linear_memory_free (Some p) s = Some s' \<Longrightarrow>
     linear_step hs (s, L) (s', remove1 (p, n) L)"
| step_write: "(p, n) \<in> set L \<Longrightarrow> i < n \<Longrightarrow>
     linear_step hs (s, L) (s\<lparr>heap_mem := (heap_mem s)[p + i := v]\<rparr>, L)"

inductive linear_reachable :: "u32 \<Rightarrow> heap_state \<Rightarrow> bool" for hs where
  reach_init: "length mem = unat hs \<Longrightarrow>
     linear_reachable hs (linear_init \<lparr>heap_mem = mem, heap_offset = x, blocks_allocated = 0\<rparr>, [])"
| reach_step: "linear_reachable hs c \<Longrightarrow> linear_step hs c c' \<Longrightarrow> linear_reachable hs c'"

subsection \<open>The invariant\<close>

definition blocks_apart :: "(nat \<times> nat) list \<Rightarrow> bool" where
  "blocks_apart L \<longleftrightarrow> sorted_wrt (\<lambda>(p, n) (q, m). q + m + sizeof_header \<le> p) L"

definition block_ok :: "linear_heap \<Rightarrow> nat \<times> nat \<Rightarrow> bool" where
  "block_ok s = (\<lambda>(p, n). sizeof_header \<le> p \<and> 0 < n \<and> n < 2 ^ 31 \<and> p + n \<le> unat (heap_offset s)
     \<and> header_at s (Some p) = Some \<lparr>h_size = of_nat n, h_is_free = 0\<rparr>)"

definition heap_inv :: "u32 \<Rightarrow> heap_state \<Rightarrow> bool" where
  "heap_inv hs = (\<lambda>(s, L). length (heap_mem s) = unat hs \<and> heap_offset s \<le> hs
     \<and> unat (blocks_allocated s) = length L \<and> blocks_apart L \<and> (\<forall>b \<in> set L. block_ok s b))"

lemma apart_bound:
  "blocks_apart L \<Longrightarrow> \<forall>(p, n) \<in> set L. 4 \<le> p \<and> 0 < n \<and> p + n \<le> o' \<Longrightarrow> 5 * length L \<le> o'"
proof (induction L arbitrary: o')
  case (Cons b L)
  obtain p n where b: "b = (p, n)" by (cases b)
  have "5 * length L \<le> p - 4"
    using Cons by (intro Cons.IH) (auto simp: blocks_apart_def b sizeof_header_def)
  then show ?case using Cons.prems(2) by (auto simp: b)
qed simp

lemma apart_remove1: "blocks_apart L \<Longrightarrow> blocks_apart (remove1 b L)"
  unfolding blocks_apart_def
proof (induction L)
  case (Cons c L)
  then show ?case using set_remove1_subset [of b L] by auto
qed simp

lemma apart_disjoint:
  "blocks_apart L \<Longrightarrow> (p, n) \<in> set L \<Longrightarrow> (q, m) \<in> set L \<Longrightarrow> (p, n) \<noteq> (q, m) \<Longrightarrow>
     p + n + 4 \<le> q \<or> q + m + 4 \<le> p"
  unfolding blocks_apart_def by (induction L) (auto simp: sizeof_header_def)

lemma apart_nth:
  assumes "blocks_apart L" and "i < length L" and "j < length L" and "i \<noteq> j"
  shows "fst (L ! i) + snd (L ! i) + 4 \<le> fst (L ! j) \<or> fst (L ! j) + snd (L ! j) + 4 \<le> fst (L ! i)"
proof -
  have "fst (L ! b) + snd (L ! b) + 4 \<le> fst (L ! a)" if "a < b" "b < length L" for a b
    using assms(1) that sorted_wrt_nth_less [of _ L a b]
    by (fastforce simp: blocks_apart_def sizeof_header_def split: prod.splits)
  then show ?thesis using assms(2-4) by (meson linorder_neqE_nat)
qed

text \<open>A request with room: the block lies right after those before it.\<close>

lemma alloc_eq:
  assumes room: "heap_room hs s sz" and "heap_offset s \<le> hs" and len: "length (heap_mem s) = unat hs"
    and al: "linear_memory_alloc hs sz s = Some (Some p, s')"
  shows "sz \<noteq> 0" and "p = unat (heap_offset s) + 4"
    and "unat (heap_offset s') = unat (heap_offset s) + unat sz + 4"
    and "blocks_allocated s' = blocks_allocated s + 1"
    and "store_header (heap_mem s) (unat (heap_offset s)) \<lparr>h_size = ucast sz, h_is_free = 0\<rparr> = Some (heap_mem s')"
proof -
  show "sz \<noteq> 0" and p: "p = unat (heap_offset s) + 4" and "blocks_allocated s' = blocks_allocated s + 1"
    and "store_header (heap_mem s) (unat (heap_offset s)) \<lparr>h_size = ucast sz, h_is_free = 0\<rparr> = Some (heap_mem s')"
    using al by (auto simp: linear_memory_alloc_def sizeof_header_def bind_eq_Some_conv Let_def split: if_splits)
  have "heap_offset s' = heap_offset s + sz + of_nat sizeof_header"
    using al by (auto simp: linear_memory_alloc_def bind_eq_Some_conv Let_def split: if_splits)
  moreover have "unat (heap_offset s) + unat sz + 4 < 4294967296"
    using room unat_u32_lt [of hs] by (simp add: heap_room_def sizeof_header_def)
  ultimately show "unat (heap_offset s') = unat (heap_offset s) + unat sz + 4"
    by (simp add: unat_add_u32 sizeof_header_def)
qed

lemma header_at_eq: "4 \<le> p \<Longrightarrow> header_at s (Some p) = load_header (heap_mem s) (p - 4)"
  by (simp add: header_at_def sizeof_header_def)

lemma alloc_keeps_inv:
  assumes inv: "heap_inv hs (s, L)" and room: "heap_room hs s sz"
    and al: "linear_memory_alloc hs sz s = Some (Some p, s')"
  shows "heap_inv hs (s', (p, unat sz) # L)"
proof -
  have ok: "\<forall>b \<in> set L. block_ok s b" and len: "length (heap_mem s) = unat hs" and "heap_offset s \<le> hs"
    and n: "unat (blocks_allocated s) = length L" and apart: "blocks_apart L"
    using inv by (simp_all add: heap_inv_def)
  note A = alloc_eq [OF room \<open>heap_offset s \<le> hs\<close> len al]
  let ?o = "unat (heap_offset s)"
  have "5 * length L \<le> ?o"
    by (rule apart_bound [OF apart]) (use ok in \<open>auto simp: block_ok_def sizeof_header_def\<close>)
  then have "length L + 1 < 4294967296" using unat_u32_lt [of "heap_offset s"] by linarith
  then have count: "unat (blocks_allocated s') = length L + 1" using n by (simp add: A(4) unat_add_u32)
  have old: "block_ok s' b" if b: "b \<in> set L" for b
  proof -
    obtain q m where q: "b = (q, m)" "4 \<le> q" "q + m \<le> ?o" using ok b by (cases b) (auto simp: block_ok_def sizeof_header_def)
    then have "load_header (heap_mem s') (q - 4) = load_header (heap_mem s) (q - 4)"
      by (intro load_store_other [OF A(5)]) auto
    then show ?thesis using ok b q A(3) by (auto simp: block_ok_def header_at_eq)
  qed
  have sz: "unat sz < 2 ^ 31" using room by (simp add: heap_room_def)
  then have "(ucast sz :: 31 word) = of_nat (unat sz)" by simp
  then have new: "block_ok s' (p, unat sz)"
    using load_after_store [OF A(5)] A(1-3) sz
    by (auto simp: block_ok_def sizeof_header_def header_at_eq unat_gt_0)
  have "blocks_apart ((p, unat sz) # L)"
    using apart ok A(2) by (auto simp: blocks_apart_def block_ok_def sizeof_header_def)
  moreover have "heap_offset s' \<le> hs" using room A(3) by (simp add: word_le_nat_alt heap_room_def sizeof_header_def)
  ultimately show ?thesis
    using old new count len length_store_header [OF A(5)] by (auto simp: heap_inv_def)
qed


lemma free_keeps_inv:
  assumes inv: "heap_inv hs (s, L)" and live: "(p, n) \<in> set L" and fr: "linear_memory_free (Some p) s = Some s'"
  shows "heap_inv hs (s', remove1 (p, n) L)"
proof -
  have ok: "\<forall>b \<in> set L. block_ok s b" and len: "length (heap_mem s) = unat hs" and off: "heap_offset s \<le> hs"
    and cnt: "unat (blocks_allocated s) = length L" and apart: "blocks_apart L"
    using inv by (simp_all add: heap_inv_def)
  have p: "4 \<le> p" "0 < n" "n < 2 ^ 31" "header_at s (Some p) = Some \<lparr>h_size = of_nat n, h_is_free = 0\<rparr>"
    using ok live by (auto simp: block_ok_def sizeof_header_def)
  have "(of_nat n :: 31 word) \<noteq> 0" using p(2,3) by (simp add: word_of_nat_eq_0_iff nat_dvd_not_less)
  moreover have "0 < length L" using live by (cases L) auto
  then have nz: "blocks_allocated s \<noteq> 0" using cnt by auto
  ultimately obtain mem where mem: "store_header (heap_mem s) (p - 4) \<lparr>h_size = 0, h_is_free = 1\<rparr> = Some mem"
    and s': "s' = (let t = s\<lparr>heap_mem := mem, blocks_allocated := blocks_allocated s - 1\<rparr> in
      if blocks_allocated t = 0 then linear_memory_force_free t else t)"
    using fr p by (auto simp: linear_memory_free_def sizeof_header_def bind_eq_Some_conv Let_def)
  have len': "length (remove1 (p, n) L) = length L - 1" using live by (simp add: length_remove1)
  have cnt': "unat (blocks_allocated s - 1) = length L - 1"
  proof -
    have "1 \<le> blocks_allocated s" using cnt \<open>0 < length L\<close> by (simp add: word_le_nat_alt Suc_le_eq)
    then show ?thesis using cnt unat_sub_u32 [of 1 "blocks_allocated s"] by simp
  qed
  show ?thesis
  proof (cases "blocks_allocated s - 1 = 0")
    case True
    then have "length (remove1 (p, n) L) = 0" using cnt' len' by simp
    then have "remove1 (p, n) L = []" by simp
    then show ?thesis
      using True s' len length_store_header [OF mem]
      by (simp add: heap_inv_def linear_memory_force_free_def blocks_apart_def)
  next
    case False
    have keep: "block_ok s' b" if b: "b \<in> set (remove1 (p, n) L)" for b
    proof -
      obtain q m where q: "b = (q, m)" by (cases b)
      have "distinct L" using apart unfolding blocks_apart_def
        by (induction L) (auto simp: sizeof_header_def)
      then have "(q, m) \<noteq> (p, n)" and inL: "(q, m) \<in> set L" using b q by auto
      then have "p + n + 4 \<le> q \<or> q + m + 4 \<le> p" using apart_disjoint [OF apart live] by blast
      moreover have "4 \<le> q" using ok inL by (auto simp: block_ok_def sizeof_header_def)
      ultimately have "load_header mem (q - 4) = load_header (heap_mem s) (q - 4)"
        using p(1) by (intro load_store_other [OF mem]) auto
      then show ?thesis using ok inL q False s' by (auto simp: block_ok_def header_at_eq sizeof_header_def)
    qed
    then show ?thesis
      using False s' len off cnt' len' apart_remove1 [OF apart] length_store_header [OF mem]
      by (simp add: heap_inv_def)
  qed
qed

lemma write_keeps_inv:
  assumes inv: "heap_inv hs (s, L)" and live: "(p, n) \<in> set L" and "i < n"
  shows "heap_inv hs (s\<lparr>heap_mem := (heap_mem s)[p + i := v]\<rparr>, L)"
proof -
  let ?s = "s\<lparr>heap_mem := (heap_mem s)[p + i := v]\<rparr>"
  have ok: "\<forall>b \<in> set L. block_ok s b" and apart: "blocks_apart L" using inv by (simp_all add: heap_inv_def)
  have "block_ok ?s b" if b: "b \<in> set L" for b
  proof -
    obtain q m where q: "b = (q, m)" by (cases b)
    have "(q, m) = (p, n) \<or> p + n + 4 \<le> q \<or> q + m + 4 \<le> p"
      using apart_disjoint [OF apart live, of q m] b q by blast
    then have "p + i < q - 4 \<or> q \<le> p + i" using assms(3) by auto
    moreover have "4 \<le> q" using ok b q by (auto simp: block_ok_def sizeof_header_def)
    ultimately show ?thesis
      using ok b q by (auto simp: block_ok_def header_at_eq sizeof_header_def load_write_other)
  qed
  then show ?thesis using inv by (simp add: heap_inv_def)
qed

lemma step_keeps_inv: "linear_step hs c c' \<Longrightarrow> heap_inv hs c \<Longrightarrow> heap_inv hs c'"
proof (induction rule: linear_step.induct)
  case (step_no_alloc sz s s' L)
  then have "s' = s" by (auto simp: linear_memory_alloc_def bind_eq_Some_conv Let_def split: if_splits)
  then show ?case using step_no_alloc by simp
next
  case (step_realloc p n L s sz q s')
  then have "linear_memory_alloc hs sz s = Some (Some q, s')"
    by (auto simp: linear_memory_realloc_def bind_eq_Some_conv split: if_splits)
  then show ?case using step_realloc alloc_keeps_inv by blast
qed (auto intro: alloc_keeps_inv free_keeps_inv write_keeps_inv)

lemma reachable_inv: "linear_reachable hs c \<Longrightarrow> heap_inv hs c"
proof (induction rule: linear_reachable.induct)
  case (reach_init mem x)
  then show ?case by (simp add: heap_inv_def linear_init_def blocks_apart_def)
next
  case (reach_step c c')
  then show ?case by (blast intro: step_keeps_inv)
qed


subsection \<open>Properties\<close>

text \<open>
  C22. As long as every granted request leaves room for its header and is smaller than \<open>2\<^sup>3\<^sup>1\<close> bytes,
  however else the heap is used (refused requests, reallocations, releases of live blocks, writes to
  them): \<open>blocks_allocated\<close> is the number of live blocks, each of them lies inside the heap with its
  header intact before it, and any two of them, with their headers, are apart.
\<close>

theorem linear_heap_safe:
  assumes "linear_reachable hs (s, L)"
  shows "unat (blocks_allocated s) = length L
    \<and> (\<forall>(p, n) \<in> set L. 4 \<le> p \<and> 0 < n \<and> p + n \<le> unat hs
        \<and> header_at s (Some p) = Some \<lparr>h_size = of_nat n, h_is_free = 0\<rparr>)
    \<and> (\<forall>i < length L. \<forall>j < length L. i \<noteq> j \<longrightarrow>
        fst (L ! i) + snd (L ! i) + 4 \<le> fst (L ! j) \<or> fst (L ! j) + snd (L ! j) + 4 \<le> fst (L ! i))"
proof -
  have inv: "heap_inv hs (s, L)" by (rule reachable_inv [OF assms])
  then have "\<forall>b \<in> set L. block_ok s b" and "unat (heap_offset s) \<le> unat hs"
    by (auto simp: heap_inv_def word_le_nat_alt)
  then have each: "\<forall>(p, n) \<in> set L. 4 \<le> p \<and> 0 < n \<and> p + n \<le> unat hs
      \<and> header_at s (Some p) = Some \<lparr>h_size = of_nat n, h_is_free = 0\<rparr>"
    by (fastforce simp: block_ok_def sizeof_header_def)
  have "blocks_apart L" using inv by (simp add: heap_inv_def)
  then have "fst (L ! i) + snd (L ! i) + 4 \<le> fst (L ! j) \<or> fst (L ! j) + snd (L ! j) + 4 \<le> fst (L ! i)"
    if "i < length L" "j < length L" "i \<noteq> j" for i j
    using that by (rule apart_nth)
  then show ?thesis using each inv by (simp add: heap_inv_def)
qed

lemma fresh_heap: "linear_reachable hs (\<lparr>heap_mem = replicate (unat hs) 0, heap_offset = 0, blocks_allocated = 0\<rparr>, [])"
  using reach_init [of "replicate (unat hs) 0" hs 0] by (simp add: linear_init_def)

theorem linear_heap_safe_witness:
  "\<exists>s. linear_reachable 64 (s, [(16, 7), (4, 8)]) \<and> unat (blocks_allocated s) = 2
    \<and> header_at s (Some 16) = Some \<lparr>h_size = 7, h_is_free = 0\<rparr>
    \<and> header_at s (Some 4) = Some \<lparr>h_size = 8, h_is_free = 0\<rparr>"
proof -
  let ?s0 = "\<lparr>heap_mem = replicate (unat (64 :: u32)) 0, heap_offset = 0, blocks_allocated = 0\<rparr>"
  obtain s1 where 1: "linear_memory_alloc 64 8 ?s0 = Some (Some 4, s1)" "heap_offset s1 = 12" "length (heap_mem s1) = 64"
    by (simp add: linear_memory_alloc_def sizeof_header_def store_header_eq)
  then obtain s2 where 2: "linear_memory_alloc 64 7 s1 = Some (Some 16, s2)"
    by (simp add: linear_memory_alloc_def sizeof_header_def store_header_eq)
  have "linear_step 64 (?s0, []) (s1, [(4, unat (8 :: u32))])"
    by (rule step_alloc [OF _ 1(1)]) (simp add: heap_room_def sizeof_header_def)
  then have r1: "linear_reachable 64 (s1, [(4, unat (8 :: u32))])"
    by (rule reach_step [OF fresh_heap])
  have "linear_step 64 (s1, [(4, unat (8 :: u32))]) (s2, [(16, unat (7 :: u32)), (4, unat (8 :: u32))])"
    by (rule step_alloc [OF _ 2]) (simp add: heap_room_def sizeof_header_def 1(2))
  then have r2: "linear_reachable 64 (s2, [(16, 7), (4, 8)])"
    using reach_step [OF r1] by simp
  show ?thesis
    using r2 linear_heap_safe [OF r2] by (intro exI [of _ s2] conjI) simp_all
qed

text \<open>
  C29. The test of \<open>linear_memory_alloc\<close> forgets the header: a request that fits without it gets a
  block that ends behind the heap, and from then on the room that is left is computed below zero:
  requests that the heap cannot hold are no longer refused but write a header behind it.
\<close>

theorem linear_alloc_overruns:
  assumes "length (heap_mem s) = unat hs" and "unat (heap_offset s) + 4 \<le> unat hs" and "sz \<noteq> 0"
    and "unat (heap_offset s) + unat sz \<le> unat hs" and "unat hs < unat (heap_offset s) + unat sz + 4"
    and "unat hs < 2 ^ 31"
  shows "\<exists>p s'. linear_memory_alloc hs sz s = Some (Some p, s') \<and> unat hs < p + unat sz
    \<and> (\<forall>sz2. sz2 \<noteq> 0 \<and> sz2 \<le> - 4 \<longrightarrow> linear_memory_alloc hs sz2 s' = None)"
proof -
  let ?o = "unat (heap_offset s)"
  define off where "off = heap_offset s + sz + of_nat sizeof_header"
  have off: "unat off = ?o + unat sz + 4" using assms(4,6) by (simp add: off_def unat_add_u32 sizeof_header_def)
  have "heap_offset s \<le> hs" using assms(2) by (simp add: word_le_nat_alt)
  then have fits: "\<not> hs - heap_offset s < sz" using assms(4) by (simp add: word_less_nat_alt unat_sub_u32)
  obtain mem where mem: "store_header (heap_mem s) ?o \<lparr>h_size = ucast sz, h_is_free = 0\<rparr> = Some mem"
    using assms(1,2) by (simp add: store_header_eq)
  define s' where "s' = s\<lparr>heap_offset := off, heap_mem := mem, blocks_allocated := blocks_allocated s + 1\<rparr>"
  have al: "linear_memory_alloc hs sz s = Some (Some (?o + 4), s')"
    using fits assms(3) mem by (simp add: linear_memory_alloc_def s'_def off_def sizeof_header_def)
  have "linear_memory_alloc hs sz2 s' = None" if "sz2 \<noteq> 0 \<and> sz2 \<le> - 4" for sz2
  proof -
    have "unat (hs - off) = 4294967296 + unat hs - unat off"
      using off assms(5) unat_u32_lt [of off] by (simp add: unat_sub_if_size word_size)
    moreover have "unat sz2 \<le> 4294967292" using that by (simp add: word_le_nat_alt)
    ultimately have "\<not> hs - off < sz2" using off assms(4) by (simp add: word_less_nat_alt)
    moreover have "store_header mem (unat off) h = None" for h
      using off assms(1,5) length_store_header [OF mem] by (simp add: store_header_def memcpy_at_def)
    ultimately show ?thesis using that by (simp add: linear_memory_alloc_def s'_def sizeof_header_def)
  qed
  then show ?thesis using al assms(5) by auto
qed

theorem linear_alloc_overruns_witness:
  "\<exists>p s'. linear_memory_alloc 64 64 \<lparr>heap_mem = replicate 64 0, heap_offset = 0, blocks_allocated = 0\<rparr> = Some (Some p, s')
    \<and> 64 < p + unat (64 :: u32) \<and> (\<forall>sz2. sz2 \<noteq> 0 \<and> sz2 \<le> - 4 \<longrightarrow> linear_memory_alloc 64 sz2 s' = None)"
  using linear_alloc_overruns [of "\<lparr>heap_mem = replicate 64 0, heap_offset = 0, blocks_allocated = 0\<rparr>" 64 64] by simp

end
