(* ===== verification/Arm_String.thy ===== *)
theory Arm_String
  imports Mbcrypt "HOL-Library.Signed_Division"
begin

text \<open>
  The C library functions of \<open>arch/arm/armv7_platform_specific.c\<close>. They work on one memory of
  bytes, in which a pointer is an index; an access outside it is undefined. Only \<open>strcmp\<close> subtracts
  pointers, and it has an argument that tells the objects in the memory apart. Numbers of type
  \<open>int32_t\<close> are integers, and a result outside the type is undefined. The macro \<open>swapU8\<close> and the
  functions of the memory manager are not in the repository and are parameters.
\<close>

subsection \<open>Blocks of memory\<close>

fun memset_loop :: "bytes \<Rightarrow> nat \<Rightarrow> u8 \<Rightarrow> nat \<Rightarrow> bytes ub" where
  "memset_loop mem p v 0 = Some mem"
| "memset_loop mem p v (Suc n) = do {
     mem \<leftarrow> wr mem p v;
     memset_loop mem (p + 1) v n
   }"

definition memset :: "bytes \<Rightarrow> nat \<Rightarrow> i32 \<Rightarrow> u32 \<Rightarrow> (nat \<times> bytes) ub" where
  "memset mem p v len = do {
     mem \<leftarrow> memset_loop mem p (ucast (v AND 0xFF)) (unat len);
     Some (p, mem)
   }"

fun memcpy_loop :: "bytes \<Rightarrow> nat \<Rightarrow> nat \<Rightarrow> nat \<Rightarrow> bytes ub" where
  "memcpy_loop mem dst src 0 = Some mem"
| "memcpy_loop mem dst src (Suc n) = do {
     v \<leftarrow> rd mem src;
     mem \<leftarrow> wr mem dst v;
     memcpy_loop mem (dst + 1) (src + 1) n
   }"

definition memcpy :: "bytes \<Rightarrow> nat \<Rightarrow> nat \<Rightarrow> u32 \<Rightarrow> (nat \<times> bytes) ub" where
  "memcpy mem dst src len = do {
     mem \<leftarrow> memcpy_loop mem dst src (unat len);
     Some (dst, mem)
   }"

fun memcmp_loop :: "bytes \<Rightarrow> nat \<Rightarrow> nat \<Rightarrow> nat \<Rightarrow> int ub" where
  "memcmp_loop mem a b 0 = Some 0"
| "memcmp_loop mem a b (Suc n) = do {
     l \<leftarrow> rd mem a;
     r \<leftarrow> rd mem b;
     if sint l - sint r \<noteq> 0 then Some (if sint l > sint r then 1 else - 1)
     else memcmp_loop mem (a + 1) (b + 1) n
   }"

definition memcmp :: "bytes \<Rightarrow> nat \<Rightarrow> nat \<Rightarrow> u32 \<Rightarrow> int ub" where
  "memcmp mem a b len = memcmp_loop mem a b (unat len)"

subsection \<open>The memory manager\<close>

type_synonym mem_alloc = "u32 \<Rightarrow> bytes \<Rightarrow> (nat ptr \<times> bytes) ub"

definition c_malloc :: "mem_alloc \<Rightarrow> u32 \<Rightarrow> bytes \<Rightarrow> (nat ptr \<times> bytes) ub" where
  "c_malloc mem_manager_alloc len mem = mem_manager_alloc len mem"

definition c_realloc :: "(nat ptr \<Rightarrow> u32 \<Rightarrow> bytes \<Rightarrow> (nat ptr \<times> bytes) ub) \<Rightarrow> nat ptr \<Rightarrow> u32 \<Rightarrow> bytes \<Rightarrow>
    (nat ptr \<times> bytes) ub" where
  "c_realloc mem_manager_realloc ptr len mem = mem_manager_realloc ptr len mem"

definition c_free :: "(nat ptr \<Rightarrow> bytes \<Rightarrow> bytes ub) \<Rightarrow> nat ptr \<Rightarrow> bytes \<Rightarrow> bytes ub" where
  "c_free mem_manager_free ptr mem = mem_manager_free ptr mem"

text \<open>\<open>calloc\<close> does not look at the pointer before it clears the memory.\<close>

definition c_calloc :: "mem_alloc \<Rightarrow> u32 \<Rightarrow> u32 \<Rightarrow> bytes \<Rightarrow> (nat ptr \<times> bytes) ub" where
  "c_calloc mem_manager_alloc len type_size mem = do {
     let full_size = len * type_size;
     (ptr, mem) \<leftarrow> mem_manager_alloc full_size mem;
     (case ptr of
        None \<Rightarrow> if full_size = 0 then Some (None, mem) else None
      | Some p \<Rightarrow> do { (_, mem) \<leftarrow> memset mem p 0 full_size; Some (Some p, mem) })
   }"

subsection \<open>Strings\<close>

function strlen_from :: "bytes \<Rightarrow> nat \<Rightarrow> u32 \<Rightarrow> u32 ub" where
  "strlen_from mem str cnt = do {
     c \<leftarrow> rd mem str;
     if c \<noteq> 0 then strlen_from mem (str + 1) (cnt + 1) else Some cnt
   }"
  by pat_completeness auto
termination by (relation "measure (\<lambda>(mem, str, cnt). length mem - str)") (auto simp: rd_eq_Some)

declare strlen_from.simps [simp del]

definition strlen :: "bytes \<Rightarrow> nat \<Rightarrow> u32 ub" where
  "strlen mem str = strlen_from mem str 0"

text \<open>For the empty string the loop does not run.\<close>

function strrev_loop :: "(bytes \<Rightarrow> nat \<Rightarrow> nat \<Rightarrow> bytes ub) \<Rightarrow> bytes \<Rightarrow> nat \<Rightarrow> nat \<Rightarrow> bytes ub" where
  "strrev_loop swapU8 mem l r =
     (if l < r then do {
        mem \<leftarrow> swapU8 mem l r;
        strrev_loop swapU8 mem (l + 1) (r - 1)
      } else Some mem)"
  by pat_completeness auto
termination by (relation "measure (\<lambda>(swapU8, mem, l, r). r - l)") auto

declare strrev_loop.simps [simp del]

definition strrev :: "(bytes \<Rightarrow> nat \<Rightarrow> nat \<Rightarrow> bytes ub) \<Rightarrow> bytes \<Rightarrow> nat \<Rightarrow> bytes ub" where
  "strrev swapU8 mem str = do {
     n \<leftarrow> strlen mem str;
     strrev_loop swapU8 mem str (str + unat n - 1)
   }"

subsection \<open>Numbers\<close>

definition radix_arr :: bytes where
  "radix_arr = [0x30, 0x31, 0x32, 0x33, 0x34, 0x35, 0x36, 0x37, 0x38, 0x39,
     0x41, 0x42, 0x43, 0x44, 0x45, 0x46, 0x47, 0]"

function itoa_loop :: "int \<Rightarrow> bytes \<Rightarrow> nat \<Rightarrow> int \<Rightarrow> bytes ub" where
  "itoa_loop radix mem str num =
     (if num \<noteq> 0 then
        if radix = 0 \<or> num smod radix < 0 then None
        else do {
          c \<leftarrow> rd radix_arr (nat (num smod radix));
          mem' \<leftarrow> wr mem str c;
          itoa_loop radix mem' (str + 1) (num sdiv radix)
        }
      else Some mem)"
  by pat_completeness auto
termination by (relation "measure (\<lambda>(radix, mem, str, num). length mem - str)") (auto simp: wr_eq_Some)

declare itoa_loop.simps [simp del]

definition itoa :: "(bytes \<Rightarrow> nat \<Rightarrow> nat \<Rightarrow> bytes ub) \<Rightarrow> bytes \<Rightarrow> int \<Rightarrow> nat \<Rightarrow> int \<Rightarrow> (nat \<times> bytes) ub" where
  "itoa swapU8 mem num str radix = do {
     let base_str = str;
     mem \<leftarrow> (if num = 0 then wr mem str 0x30 else Some mem);
     (mem, num, str) \<leftarrow>
       (if num < 0 then do {
          (mem, str) \<leftarrow> (if radix = 10 then do { mem \<leftarrow> wr mem str 0x2D; Some (mem, str + 1) } else Some (mem, str));
          if - num > 2147483647 then None else Some (mem, - num, str)
        } else Some (mem, num, str));
     mem \<leftarrow> itoa_loop radix mem str num;
     mem \<leftarrow> strrev swapU8 mem str;
     Some (base_str, mem)
   }"

text \<open>\<open>atoi\<close> reads a sign and does not use it.\<close>

function atoi_loop :: "bytes \<Rightarrow> nat \<Rightarrow> int \<Rightarrow> int ub" where
  "atoi_loop mem str num = do {
     c \<leftarrow> rd mem str;
     if c \<noteq> 0 \<and> 0x30 \<le> c \<and> c \<le> 0x39
     then let num = num * 10 + (uint c - 0x30) in
       if num > 2147483647 then None else atoi_loop mem (str + 1) num
     else Some num
   }"
  by pat_completeness auto
termination by (relation "measure (\<lambda>(mem, str, num). length mem - str)") (auto simp: rd_eq_Some)

declare atoi_loop.simps [simp del]

definition atoi :: "bytes \<Rightarrow> nat \<Rightarrow> int ub" where
  "atoi mem str = do {
     c \<leftarrow> rd mem str;
     atoi_loop mem (if c = 0x2D then str + 1 else str) 0
   }"

subsection \<open>Comparing, splitting and copying strings\<close>

text \<open>
  At the first difference \<open>strcmp\<close> returns the difference of the pointers. It is undefined for
  pointers into different objects and for a difference outside \<open>ptrdiff_t\<close>, which has 32 bits on
  these boards. \<open>obj a\<close> is the object that the address \<open>a\<close> belongs to.
\<close>

definition int32_result :: "int \<Rightarrow> int ub" where
  "int32_result x = (if - 2147483648 \<le> x \<and> x \<le> 2147483647 then Some x else None)"

definition pointer_diff :: "(nat \<Rightarrow> nat) \<Rightarrow> nat \<Rightarrow> nat \<Rightarrow> int ub" where
  "pointer_diff obj p q = (if obj p = obj q then int32_result (int p - int q) else None)"

function strcmp_loop :: "(nat \<Rightarrow> nat) \<Rightarrow> bytes \<Rightarrow> nat \<Rightarrow> nat \<Rightarrow> int ub" where
  "strcmp_loop obj mem str1 str2 = do {
     a \<leftarrow> rd mem str1;
     if a = 0 then Some 0 else do {
       b \<leftarrow> rd mem str2;
       if b = 0 then Some 0
       else if a \<noteq> b then pointer_diff obj str1 str2
       else strcmp_loop obj mem (str1 + 1) (str2 + 1)
     }
   }"
  by pat_completeness auto
termination by (relation "measure (\<lambda>(obj, mem, str1, str2). length mem - str1)") (auto simp: rd_eq_Some)

declare strcmp_loop.simps [simp del]

definition strcmp :: "(nat \<Rightarrow> nat) \<Rightarrow> bytes \<Rightarrow> nat \<Rightarrow> nat \<Rightarrow> int ub" where
  "strcmp obj mem str1 str2 = do {
     l1 \<leftarrow> strlen mem str1;
     l2 \<leftarrow> strlen mem str2;
     if l1 \<noteq> l2 then int32_result (sint l1 - sint l2) else strcmp_loop obj mem str1 str2
   }"

text \<open>
  The two loops of \<open>strtok\<close>. The results have \<open>ret\<close> and the static pointer \<open>_buffer\<close>; the inner one
  says whether it has jumped to the exit.
\<close>

function strtok_delims :: "nat \<Rightarrow> bytes \<Rightarrow> nat \<Rightarrow> nat \<Rightarrow> nat \<Rightarrow> (bool \<times> bytes \<times> nat \<times> nat) ub" where
  "strtok_delims p mem d ret buf = do {
     c \<leftarrow> rd mem d;
     if c = 0 then Some (False, mem, ret, buf) else do {
       x \<leftarrow> rd mem p;
       if x = c then do {
         mem' \<leftarrow> wr mem p 0;
         if p = ret then strtok_delims p mem' (d + 1) (ret + 1) (p + 1)
         else Some (True, mem', ret, p + 1)
       } else strtok_delims p mem (d + 1) ret buf
     }
   }"
  by pat_completeness auto
termination by (relation "measure (\<lambda>(p, mem, d, ret, buf). length mem - d)") (auto simp: rd_eq_Some wr_eq_Some)

declare strtok_delims.simps [simp del]

lemma length_strtok_delims: "strtok_delims p mem d ret buf = Some (ex, mem', r) \<Longrightarrow> length mem' = length mem"
proof (induction p mem d ret buf arbitrary: ex mem' r rule: strtok_delims.induct)
  case (1 p mem d ret buf)
  obtain c where c: "d < length mem" "c = mem ! d"
    using 1(3) by (auto simp: strtok_delims.simps [of p mem d ret buf] rd_def split: if_splits)
  show ?case
  proof (cases "c \<noteq> 0 \<and> p < length mem \<and> mem ! p = c")
    case True
    then have "strtok_delims p mem d ret buf = (if p = ret then strtok_delims p (mem[p := 0]) (d + 1) (ret + 1) (p + 1)
        else Some (True, mem[p := 0], ret, p + 1))"
      using c by (simp add: strtok_delims.simps [of p mem d ret buf] mem_simps)
    moreover have "rd mem d = Some c" "rd mem p = Some c" "wr mem p 0 = Some (mem[p := 0])"
      using True c by (simp_all add: mem_simps)
    ultimately show ?thesis
      using 1(1) [of c c "mem[p := 0]" ex mem' r] 1(3) True by (cases "p = ret") simp_all
  next
    case False
    show ?thesis
    proof (cases "c = 0")
      case True
      then show ?thesis using 1(3) c by (simp add: strtok_delims.simps [of p mem d ret buf] mem_simps)
    next
      case nz: False
      then obtain x where x: "rd mem p = Some x" "x \<noteq> c"
        using False 1(3) c by (auto simp: strtok_delims.simps [of p mem d ret buf] rd_def split: if_splits)
      then have "strtok_delims p mem d ret buf = strtok_delims p mem (d + 1) ret buf"
        using nz c by (simp add: strtok_delims.simps [of p mem d ret buf] rd_def)
      then have "strtok_delims p mem (d + 1) ret buf = Some (ex, mem', r)" using 1(3) by simp
      then show ?thesis by (intro 1(2) [of c x ex mem' r]) (use x nz c in \<open>simp_all add: rd_def\<close>)
    qed
  qed
qed


function strtok_loop :: "nat \<Rightarrow> bytes \<Rightarrow> nat \<Rightarrow> nat \<Rightarrow> nat \<Rightarrow> (bytes \<times> nat \<times> nat) ub" where
  "strtok_loop delim mem p ret buf = do {
     c \<leftarrow> rd mem p;
     if c = 0 then Some (mem, ret, buf) else do {
       (ex, mem', ret, buf) \<leftarrow> strtok_delims p mem delim ret buf;
       if ex then Some (mem', ret, buf) else strtok_loop delim mem' (p + 1) ret buf
     }
   }"
  by pat_completeness auto
termination
  by (relation "measure (\<lambda>(delim, mem, p, ret, buf). length mem - p)")
    (auto simp: rd_eq_Some dest!: length_strtok_delims)

declare strtok_loop.simps [simp del]

text \<open>\<open>buf\<close> is the static pointer; a null pointer is returned for the errors.\<close>

definition strtok :: "bytes \<Rightarrow> nat ptr \<Rightarrow> nat ptr \<Rightarrow> nat ptr \<Rightarrow> (nat ptr \<times> bytes \<times> nat ptr) ub" where
  "strtok mem buf str delim =
     (if str = None \<and> buf = None then Some (None, mem, buf)
      else do {
        at_end \<leftarrow> (case (delim, buf) of
            (None, _) \<Rightarrow> Some True
          | (Some d, None) \<Rightarrow> Some False
          | (Some d, Some b) \<Rightarrow> do { c \<leftarrow> rd mem b; Some (c = 0) });
        if at_end then Some (None, mem, buf) else do {
          d \<leftarrow> delim;
          b \<leftarrow> (if str \<noteq> None then str else buf);
          (mem, ret, b) \<leftarrow> strtok_loop d mem b b b;
          Some (Some ret, mem, Some b)
        }
      })"

function strcpy_loop :: "bytes \<Rightarrow> nat \<Rightarrow> nat \<Rightarrow> bytes ub" where
  "strcpy_loop mem dst src = do {
     c \<leftarrow> rd mem src;
     if c = 0 then Some mem else do {
       mem' \<leftarrow> wr mem dst c;
       strcpy_loop mem' (dst + 1) (src + 1)
     }
   }"
  by pat_completeness auto
termination by (relation "measure (\<lambda>(mem, dst, src). length mem - src)") (auto simp: rd_eq_Some wr_eq_Some)

declare strcpy_loop.simps [simp del]

text \<open>\<open>strcpy\<close> returns the pointer cut down to a \<open>char\<close>; neither function writes the final 0.\<close>

definition strcpy :: "bytes \<Rightarrow> nat \<Rightarrow> nat \<Rightarrow> (u8 \<times> bytes) ub" where
  "strcpy mem dst src = do {
     mem \<leftarrow> strcpy_loop mem dst src;
     Some (of_nat dst, mem)
   }"

definition strcat :: "bytes \<Rightarrow> nat \<Rightarrow> nat \<Rightarrow> (nat \<times> bytes) ub" where
  "strcat mem dst src = do {
     shift \<leftarrow> strlen mem dst;
     mem \<leftarrow> strcpy_loop mem (dst + unat shift) src;
     Some (dst, mem)
   }"

subsection \<open>Strings in memory\<close>

text \<open>The bytes \<open>xs\<close>, none of them 0, and a 0 after them stand at \<open>p\<close>.\<close>

definition string_at :: "bytes \<Rightarrow> nat \<Rightarrow> bytes \<Rightarrow> bool" where
  "string_at mem p xs \<longleftrightarrow> 0 \<notin> set xs \<and> (\<exists>pre post. mem = pre @ xs @ 0 # post \<and> length pre = p)"

lemma string_at_Nil: "string_at mem p [] \<longleftrightarrow> rd mem p = Some 0"
proof
  assume "rd mem p = Some 0"
  then have "mem = take p mem @ 0 # drop (Suc p) mem" and "p < length mem"
    by (simp_all add: rd_eq_Some) (metis id_take_nth_drop)
  then show "string_at mem p []" unfolding string_at_def by (metis append_Nil empty_iff empty_set length_take min.absorb4)
qed (auto simp: string_at_def rd_def nth_append)

lemma string_at_Cons: "string_at mem p (x # xs) \<longleftrightarrow> x \<noteq> 0 \<and> rd mem p = Some x \<and> string_at mem (p + 1) xs"
proof
  assume "string_at mem p (x # xs)"
  then obtain pre post where "mem = pre @ (x # xs) @ 0 # post" "length pre = p" "x \<noteq> 0" "0 \<notin> set xs"
    by (auto simp: string_at_def)
  moreover from this have "mem = (pre @ [x]) @ xs @ 0 # post" "length (pre @ [x]) = p + 1" by simp_all
  then have "\<exists>pre post. mem = pre @ xs @ 0 # post \<and> length pre = p + 1" by blast
  ultimately show "x \<noteq> 0 \<and> rd mem p = Some x \<and> string_at mem (p + 1) xs"
    unfolding string_at_def by (simp add: rd_def) (auto simp: nth_append)
next
  assume a: "x \<noteq> 0 \<and> rd mem p = Some x \<and> string_at mem (p + 1) xs"
  then obtain pre post where m: "mem = pre @ xs @ 0 # post" "length pre = p + 1" "0 \<notin> set xs"
    by (auto simp: string_at_def)
  then have "pre ! p = x" using a by (auto simp: rd_def nth_append)
  then have "pre = take p pre @ [x]" using m(2) by (metis Suc_eq_plus1 lessI order_refl take_Suc_conv_app_nth take_all)
  then have "mem = take p pre @ (x # xs) @ 0 # post" using m(1) by (metis append_Cons append_Nil append_assoc)
  moreover have "length (take p pre) = p" using m(2) by simp
  ultimately have "\<exists>pre post. mem = pre @ (x # xs) @ 0 # post \<and> length pre = p" by blast
  then show "string_at mem p (x # xs)" using a m(3) by (simp add: string_at_def)
qed

lemma strlen_from_eq: "string_at mem p xs \<Longrightarrow> strlen_from mem p n = Some (n + of_nat (length xs))"
proof (induction xs arbitrary: p n)
  case Nil
  then show ?case by (simp add: strlen_from.simps [of mem p] string_at_Nil)
next
  case (Cons x xs)
  then show ?case by (simp add: strlen_from.simps [of mem p] string_at_Cons add.assoc)
qed

lemma strlen_eq: "string_at mem p xs \<Longrightarrow> strlen mem p = Some (of_nat (length xs))"
  by (simp add: strlen_def strlen_from_eq)


subsection \<open>Comparison\<close>

text \<open>A string lies within one object.\<close>

definition in_object :: "(nat \<Rightarrow> nat) \<Rightarrow> nat \<Rightarrow> bytes \<Rightarrow> bool" where
  "in_object obj p xs \<longleftrightarrow> (\<forall>k \<le> length xs. obj (p + k) = obj p)"

lemma in_object_Cons: "in_object obj p (x # xs) \<longleftrightarrow> obj (p + 1) = obj p \<and> in_object obj (p + 1) xs"
proof
  assume a: "in_object obj p (x # xs)"
  then have o: "obj (p + k) = obj p" if "k \<le> Suc (length xs)" for k
    using that by (simp add: in_object_def)
  have "obj (p + 1 + k) = obj (p + 1)" if "k \<le> length xs" for k
    using o [of "Suc k"] o [of 1] that by simp
  then show "obj (p + 1) = obj p \<and> in_object obj (p + 1) xs"
    using o [of 1] by (simp add: in_object_def)
next
  assume a: "obj (p + 1) = obj p \<and> in_object obj (p + 1) xs"
  have "obj (p + k) = obj p" if "k \<le> length (x # xs)" for k
  proof (cases k)
    case (Suc j)
    then have "obj (p + 1 + j) = obj (p + 1)" using a that by (simp add: in_object_def)
    then show ?thesis using a Suc by simp
  qed simp
  then show "in_object obj p (x # xs)" by (simp add: in_object_def)
qed

lemma strcmp_loop_eq:
  "string_at mem p xs \<Longrightarrow> string_at mem q ys \<Longrightarrow> length xs = length ys \<Longrightarrow>
     in_object obj p xs \<Longrightarrow> in_object obj q ys \<Longrightarrow>
     strcmp_loop obj mem p q = (if xs = ys then Some 0 else pointer_diff obj p q)"
proof (induction xs ys arbitrary: p q rule: list_induct2')
  case 1
  then show ?case by (simp add: strcmp_loop.simps [of obj mem p] string_at_Nil)
next
  case (4 x xs y ys)
  have "pointer_diff obj (p + 1) (q + 1) = pointer_diff obj p q"
    using 4(5,6) by (simp add: pointer_diff_def in_object_Cons)
  moreover have "strcmp_loop obj mem (p + 1) (q + 1) =
      (if xs = ys then Some 0 else pointer_diff obj (p + 1) (q + 1))"
    using 4(2-6) by (intro 4(1)) (simp_all add: string_at_Cons in_object_Cons)
  ultimately show ?case
    using 4(2,3) by (simp add: strcmp_loop.simps [of obj mem p q] string_at_Cons)
qed simp_all

lemma strcmp_eq:
  assumes "string_at mem p xs" and "string_at mem q ys" and "length xs < 2 ^ 31" and "length ys < 2 ^ 31"
    and "in_object obj p xs" and "in_object obj q ys"
  shows "strcmp obj mem p q = (if length xs \<noteq> length ys then Some (int (length xs) - int (length ys))
    else if xs = ys then Some 0 else pointer_diff obj p q)"
proof -
  have "sint (of_nat n :: u32) = int n" if "n < 2 ^ 31" for n
    using that by (simp add: signed_of_nat signed_take_bit_int_eq_self)
  moreover have "(of_nat (length xs) :: u32) = of_nat (length ys) \<longleftrightarrow> length xs = length ys"
    using assms(3,4) by (auto simp: word_of_nat_eq_iff take_bit_nat_eq_self)
  moreover have "int32_result (int (length xs) - int (length ys)) = Some (int (length xs) - int (length ys))"
    using assms(3,4) by (simp add: int32_result_def)
  ultimately show ?thesis
    using assms strcmp_loop_eq [OF assms(1,2) _ assms(5,6)] by (simp add: strcmp_def strlen_eq)
qed

subsection \<open>Reversal\<close>

definition swaps :: "(bytes \<Rightarrow> nat \<Rightarrow> nat \<Rightarrow> bytes ub) \<Rightarrow> bool" where
  "swaps swapU8 \<longleftrightarrow> (\<forall>mem l r. l < length mem \<and> r < length mem \<longrightarrow>
     swapU8 mem l r = Some (mem[l := mem ! r, r := mem ! l]))"

lemma strrev_loop_eq:
  assumes "swaps swapU8"
  shows "strrev_loop swapU8 (pre @ xs @ post) (length pre) (length pre + length xs - 1) = Some (pre @ rev xs @ post)"
proof (induction "length xs" arbitrary: pre xs post rule: less_induct)
  case less
  show ?case
  proof (cases "length xs < 2")
    case True
    then have "rev xs = xs" by (cases xs) auto
    moreover have "\<not> length pre < length pre + length xs - 1" using True by linarith
    ultimately show ?thesis by (subst strrev_loop.simps) (simp only: if_False)
  next
    case False
    then obtain a m b where xs: "xs = a # m @ [b]"
      by (cases xs; cases "tl xs" rule: rev_cases) auto
    have "swapU8 (pre @ xs @ post) (length pre) (length pre + length xs - 1) = Some ((pre @ [b]) @ m @ [a] @ post)"
      using assms by (simp add: swaps_def xs nth_append list_update_append)
    moreover have "strrev_loop swapU8 ((pre @ [b]) @ m @ [a] @ post) (length (pre @ [b])) (length (pre @ [b]) + length m - 1) =
        Some ((pre @ [b]) @ rev m @ [a] @ post)"
      by (rule less.hyps) (simp add: xs)
    ultimately show ?thesis by (subst strrev_loop.simps) (simp add: xs)
  qed
qed

lemma strrev_eq:
  assumes "swaps swapU8" and "0 \<notin> set xs" and "length xs < 2 ^ 32"
  shows "strrev swapU8 (pre @ xs @ 0 # post) (length pre) = Some (pre @ rev xs @ 0 # post)"
proof -
  have "string_at (pre @ xs @ 0 # post) (length pre) xs" using assms(2) by (auto simp: string_at_def)
  then show ?thesis
    using strrev_loop_eq [OF assms(1), of pre xs "0 # post"] assms(3)
    by (simp add: strrev_def strlen_eq unat_of_nat)
qed


subsection \<open>Numbers as text\<close>

text \<open>The decimal digits of a number, the lowest first, and the value of a text of digits.\<close>

fun low_digits :: "nat \<Rightarrow> bytes" where
  "low_digits n = (if n = 0 then [] else radix_arr ! (n mod 10) # low_digits (n div 10))"

declare low_digits.simps [simp del]

definition digits_value :: "int \<Rightarrow> bytes \<Rightarrow> int" where
  "digits_value = foldl (\<lambda>n c. n * 10 + (uint c - 0x30))"

definition is_digit :: "u8 \<Rightarrow> bool" where
  "is_digit c \<longleftrightarrow> 0x30 \<le> c \<and> c \<le> 0x39"

lemma radix_digit: "d < 10 \<Longrightarrow> is_digit (radix_arr ! d) \<and> uint (radix_arr ! d) = 0x30 + int d"
proof -
  assume "d < 10"
  then have "d \<in> {0, 1, 2, 3, 4, 5, 6, 7, 8, 9}" by auto
  then show ?thesis by (auto simp: radix_arr_def is_digit_def)
qed

lemma digit_nonzero: "is_digit c \<Longrightarrow> c \<noteq> 0"
  by (auto simp: is_digit_def)

lemma low_digits_digits: "c \<in> set (low_digits n) \<Longrightarrow> is_digit c"
proof (induction n rule: low_digits.induct)
  case (1 n)
  then show ?case using radix_digit [of "n mod 10"] by (subst (asm) (2) low_digits.simps) (auto split: if_splits)
qed

lemma low_digits_value: "digits_value 0 (rev (low_digits n)) = int n"
proof (induction n rule: low_digits.induct)
  case (1 n)
  show ?case
  proof (cases "n = 0")
    case False
    then have "digits_value 0 (rev (low_digits n)) = int (n div 10) * 10 + int (n mod 10)"
      using 1 radix_digit [of "n mod 10"]
      by (subst low_digits.simps) (simp add: digits_value_def)
    also have "\<dots> = int (n div 10 * 10 + n mod 10)" by (simp only: of_nat_add of_nat_mult of_nat_numeral)
    finally show ?thesis by (simp only: div_mult_mod_eq)
  qed (simp add: low_digits.simps digits_value_def)
qed

lemma length_low_digits: "n < 10 ^ k \<Longrightarrow> length (low_digits n) \<le> k"
proof (induction k arbitrary: n)
  case (Suc k)
  then have "n div 10 < 10 ^ k" by (simp add: div_less_iff_less_mult ac_simps)
  then show ?case using Suc.IH by (subst low_digits.simps) simp
qed (simp add: low_digits.simps)

lemma itoa_loop_eq:
  "length z = length (low_digits n) \<Longrightarrow>
     itoa_loop 10 (pre @ z @ post) (length pre) (int n) = Some (pre @ low_digits n @ post)"
proof (induction n arbitrary: pre z rule: low_digits.induct)
  case (1 n)
  show ?case
  proof (cases "n = 0")
    case True
    then show ?thesis using 1(2) by (simp add: itoa_loop.simps low_digits.simps)
  next
    case False
    then have d: "low_digits n = radix_arr ! (n mod 10) # low_digits (n div 10)" by (simp add: low_digits.simps)
    then obtain y ys where z: "z = y # ys" "length ys = length (low_digits (n div 10))"
      using 1(2) by (cases z) auto
    have sd: "int n smod 10 = int (n mod 10)" "int n sdiv 10 = int (n div 10)"
      using False by (simp_all add: signed_modulo_int_def signed_divide_int_def zmod_int zdiv_int minus_div_mult_eq_mod)
    have "rd radix_arr (n mod 10) = Some (radix_arr ! (n mod 10))" by (simp add: rd_def radix_arr_def)
    then have "itoa_loop 10 (pre @ z @ post) (length pre) (int n) =
        itoa_loop 10 ((pre @ [radix_arr ! (n mod 10)]) @ ys @ post) (length (pre @ [radix_arr ! (n mod 10)])) (int (n div 10))"
      using False by (subst itoa_loop.simps) (simp add: sd z mem_simps list_update_append)
    also have "\<dots> = Some ((pre @ [radix_arr ! (n mod 10)]) @ low_digits (n div 10) @ post)"
      by (rule 1(1) [OF False z(2)])
    finally show ?thesis by (simp add: d)
  qed
qed

lemma digits_value_ge: "0 \<le> acc \<Longrightarrow> \<forall>c \<in> set ds. is_digit c \<Longrightarrow> acc \<le> digits_value acc ds"
proof (induction ds arbitrary: acc)
  case (Cons c ds)
  then have "0x30 \<le> uint c" by (auto simp: is_digit_def word_le_def)
  then show ?case using Cons.IH [of "acc * 10 + (uint c - 0x30)"] Cons.prems by (simp add: digits_value_def)
qed (simp add: digits_value_def)

lemma atoi_loop_eq:
  "string_at mem p ds \<Longrightarrow> \<forall>c \<in> set ds. is_digit c \<Longrightarrow> 0 \<le> acc \<Longrightarrow> digits_value acc ds \<le> 2147483647 \<Longrightarrow>
     atoi_loop mem p acc = Some (digits_value acc ds)"
proof (induction ds arbitrary: p acc)
  case Nil
  then show ?case by (simp add: atoi_loop.simps [of mem p] string_at_Nil digits_value_def)
next
  case (Cons c ds)
  let ?a = "acc * 10 + (uint c - 0x30)"
  have c: "is_digit c" "0x30 \<le> uint c" using Cons.prems(2) by (auto simp: is_digit_def word_le_def)
  then have "?a \<le> digits_value ?a ds" using Cons.prems by (intro digits_value_ge) auto
  moreover have v: "digits_value acc (c # ds) = digits_value ?a ds" by (simp add: digits_value_def)
  ultimately have "?a \<le> 2147483647" using Cons.prems(4) by linarith
  then show ?case
    using Cons c digit_nonzero [OF c(1)] unfolding v
    by (simp add: atoi_loop.simps [of mem p] string_at_Cons Let_def is_digit_def)
qed


lemma itoa_run:
  assumes sw: "swaps swapU8" and n: "n < 10 ^ 10" "length (low_digits n) \<le> k"
  shows "\<exists>mem. itoa_loop 10 (pre @ replicate k 0 @ 0 # post) (length pre) (int n) = Some mem
    \<and> strrev swapU8 mem (length pre) = Some (pre @ rev (low_digits n) @ replicate (k - length (low_digits n)) 0 @ 0 # post)"
proof -
  let ?d = "low_digits n" and ?z = "replicate (k - length (low_digits n)) (0 :: u8)"
  have z: "replicate k (0 :: u8) = replicate (length ?d) 0 @ ?z" using n(2) by (simp flip: replicate_add)
  have 1: "itoa_loop 10 (pre @ replicate k 0 @ 0 # post) (length pre) (int n) = Some (pre @ ?d @ ?z @ 0 # post)"
    using itoa_loop_eq [of "replicate (length ?d) 0" n pre "?z @ 0 # post"] by (simp add: z)
  obtain r where r: "?z @ 0 # post = 0 # r" by (cases "k - length ?d") auto
  have nz: "0 \<notin> set ?d" using low_digits_digits digit_nonzero by blast
  have "length ?d \<le> 10" by (rule length_low_digits [OF n(1)])
  then have "strrev swapU8 (pre @ ?d @ ?z @ 0 # post) (length pre) = Some (pre @ rev ?d @ ?z @ 0 # post)"
    using strrev_eq [OF sw nz, of pre r] by (simp add: r)
  then show ?thesis using 1 by blast
qed

text \<open>Reading the text of a number, at its first byte and behind a sign.\<close>

lemma atoi_digits:
  assumes "0 < n" and "n \<le> 2147483647" and mem: "mem = pre @ rev (low_digits n) @ replicate j 0 @ 0 # post"
  shows "atoi_loop mem (length pre) 0 = Some (int n)" and "rd mem (length pre) \<noteq> Some 0x2D"
    and "\<exists>c. rd mem (length pre) = Some c"
proof -
  let ?d = "rev (low_digits n)"
  obtain r where "replicate j 0 @ 0 # post = 0 # r" by (cases j) auto
  then have m: "mem = pre @ ?d @ 0 # r" using mem by simp
  have dg: "\<forall>c \<in> set ?d. is_digit c" using low_digits_digits by simp
  then have "0 \<notin> set ?d" using digit_nonzero by blast
  then have "string_at mem (length pre) ?d" using m by (auto simp: string_at_def)
  then show "atoi_loop mem (length pre) 0 = Some (int n)"
    using atoi_loop_eq [of mem "length pre" ?d 0] dg assms(2) by (simp add: low_digits_value)
  have "?d \<noteq> []" using assms(1) by (simp add: low_digits.simps)
  then obtain c cs where c: "?d = c # cs" by (cases ?d) auto
  then have "rd mem (length pre) = Some c" and "is_digit c" using m dg by (auto simp: rd_def nth_append)
  then show "rd mem (length pre) \<noteq> Some 0x2D" and "\<exists>c. rd mem (length pre) = Some c"
    by (auto simp: is_digit_def)
qed

lemma low_digits_31: "n \<le> 2147483647 \<Longrightarrow> length (low_digits n) \<le> 10 \<and> n < 10 ^ 10"
  using length_low_digits [of n 10] by simp

lemma itoa_positive:
  assumes sw: "swaps swapU8" and n: "0 < n" "n \<le> 2147483647"
  shows "do { (p, mem') \<leftarrow> itoa swapU8 (pre @ replicate 12 0 @ post) (int n) (length pre) 10; atoi mem' p } = Some (int n)"
proof -
  let ?mem = "pre @ rev (low_digits n) @ replicate (11 - length (low_digits n)) 0 @ 0 # post"
  have "replicate 12 (0 :: u8) @ post = replicate 11 0 @ 0 # post"
    using replicate_add [of 11 1 "0 :: u8"] by simp
  then have "itoa swapU8 (pre @ replicate 12 0 @ post) (int n) (length pre) 10 = Some (length pre, ?mem)"
    using itoa_run [OF sw, of n 11 pre post] low_digits_31 [OF n(2)] n(1) by (auto simp: itoa_def)
  moreover have "atoi ?mem (length pre) = Some (int n)"
    using atoi_digits [OF n refl, of pre "11 - length (low_digits n)" post] by (auto simp: atoi_def)
  ultimately show ?thesis by simp
qed

lemma itoa_negative:
  assumes sw: "swaps swapU8" and n: "0 < n" "n \<le> 2147483647"
  shows "do { (p, mem') \<leftarrow> itoa swapU8 (pre @ replicate 12 0 @ post) (- int n) (length pre) 10; atoi mem' p } = Some (int n)"
proof -
  let ?pre = "pre @ [0x2D]"
  let ?mem = "?pre @ rev (low_digits n) @ replicate (10 - length (low_digits n)) 0 @ 0 # post"
  have "replicate 12 (0 :: u8) @ post = 0 # replicate 10 0 @ 0 # post"
    using replicate_add [of 11 1 "0 :: u8"] replicate_add [of 1 10 "0 :: u8"] by simp
  then have "wr (pre @ replicate 12 0 @ post) (length pre) 0x2D = Some (?pre @ replicate 10 0 @ 0 # post)"
    by (simp add: wr_def)
  then have "itoa swapU8 (pre @ replicate 12 0 @ post) (- int n) (length pre) 10 = Some (length pre, ?mem)"
    using itoa_run [OF sw, of n 10 ?pre post] low_digits_31 [OF n(2)] n by (auto simp: itoa_def)
  moreover have "atoi ?mem (length pre) = Some (int n)"
    using atoi_digits [OF n refl, of ?pre "10 - length (low_digits n)" post] by (auto simp: atoi_def rd_def nth_append)
  ultimately show ?thesis by simp
qed

lemma itoa_zero:
  assumes sw: "swaps swapU8"
  shows "do { (p, mem') \<leftarrow> itoa swapU8 (pre @ replicate 12 0 @ post) 0 (length pre) 10; atoi mem' p } = Some 0"
proof -
  have "replicate 12 (0 :: u8) @ post = 0 # 0 # replicate 10 0 @ post"
    using replicate_add [of 2 10 "0 :: u8"] by (simp add: numeral_2_eq_2)
  then have "itoa swapU8 (pre @ replicate 12 0 @ post) 0 (length pre) 10 = Some (length pre, pre @ [0x30] @ 0 # replicate 10 0 @ post)"
    using strrev_eq [OF sw, of "[0x30]" pre "replicate 10 0 @ post"]
    by (simp add: itoa_def wr_def itoa_loop.simps)
  moreover have "atoi_loop (pre @ [0x30] @ 0 # r) (length pre) 0 = Some 0" for r
    using atoi_loop_eq [of "pre @ [0x30] @ 0 # r" "length pre" "[0x30]" 0]
    by (simp add: string_at_def is_digit_def digits_value_def) blast
  ultimately show ?thesis by (simp add: atoi_def rd_def)
qed

subsection \<open>Properties\<close>

text \<open>
  C23. Decimal text and back: on a buffer of twelve zero bytes, \<open>itoa\<close> and then \<open>atoi\<close> give the
  absolute value of any number of type \<open>int32_t\<close> but the least. Numbers that are not negative come
  back as they were; negative ones lose their sign, because \<open>atoi\<close> does not use it. The buffer has to
  hold zeros because \<open>itoa\<close> does not end the text.
\<close>

theorem itoa_atoi_absolute:
  assumes "swaps swapU8" and "take 12 (drop str mem) = replicate 12 0"
    and "- 2147483648 < num" and "num \<le> 2147483647"
  shows "do {
      (p, mem') \<leftarrow> itoa swapU8 mem num str 10;
      atoi mem' p
    } = Some \<bar>num\<bar>"
proof -
  let ?pre = "take str mem" and ?post = "drop (str + 12) mem"
  have "length (take 12 (drop str mem)) = 12" using assms(2) by (simp only: length_replicate)
  then have "str + 12 \<le> length mem" by simp
  then have len: "length ?pre = str" by simp
  have mem: "mem = ?pre @ replicate 12 0 @ ?post"
    using assms(2) by (metis append_take_drop_id drop_drop add.commute)
  consider "num = 0" | "0 < num" | "num < 0" by linarith
  then show ?thesis
  proof cases
    case 1
    then show ?thesis using itoa_zero [OF assms(1), of ?pre ?post] len mem by simp
  next
    case 2
    define n where "n = nat num"
    then have n: "num = int n" "0 < n" "n \<le> 2147483647" using 2 assms(4) by auto
    show ?thesis using itoa_positive [OF assms(1) n(2,3), of ?pre ?post] len mem n(1) by simp
  next
    case 3
    define n where "n = nat (- num)"
    then have n: "num = - int n" "0 < n" "n \<le> 2147483647" using 3 assms(3) by auto
    show ?thesis using itoa_negative [OF assms(1) n(2,3), of ?pre ?post] len mem n(1) by simp
  qed
qed


definition swap_bytes :: "bytes \<Rightarrow> nat \<Rightarrow> nat \<Rightarrow> bytes ub" where
  "swap_bytes mem l r = do {
     x \<leftarrow> rd mem l;
     y \<leftarrow> rd mem r;
     mem \<leftarrow> wr mem l y;
     wr mem r x
   }"

lemma swaps_swap_bytes: "swaps swap_bytes"
  by (simp add: swaps_def swap_bytes_def mem_simps)

theorem itoa_atoi_absolute_witness:
  "do {
      (p, mem') \<leftarrow> itoa swap_bytes (replicate 16 0) (- 2147483647) 2 10;
      atoi mem' p
    } = Some \<bar>- 2147483647\<bar>"
  by (rule itoa_atoi_absolute) (simp_all add: swaps_swap_bytes)

text \<open>
  C30. The value of \<open>strcmp\<close> on two strings, each within one object: for different lengths the
  difference of the lengths; for equal strings 0; for different strings of equal length the difference
  of the two pointers, whatever the characters, which is undefined if the strings are in different
  objects or more than an \<open>int32_t\<close> apart. So 0 means equality, but the sign is not the order of the
  strings.
\<close>

theorem strcmp_value:
  assumes "string_at mem p xs" and "string_at mem q ys" and "length xs < 2 ^ 31" and "length ys < 2 ^ 31"
    and "in_object obj p xs" and "in_object obj q ys" and "p \<noteq> q"
  shows "strcmp obj mem p q =
      (if length xs \<noteq> length ys then Some (int (length xs) - int (length ys))
       else if xs = ys then Some 0
       else if obj p = obj q \<and> - 2147483648 \<le> int p - int q \<and> int p - int q \<le> 2147483647
         then Some (int p - int q)
       else None)
    \<and> (strcmp obj mem p q = Some 0 \<longleftrightarrow> xs = ys)"
  using strcmp_eq [OF assms(1-6)] assms(7) by (auto simp: pointer_diff_def int32_result_def)

theorem strcmp_value_witness:
  "strcmp (\<lambda>_. 0) [0x62, 0, 0x61, 0] 0 2 = Some (- 2) \<and> strcmp (\<lambda>_. 0) [0x62, 0, 0x61, 0] 0 2 \<noteq> Some 0
    \<and> strcmp (\<lambda>a. a div 2) [0x62, 0, 0x61, 0] 0 2 = None"
  using strcmp_value [of "[0x62, 0, 0x61, 0]" 0 "[0x62]" 2 "[0x61]" "\<lambda>_. 0"]
    strcmp_value [of "[0x62, 0, 0x61, 0]" 0 "[0x62]" 2 "[0x61]" "\<lambda>a. a div 2"]
  by (simp add: string_at_Cons string_at_Nil rd_def in_object_def le_Suc_eq)

lemma strtok_delims_none:
  "string_at mem d ds \<Longrightarrow> rd mem p = Some x \<Longrightarrow> x \<notin> set ds \<Longrightarrow>
     strtok_delims p mem d ret buf = Some (False, mem, ret, buf)"
proof (induction ds arbitrary: d)
  case Nil
  then show ?case by (simp add: strtok_delims.simps [of p mem d] string_at_Nil)
next
  case (Cons c ds)
  then show ?case by (simp add: strtok_delims.simps [of p mem d] string_at_Cons)
qed

lemma strtok_loop_none:
  "string_at mem p xs \<Longrightarrow> string_at mem d ds \<Longrightarrow> set xs \<inter> set ds = {} \<Longrightarrow>
     strtok_loop d mem p ret buf = Some (mem, ret, buf)"
proof (induction xs arbitrary: p)
  case Nil
  then show ?case by (simp add: strtok_loop.simps [of d mem p] string_at_Nil)
next
  case (Cons x xs)
  then show ?case
    using strtok_delims_none [of mem d ds p x] by (simp add: strtok_loop.simps [of d mem p] string_at_Cons)
qed

text \<open>
  C40. \<open>strtok\<close> repeats a last token that no delimiter follows: when the rest of the string is not
  empty and has no delimiter in it, a call returns that rest and leaves the memory and its state as
  they are, so every further call returns it again, where the C standard asks for a null pointer.
  (After a token that a delimiter ends, with nothing behind it, the next call does return a null
  pointer.)
\<close>

theorem strtok_repeats:
  assumes "string_at mem b tok" and "tok \<noteq> []" and "string_at mem d ds" and "set tok \<inter> set ds = {}"
  shows "strtok mem (Some b) None (Some d) = Some (Some b, mem, Some b)"
proof -
  obtain c where "rd mem b = Some c" "c \<noteq> 0"
    using assms(1,2) by (cases tok) (auto simp: string_at_Cons)
  then show ?thesis using strtok_loop_none [OF assms(1,3,4)] by (simp add: strtok_def)
qed

theorem strtok_repeats_witness:
  "strtok [0x61, 0x62, 0, 0x2C, 0] (Some 0) None (Some 3) = Some (Some 0, [0x61, 0x62, 0, 0x2C, 0], Some 0)"
  by (rule strtok_repeats [of _ _ "[0x61, 0x62]" _ "[0x2C]"])
    (simp_all add: string_at_Cons string_at_Nil rd_def)

end
