(* ===== verification/Spec2Isabelle.thy ===== *)
theory Spec2Isabelle
  imports Hmac Pbkdf2 Kbkdf_Hmac Rc4 Drbg Aes_Sbox Aes_Api Arm_Alloc Arm_String
begin

text \<open>
  A model of mbedCrypto, a cryptographic library in C for embedded systems (\<open>src/\<close>, \<open>includes/\<close>
  and the C support code of \<open>arch/arm/\<close>), and the theorems that make it correct.

  \<^bold>\<open>The program.\<close> The hash functions SHA-1, SHA-256 and SHA-512 work alone, on a context that
  collects a message in pieces. HMAC calls a hash through the structure of callbacks
  \<open>mbcrypt_hash_callbacks_t\<close>; PBKDF2 and KBKDF call HMAC through \<open>mbcrypt_hmac_callbacks_t\<close>. The random
  generator calls SHA-256; AES and RC4 stand alone. The functions that can fail return a status
  and leave by one exit as soon as a check fails. \<open>arch/arm\<close> has an allocator and C library functions
  for boards without one.

  \<^bold>\<open>How the code is modelled.\<close> A C function is a function of the same name on its arguments and on
  the objects it changes, which it returns. A result in \<open>'a ub\<close> is \<open>None\<close> for undefined behaviour
  (an access outside an object, a null pointer, an oversize shift, a signed overflow) and \<open>Some\<close> for a
  return. Two kinds of code that the standard leaves undefined have the result of the usual platforms
  instead: the left shifts into the sign bit in \<open>rand\<close> (two's complement) and the unaligned word
  accesses of the allocator (ARMv7). A pointer that the code compares with \<open>NULL\<close> is a \<open>'a ptr\<close>, where
  \<open>None\<close> is \<open>NULL\<close>. Where the preprocessor chooses, the model is the default configuration (no
  \<open>MAX_MBCRYPT_LEVEL\<close>, which only overwrites local data and the output of failed calls); the two
  variants of the compression functions, of the RC4 key schedule and of the xor loops are modelled
  both and proved equal. Fixed-width
  integers are words, so that they wrap; arrays that the code leaves uninitialised are arguments, so
  that every theorem holds whatever they contain. Distinct pointer arguments point to distinct
  objects, but for the functions of \<open>Arm_String\<close>, which share one memory. Loops are recursions
  on the number of passes or on an index that is bounded; no fuel is used, so every function is total
  and a theorem that a result is \<open>Some\<close> is one of termination and of memory safety too.

  \<^bold>\<open>The theories.\<close>
  \<^item> \<open>Prelude\<close>: words, byte lists, bounds-checked accesses, blocks of a list, big-endian encodings.
  \<^item> \<open>Mbcrypt\<close> (\<open>includes/mbcrypt.h\<close>, \<open>includes/macros.h\<close>): status codes, hash types, byte-order macros.
    \<open>Mbcrypt_Utils\<close> (\<open>src/mbcrypt_utils.c\<close>): the xor of memory, its unrolled form, the random source.
  \<^item> \<open>Hash_Stream\<close>, \<open>Hash_Api\<close>, \<open>Sha2\<close>: what the hashes share; the locales \<open>hash_stream\<close> (the steps of
    the streaming layer), \<open>hash_intake\<close> and \<open>hash_api\<close> (what a hash promises to a caller, without and
    with the digest) and \<open>sha2_rounds\<close> (a group of eight unrolled rounds). \<open>Sha1\<close>, \<open>Sha256\<close>, \<open>Sha512\<close> (\<open>src/sha1.c\<close> and so on): both variants of each
    compression function, the streaming functions, FIPS 180-4, and the interpretations.
  \<^item> \<open>Prf\<close>: the contract \<open>prf_api\<close> of a keyed function. \<open>Hmac\<close> (\<open>src/hmac.c\<close>): over every hash that keeps
    \<open>hash_api\<close>, HMAC keeps \<open>prf_api\<close> with the function of FIPS 198-1; interpreted on SHA-1 and SHA-256.
  \<^item> \<open>Pbkdf2\<close> (\<open>src/pbkdf2.c\<close>) and \<open>Kbkdf\<close>, \<open>Kbkdf_Counter\<close>, \<open>Kbkdf_Chained\<close>, \<open>Kbkdf_Api\<close> (\<open>src/kbkdf.c\<close>): the
    derivations over \<open>prf_api\<close>, with RFC 8018 and SP 800-108; \<open>Kbkdf_Hmac\<close> and this theory put the
    library's own HMAC under them.
  \<^item> \<open>Rc4\<close> (\<open>src/rc4.c\<close>): the key schedule, rolled and unrolled, and the stream. \<open>Drbg\<close> (\<open>src/drbg.c\<close>).
  \<^item> \<open>Aes_Field\<close>, \<open>Aes_Cipher\<close>, \<open>Aes_Modes\<close> (\<open>src/aes.c\<close>): the tables and the field, the block cipher and
    the key expansion, the keys, modes and entry point. \<open>Aes_Sbox\<close>, \<open>Aes_Block\<close>, \<open>Aes_Key\<close>: the box, the
    cipher and the schedule are those of FIPS 197, and decryption undoes encryption. \<open>Aes_Modes_Spec\<close>:
    the modes of SP 800-38A; the locales \<open>block_mode\<close> and \<open>stream_mode\<close> give the value of a whole mode
    from the step of its loop, and all six modes interpret them. \<open>Aes_Api\<close>: the properties.
  \<^item> \<open>Arm_Alloc\<close> (\<open>arch/arm/armv7_mem_test.c\<close>): the allocator as a step relation, and its invariant.
    \<open>Arm_String\<close> (\<open>arch/arm/armv7_platform_specific.c\<close>): memory, string and number functions.

  \<^bold>\<open>What the theorems show.\<close> The digests, the message authentication codes, the derived keys and
  the ciphertexts are those of the standards, for messages in any pieces and within the bounds that
  the theorems state; optimised routines equal the plain ones; decryption and the stream modes undo
  themselves; the states of RC4 and of the allocator keep their invariants; and every rejected call
  leaves its output alone. Where the code fails, a theorem shows how: the last step of SHA-512, and
  with it HMAC over SHA-512, is undefined for every message (\<open>uint32_t >> 61\<close>), the counter of PBKDF2
  has 24 bits, KBKDF drops a single left-over bit and the last block of one mode and lets its counter
  wrap, the generator writes behind its seed, padding in AES writes behind
  its buffer, and so on.

  \<^bold>\<open>Parameters.\<close> What the source calls and does not define is an argument: \<open>malloc\<close>, the C library's
  \<open>rand\<close>, the hash functions that \<open>aes.c\<close> calls by names that do not exist, \<open>swapU8\<close> and the memory
  manager of \<open>arch/arm\<close>, and the map from addresses to objects that the pointer difference in \<open>strcmp\<close>
  needs. \<open>T\<close> in the XTS mode, which is declared nowhere, is an array of 16 bytes.

  \<^bold>\<open>Not modelled.\<close> \<open>src/rsa.c\<close> is a demonstration that prints a number and does all its work in the
  vendored libtommath; \<open>src/entropy.c\<close> computes in floating point; \<open>src/hkdf.c\<close> and \<open>src/bignum.c\<close>
  have no code; the start-up code, interrupt tables and test kernel of \<open>arch/arm\<close> are assembly, registers
  and types that the repository does not have; the variant of the generator under
  \<open>RAND_EXPERIMENTAL\<close> names things that do not exist; \<open>rand_bytes\<close> calls a function under
  \<open>#ifdef www\<close>, which nothing defines; the register macros of \<open>macros.h\<close> are used
  nowhere; libtommath and googletest are other projects; the test programs only call and print.
\<close>

section \<open>Key derivation over the library's own HMAC\<close>

lemma pbkdf2_hmac_sha256:
  assumes "length ks = 128" and "pl \<noteq> 0" and "unat pl \<le> length p" and "sl \<noteq> 0" and "unat sl \<le> length s"
    and "iters \<noteq> 0" and "length U = 128" and "length T = 128" and "n \<noteq> 0" and "unat n \<le> length out"
  shows "\<exists>cbs'. mbcrypt_pbkdf2_hmac U T MBCRYPT_HASH_TYPE_SHA256
      (Some (hmac_callbacks (hmac_context MBCRYPT_HASH_TYPE_SHA256 (sha256_callbacks c) ks)))
      (Some p) pl (Some s) sl iters (Some out) n =
    Some (MBCRYPT_STATUS_OK, cbs', Some (pbkdf2_wrapped (hmac_spec fips_sha256 64) 32
      (take (unat pl) p) (take (unat sl) s) (unat iters) (unat n) @ drop (unat n) out))"
  using prf_api.pbkdf2_wrapped_out [OF hmac_sha256.hmac.prf_api_axioms,
      of MBCRYPT_HASH_TYPE_SHA256 pl p sl s iters, OF _ _ _ _ _ _ _ _ _ sha256_context_ready [of ks c],
      of U T n out] assms unat_u32_lt [of pl] unat_u32_lt [of sl]
  by (simp add: get_hash_block_size_by_hash_type_def)

lemma pbkdf2_hmac_sha1:
  assumes "length ks = 128" and "pl \<noteq> 0" and "unat pl \<le> length p" and "sl \<noteq> 0" and "unat sl \<le> length s"
    and "iters \<noteq> 0" and "length U = 128" and "length T = 128" and "n \<noteq> 0" and "unat n \<le> length out"
  shows "\<exists>cbs'. mbcrypt_pbkdf2_hmac U T MBCRYPT_HASH_TYPE_SHA1
      (Some (hmac_callbacks (hmac_context MBCRYPT_HASH_TYPE_SHA1 (sha1_callbacks c) ks)))
      (Some p) pl (Some s) sl iters (Some out) n =
    Some (MBCRYPT_STATUS_OK, cbs', Some (pbkdf2_wrapped (hmac_spec fips_sha1 64) 20
      (take (unat pl) p) (take (unat sl) s) (unat iters) (unat n) @ drop (unat n) out))"
  using prf_api.pbkdf2_wrapped_out [OF hmac_sha1.hmac.prf_api_axioms,
      of MBCRYPT_HASH_TYPE_SHA1 pl p sl s iters, OF _ _ _ _ _ _ _ _ _ sha1_context_ready [of ks c],
      of U T n out] assms unat_u32_lt [of pl] unat_u32_lt [of sl]
  by (simp add: get_hash_block_size_by_hash_type_def)

text \<open>
  C3. PBKDF2 with HMAC-SHA-256 is right: for every non-empty password and salt, every positive
  iteration count and every key length up to \<open>(2\<^sup>2\<^sup>4 - 1) * 32\<close> bytes, \<open>mbcrypt_pbkdf2_hmac\<close>
  called with the library's own HMAC and SHA-256 returns \<open>MBCRYPT_STATUS_OK\<close> and writes the
  derived key of RFC 8018, whatever the local arrays and the contexts held.
\<close>

theorem pbkdf2_hmac_sha256_value:
  assumes "length ks = 128" and "pl \<noteq> 0" and "unat pl \<le> length p" and "sl \<noteq> 0" and "unat sl \<le> length s"
    and "iters \<noteq> 0" and "length U = 128" and "length T = 128"
    and "n \<noteq> 0" and "unat n \<le> 16777215 * 32" and "unat n \<le> length out"
  shows "\<exists>cbs'. mbcrypt_pbkdf2_hmac U T MBCRYPT_HASH_TYPE_SHA256
      (Some (hmac_callbacks (hmac_context MBCRYPT_HASH_TYPE_SHA256 (sha256_callbacks c) ks)))
      (Some p) pl (Some s) sl iters (Some out) n =
    Some (MBCRYPT_STATUS_OK, cbs', Some (pbkdf2_spec (hmac_spec fips_sha256 64) 32
      (take (unat pl) p) (take (unat sl) s) (unat iters) (unat n) @ drop (unat n) out))"
  using pbkdf2_hmac_sha256 [OF assms(1-9,11), of c] pbkdf2_wrapped_spec [of 32 "unat n"] assms(10)
  by simp

theorem pbkdf2_hmac_sha256_value_witness:
  "\<exists>cbs'. mbcrypt_pbkdf2_hmac (replicate 128 0) (replicate 128 1) MBCRYPT_HASH_TYPE_SHA256
      (Some (hmac_callbacks (hmac_context MBCRYPT_HASH_TYPE_SHA256 (sha256_callbacks sha256_any_ctx)
        (replicate 128 2))))
      (Some [0x70, 0x77]) 2 (Some [0x73]) 1 4096 (Some (replicate 100 0)) 80 =
    Some (MBCRYPT_STATUS_OK, cbs', Some (pbkdf2_spec (hmac_spec fips_sha256 64) 32
      [0x70, 0x77] [0x73] 4096 80 @ replicate 20 0))"
  using pbkdf2_hmac_sha256_value [of "replicate 128 2" 2 "[0x70, 0x77]" 1 "[0x73]" 4096
      "replicate 128 0" "replicate 128 1" 80 "replicate 100 0" sha256_any_ctx]
  by simp

text \<open>
  C31. PBKDF2 with HMAC-SHA-1 is right, in the same sense, for key lengths up to
  \<open>(2\<^sup>2\<^sup>4 - 1) * 20\<close> bytes.
\<close>

theorem pbkdf2_hmac_sha1_value:
  assumes "length ks = 128" and "pl \<noteq> 0" and "unat pl \<le> length p" and "sl \<noteq> 0" and "unat sl \<le> length s"
    and "iters \<noteq> 0" and "length U = 128" and "length T = 128"
    and "n \<noteq> 0" and "unat n \<le> 16777215 * 20" and "unat n \<le> length out"
  shows "\<exists>cbs'. mbcrypt_pbkdf2_hmac U T MBCRYPT_HASH_TYPE_SHA1
      (Some (hmac_callbacks (hmac_context MBCRYPT_HASH_TYPE_SHA1 (sha1_callbacks c) ks)))
      (Some p) pl (Some s) sl iters (Some out) n =
    Some (MBCRYPT_STATUS_OK, cbs', Some (pbkdf2_spec (hmac_spec fips_sha1 64) 20
      (take (unat pl) p) (take (unat sl) s) (unat iters) (unat n) @ drop (unat n) out))"
  using pbkdf2_hmac_sha1 [OF assms(1-9,11), of c] pbkdf2_wrapped_spec [of 20 "unat n"] assms(10)
  by simp

theorem pbkdf2_hmac_sha1_value_witness:
  "\<exists>cbs'. mbcrypt_pbkdf2_hmac (replicate 128 0) (replicate 128 1) MBCRYPT_HASH_TYPE_SHA1
      (Some (hmac_callbacks (hmac_context MBCRYPT_HASH_TYPE_SHA1 (sha1_callbacks sha1_any_ctx)
        (replicate 128 2))))
      (Some [0x70, 0x77]) 2 (Some [0x73]) 1 2 (Some (replicate 25 0)) 25 =
    Some (MBCRYPT_STATUS_OK, cbs', Some (pbkdf2_spec (hmac_spec fips_sha1 64) 20
      [0x70, 0x77] [0x73] 2 25))"
  using pbkdf2_hmac_sha1_value [of "replicate 128 2" 2 "[0x70, 0x77]" 1 "[0x73]" 2
      "replicate 128 0" "replicate 128 1" 25 "replicate 25 0" sha1_any_ctx]
  by simp

text \<open>
  C33. The block counter of PBKDF2 has 24 bits, because its carry never reaches \<open>ctr[0]\<close>: in a
  key long enough, the blocks repeat with a period of \<open>2\<^sup>2\<^sup>4\<close>, which RFC 8018 forbids (its
  counter has 32 bits).
\<close>

theorem pbkdf2_blocks_repeat:
  assumes "length ks = 128" and "pl \<noteq> 0" and "unat pl \<le> length p" and "sl \<noteq> 0" and "unat sl \<le> length s"
    and "iters \<noteq> 0" and "length U = 128" and "length T = 128"
    and "unat n \<le> length out" and "(i + 16777217) * 32 \<le> unat n"
  shows "\<exists>cbs' dk. mbcrypt_pbkdf2_hmac U T MBCRYPT_HASH_TYPE_SHA256
      (Some (hmac_callbacks (hmac_context MBCRYPT_HASH_TYPE_SHA256 (sha256_callbacks c) ks)))
      (Some p) pl (Some s) sl iters (Some out) n = Some (MBCRYPT_STATUS_OK, cbs', Some dk)
    \<and> take 32 (drop ((i + 16777216) * 32) dk) = take 32 (drop (i * 32) dk)"
proof -
  let ?dk = "pbkdf2_wrapped (hmac_spec fips_sha256 64) 32 (take (unat pl) p) (take (unat sl) s)
    (unat iters) (unat n)"
  have F: "length (pbkdf2_F (hmac_spec fips_sha256 64) pw s c j) = 32" for pw s c j
    using prf_api.length_pbkdf2_F [OF hmac_sha256.hmac.prf_api_axioms]
    by (simp add: get_hash_block_size_by_hash_type_def)
  have "n \<noteq> 0" using assms(10) by (auto simp: unat_eq_0)
  have len: "length ?dk = unat n" by (rule length_pbkdf2_wrapped [OF F]) simp
  have blk: "take 32 (drop (j * 32) (?dk @ drop (unat n) out)) = take 32 (drop (j * 32) ?dk)"
    if "(j + 1) * 32 \<le> unat n" for j
    using that len by simp
  show ?thesis
    using pbkdf2_hmac_sha256 [OF assms(1-8) \<open>n \<noteq> 0\<close> assms(9), of c]
      pbkdf2_wrapped_repeats [OF F, of i] blk [of i] blk [of "i + 16777216"] assms(10)
    by auto
qed

theorem pbkdf2_blocks_repeat_witness:
  "\<exists>cbs' dk. mbcrypt_pbkdf2_hmac (replicate 128 0) (replicate 128 1) MBCRYPT_HASH_TYPE_SHA256
      (Some (hmac_callbacks (hmac_context MBCRYPT_HASH_TYPE_SHA256 (sha256_callbacks sha256_any_ctx)
        (replicate 128 2))))
      (Some [0x70, 0x77]) 2 (Some [0x73]) 1 1 (Some (replicate 536870944 0)) 536870944 =
      Some (MBCRYPT_STATUS_OK, cbs', Some dk)
    \<and> take 32 (drop 536870912 dk) = take 32 dk"
  using pbkdf2_blocks_repeat [of "replicate 128 2" 2 "[0x70, 0x77]" 1 "[0x73]" 1
      "replicate 128 0" "replicate 128 1" 536870944 "replicate 536870944 0" 0 sha256_any_ctx]
  by simp

text \<open>
  What PBKDF2 rejects: a null password, salt or output gives \<open>MBCRYPT_STATUS_FAIL_NULL_PTR\<close>, an
  empty password or salt, no output or no iterations gives
  \<open>MBCRYPT_STATUS_FAIL_INCORRECT_FUNCTION_PARAM\<close>, and nothing is written.
\<close>

theorem pbkdf2_rejects:
  shows "mbcrypt_pbkdf2_hmac U T t cb None pl s sl iters out n =
        Some (MBCRYPT_STATUS_FAIL_NULL_PTR, cb, out)
    \<and> mbcrypt_pbkdf2_hmac U T t cb p pl None sl iters out n =
        Some (MBCRYPT_STATUS_FAIL_NULL_PTR, cb, out)
    \<and> mbcrypt_pbkdf2_hmac U T t cb p pl s sl iters None n =
        Some (MBCRYPT_STATUS_FAIL_NULL_PTR, cb, None)
    \<and> mbcrypt_pbkdf2_hmac U T t (Some cbk) (Some pw) 0 (Some sa) sl iters (Some o1) n =
        Some (MBCRYPT_STATUS_FAIL_INCORRECT_FUNCTION_PARAM, Some cbk, Some o1)
    \<and> mbcrypt_pbkdf2_hmac U T t (Some cbk) (Some pw) pl (Some sa) 0 iters (Some o1) n =
        Some (MBCRYPT_STATUS_FAIL_INCORRECT_FUNCTION_PARAM, Some cbk, Some o1)
    \<and> mbcrypt_pbkdf2_hmac U T t (Some cbk) (Some pw) pl (Some sa) sl 0 (Some o1) n =
        Some (MBCRYPT_STATUS_FAIL_INCORRECT_FUNCTION_PARAM, Some cbk, Some o1)
    \<and> mbcrypt_pbkdf2_hmac U T t (Some cbk) (Some pw) pl (Some sa) sl iters (Some o1) 0 =
        Some (MBCRYPT_STATUS_FAIL_INCORRECT_FUNCTION_PARAM, Some cbk, Some o1)"
  by (simp add: mbcrypt_pbkdf2_hmac_def split: option.split)

end
